(* ===== verification/Gotham_Prelude.thy ===== *)
theory Gotham_Prelude
  imports Main "HOL-Library.Word" "HOL-Library.AList"
begin

unbundle bit_operations_syntax

text \<open>
  The prelude of the development: the types every component shares, the parts of the Rust
  language and of its standard library the sources use, and the lemmas on them.

  \<^item> A byte is an \<open>8 word\<close>, a slice or a vector of bytes a list of them. A Rust array
    \<open>[u8; n]\<close> is a list as well; where the length matters it is a well-formedness condition.
  \<^item> \<open>u64\<close> and \<open>usize\<close> (64 bit targets) are \<open>nat\<close>; the saturating, checked and wrapping
    operations are written out below. The release profile of the workspace does not enable
    overflow checks, so a plain \<open>-=\<close> that underflows wraps: \<open>wsub64\<close>.
  \<^item> \<open>Result\<close> is a sum with the error on the left; \<open>?\<close> is a case distinction.
  \<^item> \<open>HashMap\<close> is an association list with distinct keys. The order of the list stands for
    the unspecified iteration order; no statement depends on a particular one.
\<close>

section \<open>Collections of the development\<close>

named_theorems byte_simps \<open>lengths, slices and xor of byte strings\<close>
named_theorems num_simps \<open>saturating and wrapping machine arithmetic\<close>
named_theorems hm_simps \<open>lookups in a hash map after an operation\<close>

section \<open>Types\<close>

type_synonym byte = "8 word"
type_synonym bytes = "byte list"

text \<open>crypto-gotham/src/error.rs: the error type of the protocol crate.\<close>

datatype gerror =
    BadMac
  | Replay
  | Malformed string
  | Crypto string
  | Routing string
  | Directory string
  | Io string
  | Encode string
  | Decode string

section \<open>Machine arithmetic of the standard library\<close>

definition u64_max :: nat where
  "u64_max = 2 ^ 64 - 1"

definition sat_add :: "nat \<Rightarrow> nat \<Rightarrow> nat" where
  "sat_add a b = min (a + b) u64_max"

definition sat_sub :: "nat \<Rightarrow> nat \<Rightarrow> nat" where
  "sat_sub a b = a - b"

definition checked_add :: "nat \<Rightarrow> nat \<Rightarrow> nat option" where
  "checked_add a b = (if a + b \<le> u64_max then Some (a + b) else None)"

definition wadd64 :: "nat \<Rightarrow> nat \<Rightarrow> nat" where
  "wadd64 a b = (a + b) mod 2 ^ 64"

definition wsub64 :: "nat \<Rightarrow> nat \<Rightarrow> nat" where
  "wsub64 a b = (a + 2 ^ 64 - b) mod 2 ^ 64"

lemma wadd64_exact [num_simps]: "a + b < 2 ^ 64 \<Longrightarrow> wadd64 a b = a + b"
  by (simp add: wadd64_def)

lemma wrap_mod: "b \<le> a \<Longrightarrow> a < m \<Longrightarrow> (a + m - b) mod m = a - (b :: nat)"
proof -
  assume "b \<le> a" and "a < m"
  then have "(a + m - b) mod m = ((a - b) + m) mod m" by simp
  also have "\<dots> = a - b" using \<open>a < m\<close> by simp
  finally show ?thesis .
qed

lemma wsub64_exact [num_simps]: "b \<le> a \<Longrightarrow> a < 2 ^ 64 \<Longrightarrow> wsub64 a b = a - b"
  unfolding wsub64_def by (rule wrap_mod)

lemma sat_sub_le [num_simps]: "sat_sub a b \<le> a"
  by (simp add: sat_sub_def)

lemma sat_add_ge: "a \<le> u64_max \<Longrightarrow> a \<le> sat_add a b"
  by (simp add: sat_add_def)

lemma sat_add_le_max: "sat_add a b \<le> u64_max"
  by (simp add: sat_add_def)

section \<open>Results in sequence\<close>

text \<open>\<open>collect::<Result<Vec<_>, _>>\<close>, and a loop that leaves with the first error.\<close>

fun mapM_result :: "('a \<Rightarrow> 'e + 'b) \<Rightarrow> 'a list \<Rightarrow> 'e + 'b list" where
  "mapM_result f [] = Inr []"
| "mapM_result f (x # xs) =
     (case f x of
        Inl e \<Rightarrow> Inl e
      | Inr y \<Rightarrow> (case mapM_result f xs of Inl e \<Rightarrow> Inl e | Inr ys \<Rightarrow> Inr (y # ys)))"

text \<open>\<open>map_err\<close>.\<close>

definition map_err :: "('e \<Rightarrow> 'f) \<Rightarrow> 'e + 'a \<Rightarrow> 'f + 'a" where
  "map_err g r = (case r of Inl e \<Rightarrow> Inl (g e) | Inr x \<Rightarrow> Inr x)"

lemma map_err_Inr [simp]: "map_err g r = Inr x \<longleftrightarrow> r = Inr x"
  by (cases r) (simp_all add: map_err_def)

lemma map_err_simps [simp]: "map_err g (Inr x) = Inr x" "map_err g (Inl e) = Inl (g e)"
  by (simp_all add: map_err_def)

lemma mapM_result_Inr: "mapM_result f xs = Inr ys \<longleftrightarrow> list_all2 (\<lambda>x y. f x = Inr y) xs ys"
proof (induction xs arbitrary: ys)
  case Nil
  then show ?case by auto
next
  case (Cons x xs)
  show ?case
  proof (cases "f x")
    case (Inl e)
    then show ?thesis by (auto simp: list_all2_Cons1)
  next
    case (Inr y)
    then show ?thesis
      using Cons by (cases "mapM_result f xs") (auto simp: list_all2_Cons1)
  qed
qed

lemma mapM_result_all: "\<forall>x \<in> set xs. f x = Inr (g x) \<Longrightarrow> mapM_result f xs = Inr (map g xs)"
  by (induction xs) auto

section \<open>Byte strings\<close>

text \<open>The slice \<open>xs[a..b]\<close>, for bounds inside the list.\<close>

definition slice :: "nat \<Rightarrow> nat \<Rightarrow> 'a list \<Rightarrow> 'a list" where
  "slice a b xs = take (b - a) (drop a xs)"

text \<open>\<open>xs[a..a + ys.len()].copy_from_slice(ys)\<close>, for bounds inside the list.\<close>

definition splice :: "nat \<Rightarrow> 'a list \<Rightarrow> 'a list \<Rightarrow> 'a list" where
  "splice a ys xs = take a xs @ ys @ drop (a + length ys) xs"

definition xor_bytes :: "bytes \<Rightarrow> bytes \<Rightarrow> bytes" where
  "xor_bytes xs ys = map2 (XOR) xs ys"

text \<open>
  The output of a primitive with a fixed or a requested length: the first \<open>n\<close> bytes of what
  the primitive produces, position by position.
\<close>

definition arr :: "nat \<Rightarrow> (nat \<Rightarrow> byte) \<Rightarrow> bytes" where
  "arr n f = map f [0..<n]"

lemma length_arr [simp, byte_simps]: "length (arr n f) = n"
  by (simp add: arr_def)

lemma length_slice [byte_simps]: "length (slice a b xs) = min (b - a) (length xs - a)"
  by (simp add: slice_def min.commute)

lemma length_splice [byte_simps]: "a + length ys \<le> length xs \<Longrightarrow> length (splice a ys xs) = length xs"
  by (simp add: splice_def)

lemma slice_splice_same [byte_simps]:
  "a + length ys \<le> length xs \<Longrightarrow> b = a + length ys \<Longrightarrow> slice a b (splice a ys xs) = ys"
  by (simp add: slice_def splice_def)

lemma drop_splice [byte_simps]:
  "a + length ys \<le> b \<Longrightarrow> a + length ys \<le> length xs \<Longrightarrow> drop b (splice a ys xs) = drop b xs"
  by (simp add: splice_def)

lemma length_xor_bytes [simp, byte_simps]: "length (xor_bytes xs ys) = min (length xs) (length ys)"
  by (simp add: xor_bytes_def)

lemma nth_xor_bytes [simp]:
  "i < length xs \<Longrightarrow> i < length ys \<Longrightarrow> xor_bytes xs ys ! i = xs ! i XOR ys ! i"
  by (simp add: xor_bytes_def)

lemma xor_bytes_commute: "xor_bytes xs ys = xor_bytes ys xs"
  by (rule nth_equalityI) (auto simp: xor.commute)

lemma xor_bytes_assoc: "xor_bytes (xor_bytes xs ys) zs = xor_bytes xs (xor_bytes ys zs)"
  by (rule nth_equalityI) (auto simp: xor.assoc)

lemma xor_bytes_cancel [byte_simps]:
  "length xs \<le> length ys \<Longrightarrow> xor_bytes (xor_bytes xs ys) ys = xs"
  by (rule nth_equalityI) (auto simp: xor.assoc)

lemma xor_bytes_cancel_left [byte_simps]:
  "length xs \<le> length ys \<Longrightarrow> xor_bytes ys (xor_bytes ys xs) = xs"
  by (rule nth_equalityI) (auto simp: xor.assoc [symmetric])

lemma xor_bytes_inj:
  assumes "xor_bytes xs zs = xor_bytes ys zs" "length xs = length ys" "length xs \<le> length zs"
  shows "xs = ys"
  by (metis assms xor_bytes_cancel)

lemma xor_bytes_zero [byte_simps]: "length xs \<le> n \<Longrightarrow> xor_bytes xs (replicate n 0) = xs"
  by (rule nth_equalityI) auto

lemma drop_xor_bytes [byte_simps]: "drop n (xor_bytes xs ys) = xor_bytes (drop n xs) (drop n ys)"
  by (simp add: xor_bytes_def drop_map drop_zip)

lemma take_xor_bytes [byte_simps]: "take n (xor_bytes xs ys) = xor_bytes (take n xs) (take n ys)"
  by (simp add: xor_bytes_def take_map take_zip)

lemma slice_xor_bytes [byte_simps]:
  "slice a b (xor_bytes xs ys) = xor_bytes (slice a b xs) (slice a b ys)"
  by (simp add: slice_def drop_xor_bytes take_xor_bytes)

lemma xor_bytes_take_right [byte_simps]: "length xs \<le> n \<Longrightarrow> xor_bytes xs (take n ys) = xor_bytes xs ys"
  by (rule nth_equalityI) auto

text \<open>
  The constant-time comparisons of the sources fold the byte-wise differences with \<open>|\<close> and
  compare the result with zero. On strings of one length this decides equality.
\<close>

definition ct_diff :: "bytes \<Rightarrow> bytes \<Rightarrow> byte" where
  "ct_diff xs ys = foldl (\<lambda>acc (a, b). acc OR (a XOR b)) 0 (zip xs ys)"

lemma word_or_eq_0: "(a :: byte) OR b = 0 \<longleftrightarrow> a = 0 \<and> b = 0"
  by (auto simp: bit_eq_iff bit_simps)

lemma word_xor_eq_0: "(a :: byte) XOR b = 0 \<longleftrightarrow> a = b"
  by (auto simp: bit_eq_iff bit_simps)

lemma ct_fold_zero:
  "foldl (\<lambda>acc (a, b). acc OR (a XOR b)) acc ps = (0 :: byte)
     \<longleftrightarrow> acc = 0 \<and> (\<forall>(a, b) \<in> set ps. a = b)"
  by (induction ps arbitrary: acc) (auto simp: word_or_eq_0 word_xor_eq_0)

lemma zip_all_eq: "length xs = length ys \<Longrightarrow> (\<forall>(a, b) \<in> set (zip xs ys). a = b) \<longleftrightarrow> xs = ys"
  by (induction xs ys rule: list_induct2) auto

lemma ct_diff_eq: "length xs = length ys \<Longrightarrow> ct_diff xs ys = 0 \<longleftrightarrow> xs = ys"
  by (simp add: ct_diff_def ct_fold_zero zip_all_eq)

subsection \<open>Big-endian and little-endian integers\<close>

fun be_bytes :: "nat \<Rightarrow> nat \<Rightarrow> bytes" where
  "be_bytes 0 x = []"
| "be_bytes (Suc n) x = be_bytes n (x div 256) @ [word_of_nat (x mod 256)]"

definition be_val :: "bytes \<Rightarrow> nat" where
  "be_val bs = foldl (\<lambda>a b. 256 * a + unat b) 0 bs"

definition le_bytes :: "nat \<Rightarrow> nat \<Rightarrow> bytes" where
  "le_bytes n x = rev (be_bytes n x)"

lemma length_be_bytes [simp, byte_simps]: "length (be_bytes n x) = n"
  by (induction n arbitrary: x) auto

lemma length_le_bytes [simp, byte_simps]: "length (le_bytes n x) = n"
  by (simp add: le_bytes_def)

lemma be_val_snoc [simp]: "be_val (bs @ [b]) = 256 * be_val bs + unat b"
  by (simp add: be_val_def)

lemma be_val_Nil [simp]: "be_val [] = 0"
  by (simp add: be_val_def)

lemma unat_byte_of_mod: "unat (word_of_nat (x mod 256) :: byte) = x mod 256"
  by (simp add: unat_of_nat)

lemma be_val_be_bytes [byte_simps]: "x < 256 ^ n \<Longrightarrow> be_val (be_bytes n x) = x"
proof (induction n arbitrary: x)
  case 0
  then show ?case by simp
next
  case (Suc n)
  then have "x div 256 < 256 ^ n" by (simp add: less_mult_imp_div_less)
  with Suc.IH show ?case by (simp add: unat_byte_of_mod)
qed

lemma be_bytes_be_val [byte_simps]: "be_bytes (length bs) (be_val bs) = bs"
proof (induction bs rule: rev_induct)
  case Nil
  then show ?case by simp
next
  case (snoc b bs)
  have b: "unat b < 256" using unsigned_less [of b] by simp
  then have "(256 * be_val bs + unat b) div 256 = be_val bs" by simp
  moreover have "(256 * be_val bs + unat b) mod 256 = unat b" using b by simp
  ultimately show ?case using snoc by simp
qed

lemma be_val_bound: "be_val bs < 256 ^ length bs"
proof (induction bs rule: rev_induct)
  case Nil
  then show ?case by simp
next
  case (snoc b bs)
  have "unat b < 256" using unsigned_less [of b] by simp
  with snoc show ?case by simp
qed

lemma be_bytes_inj: "be_bytes n x = be_bytes n y \<Longrightarrow> x < 256 ^ n \<Longrightarrow> y < 256 ^ n \<Longrightarrow> x = y"
  by (metis be_val_be_bytes)

lemma le_bytes_inj: "le_bytes n x = le_bytes n y \<Longrightarrow> x < 256 ^ n \<Longrightarrow> y < 256 ^ n \<Longrightarrow> x = y"
  by (simp add: le_bytes_def be_bytes_inj)

section \<open>Hash maps of the standard library\<close>

type_synonym ('k, 'v) hashmap = "('k \<times> 'v) list"

definition hm_get :: "('k, 'v) hashmap \<Rightarrow> 'k \<Rightarrow> 'v option" where
  "hm_get m k = map_of m k"

definition hm_insert :: "'k \<Rightarrow> 'v \<Rightarrow> ('k, 'v) hashmap \<Rightarrow> ('k, 'v) hashmap" where
  "hm_insert k v m = AList.update k v m"

definition hm_remove :: "'k \<Rightarrow> ('k, 'v) hashmap \<Rightarrow> ('k, 'v) hashmap" where
  "hm_remove k m = AList.delete k m"

definition hm_contains :: "('k, 'v) hashmap \<Rightarrow> 'k \<Rightarrow> bool" where
  "hm_contains m k = (hm_get m k \<noteq> None)"

text \<open>\<open>retain\<close> with a closure that may also change the value it keeps.\<close>

definition hm_retain :: "('k \<Rightarrow> 'v \<Rightarrow> bool) \<Rightarrow> ('k, 'v) hashmap \<Rightarrow> ('k, 'v) hashmap" where
  "hm_retain p m = filter (\<lambda>(k, v). p k v) m"

definition hm_wf :: "('k, 'v) hashmap \<Rightarrow> bool" where
  "hm_wf m = distinct (map fst m)"

definition hm_keys :: "('k, 'v) hashmap \<Rightarrow> 'k set" where
  "hm_keys m = fst ` set m"

text \<open>
  The interface a client of a hash map relies on: lookups after every operation, the
  invariant, and the number of entries as the number of keys.
\<close>

locale hash_map =
  fixes get :: "'m \<Rightarrow> 'k \<Rightarrow> 'v option"
    and insert :: "'k \<Rightarrow> 'v \<Rightarrow> 'm \<Rightarrow> 'm"
    and remove :: "'k \<Rightarrow> 'm \<Rightarrow> 'm"
    and len :: "'m \<Rightarrow> nat"
    and empty :: 'm
    and wf :: "'m \<Rightarrow> bool"
  assumes get_empty: "get empty k = None"
    and get_insert: "get (insert k v m) k' = (if k' = k then Some v else get m k')"
    and get_remove: "get (remove k m) k' = (if k' = k then None else get m k')"
    and wf_empty: "wf empty"
    and wf_insert: "wf m \<Longrightarrow> wf (insert k v m)"
    and wf_remove: "wf m \<Longrightarrow> wf (remove k m)"
    and finite_get: "finite {k. get m k \<noteq> None}"
    and len_card: "wf m \<Longrightarrow> len m = card {k. get m k \<noteq> None}"
begin

lemma len_empty: "len empty = 0"
  using len_card [OF wf_empty] by (simp add: get_empty)

lemma len_insert_new: "wf m \<Longrightarrow> get m k = None \<Longrightarrow> len (insert k v m) = Suc (len m)"
proof -
  assume wf: "wf m" and new: "get m k = None"
  have "{x. get (insert k v m) x \<noteq> None} = Set.insert k {x. get m x \<noteq> None}"
    by (auto simp: get_insert)
  with new finite_get [of m] show ?thesis
    by (simp add: len_card [OF wf] len_card [OF wf_insert [OF wf]])
qed

lemma len_insert_old: "wf m \<Longrightarrow> get m k \<noteq> None \<Longrightarrow> len (insert k v m) = len m"
proof -
  assume wf: "wf m" and old: "get m k \<noteq> None"
  have "{x. get (insert k v m) x \<noteq> None} = {x. get m x \<noteq> None}"
    using old by (auto simp: get_insert)
  then show ?thesis by (simp add: len_card [OF wf] len_card [OF wf_insert [OF wf]])
qed

lemma len_remove_old: "wf m \<Longrightarrow> get m k \<noteq> None \<Longrightarrow> Suc (len (remove k m)) = len m"
proof -
  assume wf: "wf m" and old: "get m k \<noteq> None"
  have eq: "{x. get (remove k m) x \<noteq> None} = {x. get m x \<noteq> None} - {k}"
    by (auto simp: get_remove)
  have "card {x. get m x \<noteq> None} = Suc (card ({x. get m x \<noteq> None} - {k}))"
    using old finite_get [of m] by (subst card.remove) auto
  with eq show ?thesis by (simp add: len_card [OF wf] len_card [OF wf_remove [OF wf]])
qed

lemma len_remove_le: "wf m \<Longrightarrow> len (remove k m) \<le> len m"
proof -
  assume wf: "wf m"
  have "{x. get (remove k m) x \<noteq> None} \<subseteq> {x. get m x \<noteq> None}"
    by (auto simp: get_remove split: if_splits)
  with finite_get [of m] show ?thesis
    unfolding len_card [OF wf] len_card [OF wf_remove [OF wf]] by (rule card_mono)
qed

end

lemma hm_keys_get: "hm_keys m = {k. hm_get m k \<noteq> None}"
  by (simp add: hm_keys_def hm_get_def dom_map_of_conv_image_fst [symmetric] dom_def)

interpretation hm: hash_map hm_get hm_insert hm_remove length "[]" hm_wf
proof
  fix m :: "('k, 'v) hashmap" and k k' :: 'k and v :: 'v
  show "hm_get ([] :: ('k, 'v) hashmap) k = None" by (simp add: hm_get_def)
  show "hm_get (hm_insert k v m) k' = (if k' = k then Some v else hm_get m k')"
    by (simp add: hm_get_def hm_insert_def update_conv')
  show "hm_get (hm_remove k m) k' = (if k' = k then None else hm_get m k')"
    by (simp add: hm_get_def hm_remove_def delete_conv')
  show "hm_wf ([] :: ('k, 'v) hashmap)" by (simp add: hm_wf_def)
  show "hm_wf m \<Longrightarrow> hm_wf (hm_insert k v m)"
    by (simp add: hm_wf_def hm_insert_def distinct_update)
  show "hm_wf m \<Longrightarrow> hm_wf (hm_remove k m)"
    by (simp add: hm_wf_def hm_remove_def distinct_delete)
  show "finite {k. hm_get m k \<noteq> None}"
    unfolding hm_keys_get [symmetric] hm_keys_def by simp
  show "hm_wf m \<Longrightarrow> length m = card {k. hm_get m k \<noteq> None}"
    unfolding hm_keys_get [symmetric] hm_keys_def hm_wf_def
    using distinct_card [of "map fst m"] by simp
qed

lemmas [hm_simps] = hm.get_empty hm.get_insert hm.get_remove hm.wf_empty hm.wf_insert hm.wf_remove

lemma hm_wf_retain [hm_simps]: "hm_wf m \<Longrightarrow> hm_wf (hm_retain p m)"
  by (simp add: hm_wf_def hm_retain_def distinct_map_filter)

lemma hm_get_retain [hm_simps]:
  "hm_wf m \<Longrightarrow> hm_get (hm_retain p m) k =
     (case hm_get m k of None \<Rightarrow> None | Some v \<Rightarrow> if p k v then Some v else None)"
  unfolding hm_wf_def hm_get_def hm_retain_def
proof (induction m)
  case Nil
  then show ?case by simp
next
  case (Cons kv m)
  obtain k0 v0 where kv: "kv = (k0, v0)" by (cases kv)
  from Cons.prems kv have "map_of m k0 = None" by (auto simp: map_of_eq_None_iff)
  moreover have "map_of (filter (\<lambda>(k, v). p k v) m) k0 = None"
    using Cons.prems kv by (force simp: map_of_eq_None_iff)
  ultimately show ?case using Cons kv by (auto split: option.splits)
qed

lemma hm_get_SomeD: "hm_get m k = Some v \<Longrightarrow> (k, v) \<in> set m"
  by (simp add: hm_get_def map_of_SomeD)

lemma hm_get_in: "hm_wf m \<Longrightarrow> hm_get m k = Some v \<longleftrightarrow> (k, v) \<in> set m"
  by (simp add: hm_get_def hm_wf_def)

text \<open>A sum over the entries of a hash map, after the operations on one key.\<close>

definition hm_sum :: "('v \<Rightarrow> nat) \<Rightarrow> ('k, 'v) hashmap \<Rightarrow> nat" where
  "hm_sum f m = sum_list (map (f \<circ> snd) m)"

lemma hm_sum_Nil [simp]: "hm_sum f [] = 0"
  by (simp add: hm_sum_def)

lemma hm_sum_insert_new: "hm_get m k = None \<Longrightarrow> hm_sum f (hm_insert k v m) = hm_sum f m + f v"
  unfolding hm_sum_def hm_get_def hm_insert_def by (induction m) (auto split: if_splits)

lemma hm_sum_insert_old:
  "hm_get m k = Some w \<Longrightarrow> hm_sum f (hm_insert k v m) + f w = hm_sum f m + f v"
  unfolding hm_sum_def hm_get_def hm_insert_def by (induction m) (auto split: if_splits)

lemma hm_sum_remove:
  assumes "hm_wf m" and "hm_get m k = Some w"
  shows "hm_sum f (hm_remove k m) + f w = hm_sum f m"
  using assms unfolding hm_sum_def hm_get_def hm_remove_def hm_wf_def
proof (induction m)
  case Nil
  then show ?case by simp
next
  case (Cons kv m)
  obtain k0 v0 where kv: "kv = (k0, v0)" by (cases kv)
  show ?case
  proof (cases "k0 = k")
    case True
    with Cons.prems kv have "k \<notin> fst ` set m" by auto
    then have "AList.delete k m = m" by (rule delete_id)
    with True kv Cons.prems show ?thesis by simp
  next
    case False
    with Cons kv show ?thesis by simp
  qed
qed

lemma hm_sum_ge: "hm_get m k = Some w \<Longrightarrow> f w \<le> hm_sum f m"
  unfolding hm_sum_def hm_get_def by (induction m) (auto split: if_splits)

section \<open>Lists and strings\<close>

lemma in_map_filter: "y \<in> set (List.map_filter f xs) \<longleftrightarrow> (\<exists>x \<in> set xs. f x = Some y)"
  by (force simp: List.map_filter_def)

text \<open>\<open>str::contains\<close>.\<close>

fun str_contains :: "string \<Rightarrow> string \<Rightarrow> bool" where
  "str_contains [] pat = (pat = [])"
| "str_contains (c # cs) pat = (take (length pat) (c # cs) = pat \<or> str_contains cs pat)"

end
