(* ===== verification/Primitives.thy ===== *)
theory Primitives
  imports Gotham_Prelude
begin

unbundle bit_operations_syntax

text \<open>
  The third-party code the sources call, as one record that every definition using it takes
  as its first argument. Nothing is assumed of a primitive here; where a property relies on
  documented behaviour (a signature verifies, a cipher decrypts), that is a named predicate
  of this theory and a hypothesis of the property.

  A primitive with an output of fixed or requested length is a function from the position to
  the byte at that position, and its caller takes the first \<open>n\<close> positions with \<open>arr n\<close>:
  BLAKE3 and the ChaCha20 key stream are such functions, and for the fixed-size outputs
  (\<open>[u8; 16]\<close> tags, \<open>[u8; 32]\<close> keys, \<open>[u8; 64]\<close> signatures) the Rust type fixes \<open>n\<close>.
\<close>

text \<open>\<open>std::net::IpAddr\<close> as the octets it holds and \<open>std::net::SocketAddr\<close> with its port.\<close>

datatype ipaddr = V4 bytes | V6 bytes

record sockaddr =
  sa_ip :: ipaddr
  sa_port :: "16 word"

record prims =
  chacha20 :: "bytes \<Rightarrow> nat \<Rightarrow> byte"
  poly1305 :: "bytes \<Rightarrow> bytes \<Rightarrow> nat \<Rightarrow> byte"
  blake3_hash :: "bytes \<Rightarrow> nat \<Rightarrow> byte"
  blake3_keyed :: "bytes \<Rightarrow> bytes \<Rightarrow> nat \<Rightarrow> byte"
  blake3_derive_key :: "string \<Rightarrow> bytes \<Rightarrow> nat \<Rightarrow> byte"
  hkdf_sha256 :: "bytes \<Rightarrow> bytes \<Rightarrow> bytes \<Rightarrow> (nat \<Rightarrow> byte) option"
  x25519_fn :: "bytes \<Rightarrow> bytes \<Rightarrow> nat \<Rightarrow> byte"
  aead_encrypt :: "bytes \<Rightarrow> bytes \<Rightarrow> bytes \<Rightarrow> bytes \<Rightarrow> bytes option"
  aead_decrypt :: "bytes \<Rightarrow> bytes \<Rightarrow> bytes \<Rightarrow> bytes \<Rightarrow> bytes option"
  hex_encode :: "bytes \<Rightarrow> string"
  hex_decode :: "string \<Rightarrow> bytes option"
  ed_public :: "bytes \<Rightarrow> nat \<Rightarrow> byte"
  ed_sign :: "bytes \<Rightarrow> bytes \<Rightarrow> nat \<Rightarrow> byte"
  ed_key_ok :: "bytes \<Rightarrow> bool"
  ed_verify :: "bytes \<Rightarrow> bytes \<Rightarrow> bytes \<Rightarrow> bool"
  parse_sockaddr :: "string \<Rightarrow> sockaddr option"

text \<open>The bytes of an ASCII literal, \<open>b"..."\<close>, and of a string, \<open>as_bytes()\<close>.\<close>

definition ascii_byte :: "char \<Rightarrow> byte" where
  "ascii_byte c = word_of_nat (of_char c)"

definition ascii :: "string \<Rightarrow> bytes" where
  "ascii s = map ascii_byte s"

lemma length_ascii [simp, byte_simps]: "length (ascii s) = length s"
  by (simp add: ascii_def)

lemma unat_ascii_byte: "unat (ascii_byte c) = of_char c"
  by (simp add: ascii_byte_def unat_of_nat)

lemma ascii_byte_char_of [simp]: "ascii_byte (char_of (unat x)) = x"
  by (rule word_unat_eq_iff [THEN iffD2]) (simp add: unat_ascii_byte unsigned_less [of x, simplified])

lemma inj_ascii_byte: "inj ascii_byte"
  by (rule injI) (metis unat_ascii_byte of_char_eq_iff)

lemma ascii_inj: "ascii s = ascii t \<longleftrightarrow> s = t"
  by (simp add: ascii_def inj_map_eq_map [OF inj_ascii_byte])

subsection \<open>Documented behaviour of the primitives\<close>

text \<open>\<open>hex::decode\<close> inverts \<open>hex::encode\<close>.\<close>

definition hex_ok :: "prims \<Rightarrow> bool" where
  "hex_ok P \<longleftrightarrow> (\<forall>b. hex_decode P (hex_encode P b) = Some b)"

text \<open>Ed25519: the public key of a signing key is a valid point and verifies its signatures.\<close>

definition ed_ok :: "prims \<Rightarrow> bool" where
  "ed_ok P \<longleftrightarrow> (\<forall>sk. ed_key_ok P (arr 32 (ed_public P sk))) \<and>
     (\<forall>sk m. ed_verify P (arr 32 (ed_public P sk)) m (arr 64 (ed_sign P sk m)))"

text \<open>ChaCha20-Poly1305: decryption inverts encryption and the tag adds 16 bytes.\<close>

definition aead_ok :: "prims \<Rightarrow> bool" where
  "aead_ok P \<longleftrightarrow> (\<forall>k n a m c. aead_encrypt P k n a m = Some c \<longrightarrow>
     aead_decrypt P k n a c = Some m \<and> length c = length m + 16)"

text \<open>X25519: both sides of an exchange compute the same point.\<close>

definition x25519_base :: bytes where
  "x25519_base = 9 # replicate 31 0"

definition x25519 :: "prims \<Rightarrow> bytes \<Rightarrow> bytes \<Rightarrow> bytes" where
  "x25519 P k u = arr 32 (x25519_fn P k u)"

definition dh_ok :: "prims \<Rightarrow> bool" where
  "dh_ok P \<longleftrightarrow> (\<forall>a b. x25519 P a (x25519 P b x25519_base) = x25519 P b (x25519 P a x25519_base))"

lemma length_x25519 [simp, byte_simps]: "length (x25519 P k u) = 32"
  by (simp add: x25519_def)

subsection \<open>A concrete instance\<close>

text \<open>
  An instance of the primitives that satisfies all the documented laws, used by the witnesses:
  it shows that the hypotheses can hold together.
\<close>

definition byte0 :: "bytes \<Rightarrow> byte" where
  "byte0 b = (case b of [] \<Rightarrow> 0 | x # _ \<Rightarrow> x)"

definition demo_prims :: prims where
  "demo_prims = \<lparr>
     chacha20 = (\<lambda>k i. word_of_nat (i + length k)),
     poly1305 = (\<lambda>k m i. if i < length m then m ! i else 7),
     blake3_hash = (\<lambda>m i. if i < length m then m ! i else 3),
     blake3_keyed = (\<lambda>k m i. if i < length m then m ! i else 5),
     blake3_derive_key = (\<lambda>s m i. if i < length m then m ! i else word_of_nat (length s)),
     hkdf_sha256 = (\<lambda>salt ikm info. Some (\<lambda>i. if i < length ikm then ikm ! i else 1)),
     x25519_fn = (\<lambda>k u i. if i = 0 then (byte0 k AND 248) + byte0 u else 1),
     aead_encrypt = (\<lambda>k n a m. Some (m @ replicate 16 0)),
     aead_decrypt = (\<lambda>k n a c. if 16 \<le> length c then Some (take (length c - 16) c) else None),
     hex_encode = (\<lambda>b. map (\<lambda>x. char_of (unat x)) b),
     hex_decode = (\<lambda>s. Some (map ascii_byte s)),
     ed_public = (\<lambda>sk i. if i < length sk then sk ! i else 0),
     ed_sign = (\<lambda>sk m i. if i < length m then m ! i else 0),
     ed_key_ok = (\<lambda>pk. True),
     ed_verify = (\<lambda>pk m s. s = arr 64 (\<lambda>i. if i < length m then m ! i else 0)),
     parse_sockaddr = (\<lambda>s. Some \<lparr>sa_ip = V4 (take 4 (map ascii_byte s @ replicate 4 0)), sa_port = 443\<rparr>)
   \<rparr>"

lemma demo_hex_ok: "hex_ok demo_prims"
  by (simp add: hex_ok_def demo_prims_def map_idI)

lemma demo_ed_ok: "ed_ok demo_prims"
  by (simp add: ed_ok_def demo_prims_def)

lemma demo_aead_ok: "aead_ok demo_prims"
  by (auto simp: aead_ok_def demo_prims_def)

lemma demo_dh_ok: "dh_ok demo_prims"
  unfolding dh_ok_def
proof (intro allI)
  fix a b :: bytes
  show "x25519 demo_prims a (x25519 demo_prims b x25519_base) =
        x25519 demo_prims b (x25519 demo_prims a x25519_base)"
    by (rule nth_equalityI)
      (auto simp: x25519_def arr_def demo_prims_def x25519_base_def byte0_def upt_rec ac_simps)
qed

end
