(* ===== verification/Directory.thy ===== *)
theory Directory
  imports Primitives "HOL-Library.Char_ord" "HOL-Library.List_Lexorder"
begin

text \<open>
  The signed directory, crypto-gotham/src/directory.rs: relay descriptors, the document and its
  signature, the rotation of the authority key, the selection of a path under the diversity
  rules, and the diversity caps of a published directory.

  The JSON form of a document is a parameter (\<open>serde_json\<close>), a clock reading an optional number
  of seconds (absent before the epoch). The random choices of the path selector are parameters
  of each try: what is assumed of them, that a choice is one of the candidates and a shuffle a
  permutation, is \<open>draws_ok\<close>. The uptime of a descriptor is only carried along: the bits of
  its \<open>f32\<close>.
\<close>

section \<open>Descriptors\<close>

definition DIRECTORY_VERSION :: byte where "DIRECTORY_VERSION = 1"

datatype relay_tier = Entry | Mix | Exit

record descriptor =
  id_pubkey_hex :: string
  kem_pubkey_hex :: string
  addr :: string
  tier :: relay_tier
  country :: "string option"
  asn :: "32 word option"
  operator :: "string option"
  uptime_pct :: "32 word option"
  has_mailbox :: bool
  rendezvous :: "string option"
  rendezvous_capable :: bool

definition decode32 :: "prims \<Rightarrow> string \<Rightarrow> string \<Rightarrow> string \<Rightarrow> gerror + bytes" where
  "decode32 P bad_hex bad_len s =
     (case hex_decode P s of
        None \<Rightarrow> Inl (Directory bad_hex)
      | Some v \<Rightarrow> if length v \<noteq> 32 then Inl (Directory bad_len) else Inr v)"

definition kem_pubkey_bytes :: "prims \<Rightarrow> descriptor \<Rightarrow> gerror + bytes" where
  "kem_pubkey_bytes P d = decode32 P ''bad kem_pubkey hex'' ''kem_pubkey wrong length'' (kem_pubkey_hex d)"

definition id_pubkey_bytes :: "prims \<Rightarrow> descriptor \<Rightarrow> gerror + bytes" where
  "id_pubkey_bytes P d = decode32 P ''bad id_pubkey hex'' ''id_pubkey wrong length'' (id_pubkey_hex d)"

definition ipv4_octets :: "prims \<Rightarrow> descriptor \<Rightarrow> gerror + bytes" where
  "ipv4_octets P d =
     (case parse_sockaddr P (addr d) of
        None \<Rightarrow> Inl (Directory ''bad addr'')
      | Some sa \<Rightarrow> (case sa_ip sa of
            V4 octets \<Rightarrow> Inr octets
          | V6 _ \<Rightarrow> Inl (Directory ''ipv6 addr not yet supported'')))"

definition port :: "prims \<Rightarrow> descriptor \<Rightarrow> gerror + 16 word" where
  "port P d = (case parse_sockaddr P (addr d) of None \<Rightarrow> Inl (Directory ''bad addr'') | Some sa \<Rightarrow> Inr (sa_port sa))"

definition ip_addr :: "prims \<Rightarrow> descriptor \<Rightarrow> ipaddr option" where
  "ip_addr P d = map_option sa_ip (parse_sockaddr P (addr d))"

section \<open>Documents and signatures\<close>

record directory_doc =
  doc_version :: byte
  valid_after :: nat
  valid_until :: nat
  relays :: "descriptor list"

definition doc_new :: "descriptor list \<Rightarrow> nat \<Rightarrow> nat option \<Rightarrow> gerror + directory_doc" where
  "doc_new rs validity_secs clock =
     (case clock of
        None \<Rightarrow> Inl (Directory ''system clock before epoch'')
      | Some now \<Rightarrow> (case checked_add now validity_secs of
            None \<Rightarrow> Inl (Directory ''validity window overflows u64'')
          | Some until \<Rightarrow> Inr \<lparr>doc_version = DIRECTORY_VERSION, valid_after = now, valid_until = until,
                             relays = sort_key id_pubkey_hex rs\<rparr>))"

record signed_directory =
  doc :: directory_doc
  authority_pubkey_hex :: string
  signature_hex :: string

type_synonym json = "directory_doc \<Rightarrow> bytes option"

definition canonical_bytes :: "json \<Rightarrow> directory_doc \<Rightarrow> gerror + bytes" where
  "canonical_bytes J d = (case J d of None \<Rightarrow> Inl (Directory ''serialize directory doc'') | Some b \<Rightarrow> Inr b)"

definition directory_sign :: "prims \<Rightarrow> json \<Rightarrow> directory_doc \<Rightarrow> bytes \<Rightarrow> gerror + signed_directory" where
  "directory_sign P J d signing_key =
     (case canonical_bytes J d of
        Inl e \<Rightarrow> Inl e
      | Inr canonical \<Rightarrow> Inr \<lparr>doc = d, authority_pubkey_hex = hex_encode P (arr 32 (ed_public P signing_key)),
            signature_hex = hex_encode P (arr 64 (ed_sign P signing_key canonical))\<rparr>)"

definition directory_verify :: "prims \<Rightarrow> json \<Rightarrow> signed_directory \<Rightarrow> bytes \<Rightarrow> nat option \<Rightarrow> gerror + unit" where
  "directory_verify P J sd expected clock =
     (case hex_decode P (authority_pubkey_hex sd) of
        None \<Rightarrow> Inl (Directory ''bad authority pubkey hex'')
      | Some actual \<Rightarrow>
          if actual \<noteq> expected then Inl (Directory ''authority pubkey mismatch'')
          else case hex_decode P (signature_hex sd) of
            None \<Rightarrow> Inl (Directory ''bad signature hex'')
          | Some sig \<Rightarrow>
              if length sig \<noteq> 64 then Inl (Directory ''signature wrong length'')
              else case canonical_bytes J (doc sd) of
                Inl e \<Rightarrow> Inl e
              | Inr canonical \<Rightarrow>
                  if \<not> ed_verify P expected canonical sig then Inl (Directory ''signature verify failed'')
                  else if doc_version (doc sd) \<noteq> DIRECTORY_VERSION
                  then Inl (Directory ''unsupported directory version'')
                  else if valid_until (doc sd) < valid_after (doc sd)
                  then Inl (Directory ''inverted validity window'')
                  else case clock of
                    None \<Rightarrow> Inl (Directory ''system clock before epoch'')
                  | Some now \<Rightarrow>
                      if now < valid_after (doc sd) then Inl (Directory ''directory not yet valid'')
                      else if valid_until (doc sd) < now then Inl (Directory ''directory expired'')
                      else Inr ())"

definition verify_monotonic :: "prims \<Rightarrow> json \<Rightarrow> signed_directory \<Rightarrow> bytes \<Rightarrow> nat \<Rightarrow> nat option \<Rightarrow> gerror + nat" where
  "verify_monotonic P J sd expected seen clock =
     (case directory_verify P J sd expected clock of
        Inl e \<Rightarrow> Inl e
      | Inr _ \<Rightarrow>
          if valid_after (doc sd) < seen
          then Inl (Directory ''directory is older than one already seen (rollback attempt)'')
          else Inr (valid_after (doc sd)))"

section \<open>Rotation of the authority key\<close>

record key_transition =
  old_pubkey_hex :: string
  new_pubkey_hex :: string
  sig_old_hex :: string
  sig_new_hex :: string

definition signing_bytes :: "bytes \<Rightarrow> bytes \<Rightarrow> bytes" where
  "signing_bytes old_pub new_pub = ascii ''gotham-authority-transition-v1'' @ old_pub @ new_pub"

definition transition_build :: "prims \<Rightarrow> bytes \<Rightarrow> bytes \<Rightarrow> key_transition" where
  "transition_build P old new =
     (let old_pub = arr 32 (ed_public P old); new_pub = arr 32 (ed_public P new);
          msg = signing_bytes old_pub new_pub
      in \<lparr>old_pubkey_hex = hex_encode P old_pub, new_pubkey_hex = hex_encode P new_pub,
          sig_old_hex = hex_encode P (arr 64 (ed_sign P old msg)),
          sig_new_hex = hex_encode P (arr 64 (ed_sign P new msg))\<rparr>)"

definition decode_pubkey32 :: "prims \<Rightarrow> string \<Rightarrow> gerror + bytes" where
  "decode_pubkey32 P s =
     (case hex_decode P s of
        None \<Rightarrow> Inl (Directory ''authority key not 32-byte hex'')
      | Some b \<Rightarrow> if length b = 32 then Inr b else Inl (Directory ''authority key not 32-byte hex''))"

definition verify_detached :: "prims \<Rightarrow> bytes \<Rightarrow> bytes \<Rightarrow> string \<Rightarrow> gerror + unit" where
  "verify_detached P pub msg sig_hex =
     (if \<not> ed_key_ok P pub then Inl (Directory ''bad authority pubkey'')
      else case hex_decode P sig_hex of
        None \<Rightarrow> Inl (Directory ''bad transition signature hex'')
      | Some sig \<Rightarrow>
          if length sig \<noteq> 64 then Inl (Directory ''bad transition signature hex'')
          else if \<not> ed_verify P pub msg sig then Inl (Directory ''transition signature verify failed'')
          else Inr ())"

definition transition_verify :: "prims \<Rightarrow> key_transition \<Rightarrow> gerror + (bytes \<times> bytes)" where
  "transition_verify P t =
     (case decode_pubkey32 P (old_pubkey_hex t) of
        Inl e \<Rightarrow> Inl e
      | Inr old_pub \<Rightarrow> (case decode_pubkey32 P (new_pubkey_hex t) of
            Inl e \<Rightarrow> Inl e
          | Inr new_pub \<Rightarrow>
              (case verify_detached P old_pub (signing_bytes old_pub new_pub) (sig_old_hex t) of
                 Inl e \<Rightarrow> Inl e
               | Inr _ \<Rightarrow> (case verify_detached P new_pub (signing_bytes old_pub new_pub) (sig_new_hex t) of
                     Inl e \<Rightarrow> Inl e
                   | Inr _ \<Rightarrow> Inr (old_pub, new_pub)))))"

text \<open>One pass of the inner loop over the edges, with the set of trusted keys as a list.\<close>

fun grow_pass :: "(bytes \<times> bytes) list \<Rightarrow> bytes list \<Rightarrow> bool \<Rightarrow> bytes list \<times> bool" where
  "grow_pass [] trusted grew = (trusted, grew)"
| "grow_pass ((old_pub, new_pub) # es) trusted grew =
     (if old_pub \<in> set trusted \<and> new_pub \<notin> set trusted then grow_pass es (new_pub # trusted) True
      else grow_pass es trusted grew)"

lemma grow_pass_mono:
  "grow_pass es trusted grew = (t, g) \<Longrightarrow> set trusted \<subseteq> set t \<and> set t \<subseteq> set trusted \<union> snd ` set es
     \<and> (g \<longrightarrow> grew \<or> (\<exists>k \<in> snd ` set es. k \<notin> set trusted \<and> k \<in> set t))"
  by (induction es trusted grew rule: grow_pass.induct) (auto split: if_splits)

function trust_loop :: "(bytes \<times> bytes) list \<Rightarrow> bytes list \<Rightarrow> bytes list" where
  "trust_loop edges trusted =
     (let (t, grew) = grow_pass edges trusted False in if grew then trust_loop edges t else t)"
  by auto
termination
proof (relation "measure (\<lambda>(edges, trusted). card (snd ` set edges - set trusted))")
  fix edges :: "(bytes \<times> bytes) list" and trusted x t g
  assume "x = grow_pass edges trusted False" "(t, g) = x" g
  then have "set trusted \<subseteq> set t" "\<exists>k \<in> snd ` set edges. k \<notin> set trusted \<and> k \<in> set t"
    using grow_pass_mono [of edges trusted False t g] by auto
  then have "snd ` set edges - set t \<subset> snd ` set edges - set trusted" by blast
  then have "card (snd ` set edges - set t) < card (snd ` set edges - set trusted)"
    by (intro psubset_card_mono) auto
  then show "((edges, t), edges, trusted) \<in> measure (\<lambda>(edges, trusted). card (snd ` set edges - set trusted))"
    by simp
qed simp

declare trust_loop.simps [simp del]

text \<open>The check for forks: a trusted key that certifies two different successors.\<close>

fun forked :: "(bytes, bytes) hashmap \<Rightarrow> (bytes \<times> bytes) list \<Rightarrow> bool" where
  "forked successor [] = False"
| "forked successor ((old_pub, new_pub) # es) =
     (case hm_get successor old_pub of
        Some prev \<Rightarrow> if prev \<noteq> new_pub then True else forked (hm_insert old_pub new_pub successor) es
      | None \<Rightarrow> forked (hm_insert old_pub new_pub successor) es)"

fun filter_ok :: "('e + 'a) list \<Rightarrow> 'a list" where
  "filter_ok [] = []"
| "filter_ok (Inl _ # xs) = filter_ok xs"
| "filter_ok (Inr x # xs) = x # filter_ok xs"

definition verify_with_transitions :: "prims \<Rightarrow> json \<Rightarrow> signed_directory \<Rightarrow> bytes \<Rightarrow> key_transition list
    \<Rightarrow> nat option \<Rightarrow> gerror + unit" where
  "verify_with_transitions P J sd pinned transitions clock =
     (if 64 < length transitions then Inl (Directory ''too many key transitions'')
      else let edges = filter_ok (map (transition_verify P) transitions)
           in case decode_pubkey32 P (authority_pubkey_hex sd) of
                Inl e \<Rightarrow> Inl e
              | Inr actual \<Rightarrow>
                  let trusted = trust_loop edges [pinned]
                  in if forked [] (filter (\<lambda>(old_pub, _). old_pub \<in> set trusted) edges)
                     then Inl (Directory ''forked authority key transition: a trusted key certifies two successors'')
                     else if actual \<in> set (map fst edges)
                     then Inl (Directory ''authority pubkey has been rotated away from: superseded key'')
                     else if actual \<notin> set trusted
                     then Inl (Directory ''authority pubkey not trusted: no rotation chain from the pinned key'')
                     else if \<not> ed_key_ok P actual then Inl (Directory ''bad authority pubkey'')
                     else directory_verify P J sd actual clock)"

section \<open>Diversity\<close>

type_synonym id_index = "(string, descriptor) hashmap"

definition index_by_id :: "descriptor list \<Rightarrow> id_index" where
  "index_by_id rs = foldl (\<lambda>m r. hm_insert (id_pubkey_hex r) r m) [] rs"

definition eff_diversity_ip :: "prims \<Rightarrow> descriptor \<Rightarrow> id_index \<Rightarrow> ipaddr option" where
  "eff_diversity_ip P d by_id =
     (case rendezvous d of
        Some rid \<Rightarrow> (case hm_get by_id rid of None \<Rightarrow> None | Some r \<Rightarrow> ip_addr P r)
      | None \<Rightarrow> ip_addr P d)"

definition eff_operator :: "descriptor \<Rightarrow> id_index \<Rightarrow> string option" where
  "eff_operator d by_id =
     (case rendezvous d of
        Some rid \<Rightarrow> (case hm_get by_id rid of None \<Rightarrow> None | Some r \<Rightarrow> operator r)
      | None \<Rightarrow> operator d)"

definition network_diverse :: "ipaddr \<Rightarrow> ipaddr \<Rightarrow> bool" where
  "network_diverse a b =
     (case (a, b) of
        (V4 oa, V4 ob) \<Rightarrow>
          if oa ! 0 = 127 \<and> ob ! 0 = 127 then True else oa ! 0 \<noteq> ob ! 0 \<or> oa ! 1 \<noteq> ob ! 1
      | (V6 oa, V6 ob) \<Rightarrow>
          if oa = replicate 15 0 @ [1] \<and> ob = replicate 15 0 @ [1] then True else take 6 oa \<noteq> take 6 ob
      | _ \<Rightarrow> True)"

definition pair_diverse :: "prims \<Rightarrow> descriptor \<Rightarrow> descriptor \<Rightarrow> id_index \<Rightarrow> bool" where
  "pair_diverse P a b by_id =
     (case (eff_operator a by_id, eff_operator b by_id) of
        (Some op_a, Some op_b) \<Rightarrow>
          if op_a = op_b then False
          else let ea = eff_diversity_ip P a by_id; eb = eff_diversity_ip P b by_id
               in if (rendezvous a \<noteq> None \<and> ea = None) \<or> (rendezvous b \<noteq> None \<and> eb = None) then False
                  else (case (ea, eb) of (Some ip_a, Some ip_b) \<Rightarrow> network_diverse ip_a ip_b | _ \<Rightarrow> True)
      | _ \<Rightarrow> False)"

definition path_diverse :: "prims \<Rightarrow> descriptor list \<Rightarrow> descriptor \<Rightarrow> id_index \<Rightarrow> bool" where
  "path_diverse P existing cand by_id = list_all (\<lambda>h. pair_diverse P h cand by_id) existing"

section \<open>Path selection\<close>

record path_draws =
  choose_entry :: "descriptor list \<Rightarrow> descriptor option"
  shuffle_mixes :: "descriptor list \<Rightarrow> descriptor list"
  choose_exit :: "descriptor list \<Rightarrow> descriptor option"

definition choice_ok :: "('a list \<Rightarrow> 'a option) \<Rightarrow> bool" where
  "choice_ok f \<longleftrightarrow> (\<forall>xs. (f xs = None \<longleftrightarrow> xs = []) \<and> (\<forall>x. f xs = Some x \<longrightarrow> x \<in> set xs))"

definition draws_ok :: "path_draws \<Rightarrow> bool" where
  "draws_ok d \<longleftrightarrow> choice_ok (choose_entry d) \<and> choice_ok (choose_exit d)
     \<and> (\<forall>xs. set (shuffle_mixes d xs) = set xs \<and> (distinct xs \<longrightarrow> distinct (shuffle_mixes d xs)))"

definition to_ascii_lower :: "char \<Rightarrow> char" where
  "to_ascii_lower c = (let n = of_char c :: nat in if 65 \<le> n \<and> n \<le> 90 then char_of (n + 32) else c)"

definition eq_ignore_ascii_case :: "string \<Rightarrow> string \<Rightarrow> bool" where
  "eq_ignore_ascii_case a b = (map to_ascii_lower a = map to_ascii_lower b)"

definition entry_pool :: "string list \<Rightarrow> descriptor list \<Rightarrow> descriptor list" where
  "entry_pool guards entries =
     (if guards = [] then entries
      else let guarded = filter (\<lambda>r. list_ex (\<lambda>g. eq_ignore_ascii_case g (id_pubkey_hex r)) guards) entries
           in if guarded = [] then entries else guarded)"

text \<open>
  The loop over the shuffled mixes: the state is the hops so far, the identifiers in use and
  the number of mixes placed. A mix behind a rendezvous point brings its host along.
\<close>

fun place_mixes :: "prims \<Rightarrow> id_index \<Rightarrow> nat \<Rightarrow> descriptor list
    \<Rightarrow> descriptor list \<times> string list \<times> nat \<Rightarrow> descriptor list \<times> string list \<times> nat" where
  "place_mixes P by_id mix_count [] st = st"
| "place_mixes P by_id mix_count (m # ms) (hops, used, placed) =
     (if placed = mix_count then (hops, used, placed)
      else case rendezvous m of
        Some r_hex \<Rightarrow>
          (case hm_get by_id r_hex of
             None \<Rightarrow> place_mixes P by_id mix_count ms (hops, used, placed)
           | Some r \<Rightarrow>
               if rendezvous r \<noteq> None \<or> \<not> rendezvous_capable r \<or> id_pubkey_hex r \<in> set used
                  \<or> \<not> path_diverse P hops r by_id
               then place_mixes P by_id mix_count ms (hops, used, placed)
               else place_mixes P by_id mix_count ms
                      (hops @ [r, m], id_pubkey_hex m # id_pubkey_hex r # used, Suc placed))
      | None \<Rightarrow>
          if \<not> path_diverse P hops m by_id then place_mixes P by_id mix_count ms (hops, used, placed)
          else place_mixes P by_id mix_count ms (hops @ [m], id_pubkey_hex m # used, Suc placed))"

datatype try_result = Found "descriptor list" | Retry | Fail gerror

definition pick_try :: "prims \<Rightarrow> id_index \<Rightarrow> descriptor list \<Rightarrow> descriptor list \<Rightarrow> descriptor list \<Rightarrow> nat
    \<Rightarrow> path_draws \<Rightarrow> try_result" where
  "pick_try P by_id entries mixes exits mix_count d =
     (case choose_entry d entries of
        None \<Rightarrow> Fail (Directory ''entry pool empty'')
      | Some entry \<Rightarrow>
          let chosen = shuffle_mixes d (filter (\<lambda>m. id_pubkey_hex m \<noteq> id_pubkey_hex entry) mixes);
              (hops, used, placed) = place_mixes P by_id mix_count chosen ([entry], [id_pubkey_hex entry], 0)
          in if placed \<noteq> mix_count then Retry
             else case choose_exit d (filter (\<lambda>e. path_diverse P hops e by_id)
                                        (filter (\<lambda>e. id_pubkey_hex e \<notin> set used) exits)) of
               None \<Rightarrow> Retry
             | Some exit \<Rightarrow> Found (hops @ [exit]))"

fun try_loop :: "(nat \<Rightarrow> try_result) \<Rightarrow> nat \<Rightarrow> nat \<Rightarrow> string \<Rightarrow> gerror + descriptor list" where
  "try_loop attempt k 0 msg = Inl (Directory msg)"
| "try_loop attempt k (Suc n) msg =
     (case attempt k of Found hops \<Rightarrow> Inr hops | Fail e \<Rightarrow> Inl e | Retry \<Rightarrow> try_loop attempt (Suc k) n msg)"

definition MAX_TRIES :: nat where "MAX_TRIES = 32"

definition pick :: "prims \<Rightarrow> descriptor list \<Rightarrow> string list \<Rightarrow> (nat \<Rightarrow> path_draws) \<Rightarrow> nat \<Rightarrow> gerror + descriptor list" where
  "pick P rs guards draws hop_count =
     (if \<not> (3 \<le> hop_count \<and> hop_count \<le> 5) then Inl (Directory ''hop_count must be 3..=5'')
      else let mix_count = hop_count - 2;
               by_id = index_by_id rs;
               entries = entry_pool guards (filter (\<lambda>r. tier r = Entry \<and> rendezvous r = None) rs);
               mixes = filter (\<lambda>r. tier r = Mix) rs;
               exits = filter (\<lambda>r. tier r = Exit \<and> rendezvous r = None) rs
           in if entries = [] then Inl (Directory ''no entry relays available'')
              else if length mixes < mix_count then Inl (Directory ''not enough mix relays'')
              else if exits = [] then Inl (Directory ''no exit relays available'')
              else try_loop (\<lambda>k. pick_try P by_id entries mixes exits mix_count (draws k)) 0 MAX_TRIES
                     ''no diverse path found after MAX_TRIES attempts'')"

text \<open>The loop over the first mixes of the shuffle in \<open>pick_to_exit\<close>: stop at the first clash.\<close>

fun take_mixes :: "prims \<Rightarrow> id_index \<Rightarrow> descriptor list \<Rightarrow> descriptor list \<Rightarrow> bool \<times> descriptor list" where
  "take_mixes P by_id [] hops = (True, hops)"
| "take_mixes P by_id (m # ms) hops =
     (if \<not> path_diverse P hops m by_id then (False, hops) else take_mixes P by_id ms (hops @ [m]))"

definition pick_to_exit_try :: "prims \<Rightarrow> id_index \<Rightarrow> descriptor list \<Rightarrow> descriptor list \<Rightarrow> descriptor \<Rightarrow> nat
    \<Rightarrow> path_draws \<Rightarrow> try_result" where
  "pick_to_exit_try P by_id entries mixes exit mix_count d =
     (case choose_entry d entries of
        None \<Rightarrow> Fail (Directory ''entry pool empty'')
      | Some entry \<Rightarrow>
          let chosen = shuffle_mixes d (filter (\<lambda>m. id_pubkey_hex m \<notin> {id_pubkey_hex exit, id_pubkey_hex entry}) mixes);
              (ok, hops) = take_mixes P by_id (take mix_count chosen) [entry]
          in if \<not> ok \<or> length hops \<noteq> 1 + mix_count then Retry
             else if \<not> path_diverse P hops exit by_id then Retry
             else Found (hops @ [exit]))"

definition pick_to_exit :: "prims \<Rightarrow> descriptor list \<Rightarrow> string list \<Rightarrow> (nat \<Rightarrow> path_draws) \<Rightarrow> nat \<Rightarrow> descriptor
    \<Rightarrow> gerror + descriptor list" where
  "pick_to_exit P rs guards draws hop_count exit =
     (if \<not> (3 \<le> hop_count \<and> hop_count \<le> 5) then Inl (Directory ''hop_count must be 3..=5'')
      else let mix_count = hop_count - 2;
               by_id = index_by_id rs;
               entries = entry_pool guards (filter (\<lambda>r. id_pubkey_hex r \<noteq> id_pubkey_hex exit)
                           (filter (\<lambda>r. tier r = Entry \<and> rendezvous r = None) rs));
               mixes = filter (\<lambda>r. id_pubkey_hex r \<noteq> id_pubkey_hex exit)
                         (filter (\<lambda>r. tier r = Mix \<and> rendezvous r = None) rs)
           in if entries = [] then Inl (Directory ''no entry relays available'')
              else if length mixes < mix_count then Inl (Directory ''not enough mix relays'')
              else try_loop (\<lambda>k. pick_to_exit_try P by_id entries mixes exit mix_count (draws k)) 0 MAX_TRIES
                     ''no diverse path to the chosen exit after MAX_TRIES attempts'')"

section \<open>Diversity caps\<close>

definition MAX_RELAYS_PER_24 :: nat where "MAX_RELAYS_PER_24 = 3"
definition MAX_RELAYS_PER_16 :: nat where "MAX_RELAYS_PER_16 = 8"
definition MAX_RELAYS_PER_48 :: nat where "MAX_RELAYS_PER_48 = 8"
definition MAX_RELAYS_PER_OPERATOR :: nat where "MAX_RELAYS_PER_OPERATOR = 5"

definition counter_of :: "('k, nat) hashmap \<Rightarrow> 'k \<Rightarrow> nat" where
  "counter_of m k = (case hm_get m k of None \<Rightarrow> 0 | Some n \<Rightarrow> n)"

definition bump :: "'k \<Rightarrow> ('k, nat) hashmap \<Rightarrow> ('k, nat) hashmap" where
  "bump k m = hm_insert k (Suc (counter_of m k)) m"

record cap_counters =
  per24 :: "(bytes, nat) hashmap"
  per16 :: "(bytes, nat) hashmap"
  per48 :: "(bytes, nat) hashmap"
  per_op :: "(string, nat) hashmap"

definition net_ok :: "cap_counters \<Rightarrow> ipaddr option \<Rightarrow> bool" where
  "net_ok c ip =
     (case ip of
        Some (V4 oc) \<Rightarrow> counter_of (per24 c) (take 3 oc) < MAX_RELAYS_PER_24
                       \<and> counter_of (per16 c) (take 2 oc) < MAX_RELAYS_PER_16
      | Some (V6 oc) \<Rightarrow> counter_of (per48 c) (take 6 oc) < MAX_RELAYS_PER_48
      | None \<Rightarrow> True)"

definition op_ok :: "cap_counters \<Rightarrow> string option \<Rightarrow> bool" where
  "op_ok c opr = (case opr of Some p \<Rightarrow> counter_of (per_op c) p < MAX_RELAYS_PER_OPERATOR | None \<Rightarrow> True)"

definition count_relay :: "cap_counters \<Rightarrow> ipaddr option \<Rightarrow> string option \<Rightarrow> cap_counters" where
  "count_relay c ip opr =
     (let c1 = (case ip of
                  Some (V4 oc) \<Rightarrow> c\<lparr>per24 := bump (take 3 oc) (per24 c), per16 := bump (take 2 oc) (per16 c)\<rparr>
                | Some (V6 oc) \<Rightarrow> c\<lparr>per48 := bump (take 6 oc) (per48 c)\<rparr>
                | None \<Rightarrow> c)
      in case opr of Some p \<Rightarrow> c1\<lparr>per_op := bump p (per_op c1)\<rparr> | None \<Rightarrow> c1)"

fun caps_loop :: "prims \<Rightarrow> id_index \<Rightarrow> cap_counters \<Rightarrow> descriptor list \<Rightarrow> descriptor list" where
  "caps_loop P by_id c [] = []"
| "caps_loop P by_id c (d # ds) =
     (let ip = eff_diversity_ip P d by_id; opr = eff_operator d by_id
      in if rendezvous d \<noteq> None \<and> ip = None then caps_loop P by_id c ds
         else if \<not> (net_ok c ip \<and> op_ok c opr) then caps_loop P by_id c ds
         else d # caps_loop P by_id (count_relay c ip opr) ds)"

definition apply_diversity_caps :: "prims \<Rightarrow> descriptor list \<Rightarrow> descriptor list" where
  "apply_diversity_caps P ds =
     caps_loop P (index_by_id ds) \<lparr>per24 = [], per16 = [], per48 = [], per_op = []\<rparr> ds"

end
