(* ===== verification/Directory_Correct.thy ===== *)
theory Directory_Correct
  imports Directory "HOL-Library.Sublist"
begin

text \<open>
  Correctness of the directory: what an accepted directory document shows, the rotation of the
  authority key as reachability in the graph of certified transitions, the shape and the
  diversity of every selected path, and the bounds that the diversity caps guarantee.
\<close>

section \<open>Signatures and validity\<close>

text \<open>A document as \<open>serde_json\<close> writes it; used by the examples.\<close>

definition demo_json :: json where
  "demo_json d = Some (be_bytes 8 (valid_after d) @ be_bytes 8 (valid_until d) @ ascii (concat (map id_pubkey_hex (relays d))))"

lemma directory_sign_accepted:
  assumes "hex_ok P" and "ed_ok P" and "doc_new rs validity clock0 = Inr d" and "directory_sign P J d sk = Inr sd"
    and "valid_after d \<le> now" and "now \<le> valid_until d"
  shows "directory_verify P J sd (arr 32 (ed_public P sk)) (Some now) = Inr ()"
  using assms
  by (auto simp: doc_new_def directory_sign_def directory_verify_def canonical_bytes_def hex_ok_def ed_ok_def
      split: option.splits if_splits)

text \<open>
  C31: exactly which directories a client accepts: the key named in the document is the pinned
  one, the 64-byte signature over the canonical form verifies under it, the version is the
  supported one, and the clock reads a time inside the validity window. Every document an
  authority signs with that key is accepted for the whole of its window.
\<close>

theorem directory_verify_exact:
  assumes "hex_ok P" and "ed_ok P"
  shows "(directory_verify P J sd expected clock = Inr () \<longleftrightarrow>
      (\<exists>sig canonical now. hex_decode P (authority_pubkey_hex sd) = Some expected
         \<and> hex_decode P (signature_hex sd) = Some sig \<and> length sig = 64
         \<and> J (doc sd) = Some canonical \<and> ed_verify P expected canonical sig
         \<and> doc_version (doc sd) = DIRECTORY_VERSION
         \<and> clock = Some now \<and> valid_after (doc sd) \<le> now \<and> now \<le> valid_until (doc sd)))
    \<and> (doc_new rs validity clock0 = Inr d \<and> directory_sign P J d sk = Inr sd' \<and> clock = Some now
        \<and> valid_after d \<le> now \<and> now \<le> valid_until d
        \<longrightarrow> directory_verify P J sd' (arr 32 (ed_public P sk)) clock = Inr ())"
proof
  show "directory_verify P J sd expected clock = Inr () \<longleftrightarrow>
      (\<exists>sig canonical now. hex_decode P (authority_pubkey_hex sd) = Some expected
         \<and> hex_decode P (signature_hex sd) = Some sig \<and> length sig = 64
         \<and> J (doc sd) = Some canonical \<and> ed_verify P expected canonical sig
         \<and> doc_version (doc sd) = DIRECTORY_VERSION
         \<and> clock = Some now \<and> valid_after (doc sd) \<le> now \<and> now \<le> valid_until (doc sd))"
    by (auto simp: directory_verify_def canonical_bytes_def split: option.splits if_splits)
  show "doc_new rs validity clock0 = Inr d \<and> directory_sign P J d sk = Inr sd' \<and> clock = Some now
        \<and> valid_after d \<le> now \<and> now \<le> valid_until d
        \<longrightarrow> directory_verify P J sd' (arr 32 (ed_public P sk)) clock = Inr ()"
    using directory_sign_accepted [OF assms] by blast
qed

theorem directory_verify_exact_witness:
  "\<exists>d sd. doc_new [] 3600 (Some 1000) = Inr d \<and> directory_sign demo_prims demo_json d [1, 2] = Inr sd
    \<and> directory_verify demo_prims demo_json sd (arr 32 (ed_public demo_prims [1, 2])) (Some 2000) = Inr ()
    \<and> directory_verify demo_prims demo_json sd (arr 32 (ed_public demo_prims [1, 2])) (Some 4601) \<noteq> Inr ()"
proof -
  obtain d where d: "doc_new [] 3600 (Some 1000) = Inr d" and v: "valid_after d = 1000" "valid_until d = 4600"
    by (simp add: doc_new_def checked_add_def u64_max_def)
  obtain sd where sd: "directory_sign demo_prims demo_json d [1, 2] = Inr sd" and dd: "doc sd = d"
    by (simp add: directory_sign_def canonical_bytes_def demo_json_def)
  let ?k = "arr 32 (ed_public demo_prims [1, 2])"
  note e = directory_verify_exact [OF demo_hex_ok demo_ed_ok]
  have "directory_verify demo_prims demo_json sd ?k (Some 2000) = Inr ()"
    using e [THEN conjunct2, rule_format, of "[]" 3600 "Some 1000" d demo_json "[1, 2]" sd "Some 2000" 2000] d sd v by simp
  moreover have "directory_verify demo_prims demo_json sd ?k (Some 4601) \<noteq> Inr ()"
    unfolding e [THEN conjunct1] using v dd by simp
  ultimately show ?thesis using d sd by blast
qed

text \<open>A client that follows the directory remembers the newest \<open>valid_after\<close> it accepted.\<close>

fun follow :: "prims \<Rightarrow> json \<Rightarrow> bytes \<Rightarrow> nat \<Rightarrow> (signed_directory \<times> nat option) list \<Rightarrow> signed_directory list" where
  "follow P J key seen [] = []"
| "follow P J key seen ((sd, clock) # rest) =
     (case verify_monotonic P J sd key seen clock of
        Inl _ \<Rightarrow> follow P J key seen rest
      | Inr v \<Rightarrow> sd # follow P J key v rest)"

lemma verify_monotonic_Inr:
  "verify_monotonic P J sd key seen clock = Inr v \<longleftrightarrow>
     directory_verify P J sd key clock = Inr () \<and> seen \<le> valid_after (doc sd) \<and> v = valid_after (doc sd)"
  by (cases "directory_verify P J sd key clock") (auto simp: verify_monotonic_def)

lemma follow_seen: "sd \<in> set (follow P J key seen sds) \<Longrightarrow> seen \<le> valid_after (doc sd)"
proof (induction sds arbitrary: seen)
  case Nil
  then show ?case by simp
next
  case (Cons x sds)
  obtain sd0 clock where x: "x = (sd0, clock)" by force
  show ?case
  proof (cases "verify_monotonic P J sd0 key seen clock")
    case (Inl e)
    with Cons x show ?thesis by simp
  next
    case (Inr v)
    with Cons x have "sd = sd0 \<or> v \<le> valid_after (doc sd)" by auto
    with Inr show ?thesis by (auto simp: verify_monotonic_Inr)
  qed
qed

text \<open>
  C32: no rollback. Whatever sequence of directories a client is given, the ones it accepts
  with \<open>verify_monotonic\<close> are all properly signed and valid when accepted, and their validity
  times never decrease.
\<close>

theorem follow_no_rollback:
  "sorted (map (\<lambda>sd. valid_after (doc sd)) (follow P J key seen sds))
   \<and> (\<forall>sd. sd \<in> set (follow P J key seen sds) \<longrightarrow> seen \<le> valid_after (doc sd)
        \<and> (\<exists>clock. (sd, clock) \<in> set sds \<and> directory_verify P J sd key clock = Inr ()))"
proof (induction sds arbitrary: seen)
  case Nil
  then show ?case by simp
next
  case (Cons x sds)
  obtain sd0 clock where x: "x = (sd0, clock)" by force
  show ?case
  proof (cases "verify_monotonic P J sd0 key seen clock")
    case (Inl e)
    with Cons [of seen] x show ?thesis by auto
  next
    case (Inr v)
    then have v: "directory_verify P J sd0 key clock = Inr ()" "seen \<le> v" "v = valid_after (doc sd0)"
      by (auto simp: verify_monotonic_Inr)
    with Cons [of v] Inr x show ?thesis by fastforce
  qed
qed

section \<open>Rotation of the authority key\<close>

lemma grow_pass_closed:
  "grow_pass es trusted grew = (t, False) \<Longrightarrow>
     t = trusted \<and> (\<forall>(a, b) \<in> set es. a \<in> set trusted \<longrightarrow> b \<in> set trusted)"
proof (induction es trusted grew rule: grow_pass.induct)
  case (1 trusted grew)
  then show ?case by simp
next
  case (2 a b es trusted grew)
  have "grow_pass es' tr True = (t, False) \<Longrightarrow> False" for es' tr
    by (induction es' tr True rule: grow_pass.induct) (auto split: if_splits)
  with 2 show ?case by (auto split: if_splits)
qed

lemma grow_pass_reach:
  "grow_pass es trusted grew = (t, g) \<Longrightarrow> set es \<subseteq> E \<Longrightarrow> \<forall>k \<in> set trusted. (p, k) \<in> E\<^sup>* \<Longrightarrow>
     \<forall>k \<in> set t. (p, k) \<in> E\<^sup>*"
proof (induction es trusted grew rule: grow_pass.induct)
  case (1 trusted grew)
  then show ?case by simp
next
  case (2 a b es trusted grew)
  then show ?case by (auto split: if_splits intro: rtrancl_into_rtrancl)
qed

lemma trust_loop_sound:
  "\<forall>k \<in> set trusted. (p, k) \<in> (set edges)\<^sup>* \<Longrightarrow> \<forall>k \<in> set (trust_loop edges trusted). (p, k) \<in> (set edges)\<^sup>*"
proof (induction edges trusted rule: trust_loop.induct)
  case (1 edges trusted)
  obtain t g where tg: "grow_pass edges trusted False = (t, g)" by force
  have "\<forall>k \<in> set t. (p, k) \<in> (set edges)\<^sup>*" by (rule grow_pass_reach [OF tg]) (use 1(2) in auto)
  then show ?case using 1(1) tg by (subst trust_loop.simps) auto
qed

lemma trust_loop_closed:
  "set trusted \<subseteq> set (trust_loop edges trusted)
   \<and> (\<forall>(a, b) \<in> set edges. a \<in> set (trust_loop edges trusted) \<longrightarrow> b \<in> set (trust_loop edges trusted))"
proof (induction edges trusted rule: trust_loop.induct)
  case (1 edges trusted)
  obtain t g where tg: "grow_pass edges trusted False = (t, g)" by force
  show ?case
  proof (cases g)
    case True
    then have eq: "trust_loop edges trusted = trust_loop edges t" using tg by (subst trust_loop.simps) simp
    have "set trusted \<subseteq> set t" using grow_pass_mono [OF tg] by simp
    with 1 [OF tg [symmetric] refl True] show ?thesis unfolding eq by blast
  next
    case False
    then have "trust_loop edges trusted = t" using tg by (subst trust_loop.simps) simp
    with grow_pass_closed [of edges trusted False t] tg False show ?thesis by auto
  qed
qed

text \<open>The loop computes exactly the keys reachable from the pinned one.\<close>

lemma trust_loop_reach: "set (trust_loop edges [p]) = {k. (p, k) \<in> (set edges)\<^sup>*}"
proof
  show "set (trust_loop edges [p]) \<subseteq> {k. (p, k) \<in> (set edges)\<^sup>*}" using trust_loop_sound [of "[p]" p edges] by auto
  have "k \<in> set (trust_loop edges [p])" if "(p, k) \<in> (set edges)\<^sup>*" for k
    using that
  proof (induction rule: rtrancl_induct)
    case base
    then show ?case using trust_loop_closed [of "[p]" edges] by simp
  next
    case (step y z)
    then show ?case using trust_loop_closed [of "[p]" edges] by auto
  qed
  then show "{k. (p, k) \<in> (set edges)\<^sup>*} \<subseteq> set (trust_loop edges [p])" by blast
qed

text \<open>The entries of a successor map as a relation.\<close>

definition succ_rel :: "(bytes, bytes) hashmap \<Rightarrow> (bytes \<times> bytes) set" where
  "succ_rel succ = {(a, c). hm_get succ a = Some c}"

lemma succ_rel_insert:
  "hm_get succ a = None \<or> hm_get succ a = Some b \<Longrightarrow> succ_rel (hm_insert a b succ) = insert (a, b) (succ_rel succ)"
  by (auto simp: succ_rel_def hm_simps split: if_splits)

lemma fork_step:
  assumes "\<forall>c. (a, c) \<in> A \<longrightarrow> c = b"
  shows "(\<forall>(x, y) \<in> E. \<forall>c. (x, c) \<in> insert (a, b) A \<union> E \<longrightarrow> c = y)
     \<longleftrightarrow> (\<forall>(x, y) \<in> insert (a, b) E. \<forall>c. (x, c) \<in> A \<union> insert (a, b) E \<longrightarrow> c = y)" (is "?L \<longleftrightarrow> ?R")
proof
  assume L: ?L
  have "c = y" if "(x, y) \<in> insert (a, b) E" "(x, c) \<in> A \<union> insert (a, b) E" for x y c
  proof (cases "(x, y) \<in> E")
    case True
    with L that(2) show ?thesis by auto
  next
    case False
    with that have xy: "x = a" "y = b" by auto
    from that(2) consider "(a, c) \<in> A" | "c = b" | "(a, c) \<in> E" using xy by auto
    then show ?thesis
    proof cases
      case 1
      with assms xy show ?thesis by blast
    next
      case 2
      with xy show ?thesis by simp
    next
      case 3
      with L have "b = c" by blast
      with xy show ?thesis by simp
    qed
  qed
  then show ?R by blast
next
  assume ?R
  then show ?L by blast
qed
lemma forked_iff:
  "\<not> forked succ es \<longleftrightarrow> (\<forall>(a, b) \<in> set es. \<forall>c. (a, c) \<in> succ_rel succ \<union> set es \<longrightarrow> c = b)"
proof (induction succ es rule: forked.induct)
  case (1 succ)
  then show ?case by simp
next
  case (2 succ a b es)
  show ?case
  proof (cases "hm_get succ a = None \<or> hm_get succ a = Some b")
    case True
    then have f: "forked succ ((a, b) # es) = forked (hm_insert a b succ) es" by auto
    have IH: "\<not> forked (hm_insert a b succ) es \<longleftrightarrow>
        (\<forall>(x, y) \<in> set es. \<forall>c. (x, c) \<in> succ_rel (hm_insert a b succ) \<union> set es \<longrightarrow> c = y)"
      using True by (elim disjE) (rule 2(1), assumption, rule 2(2), simp_all)
    note IH = IH [unfolded succ_rel_insert [OF True]]
    have "\<forall>c. (a, c) \<in> succ_rel succ \<longrightarrow> c = b" using True by (auto simp: succ_rel_def)
    then show ?thesis unfolding f IH list.set by (rule fork_step)
  next
    case False
    then obtain c where "hm_get succ a = Some c" "c \<noteq> b" by auto
    then show ?thesis by (auto simp: succ_rel_def)
  qed
qed

lemma filter_ok_set: "set (filter_ok xs) = {x. Inr x \<in> set xs}"
  by (induction xs rule: filter_ok.induct) auto

text \<open>The graph of transitions that verify.\<close>

definition certified :: "prims \<Rightarrow> key_transition list \<Rightarrow> (bytes \<times> bytes) set" where
  "certified P ts = {e. \<exists>t \<in> set ts. transition_verify P t = Inr e}"

lemma certified_edges: "set (filter_ok (map (transition_verify P) ts)) = certified P ts"
  by (auto simp: filter_ok_set certified_def intro: rev_image_eqI)

lemma no_fork_iff:
  "\<not> forked [] (filter (\<lambda>(a, _). a \<in> T) es) \<longleftrightarrow> (\<forall>a \<in> T. \<forall>b c. (a, b) \<in> set es \<longrightarrow> (a, c) \<in> set es \<longrightarrow> b = c)"
  unfolding forked_iff by (auto simp: hm_simps succ_rel_def)

text \<open>On a relation that is a function on the reachable nodes, there is only one final node.\<close>

lemma unique_end:
  assumes "(p, a) \<in> E\<^sup>*" "(p, b) \<in> E\<^sup>*" "a \<notin> Domain E" "b \<notin> Domain E"
    "\<And>x y z. (p, x) \<in> E\<^sup>* \<Longrightarrow> (x, y) \<in> E \<Longrightarrow> (x, z) \<in> E \<Longrightarrow> y = z"
  shows "a = b"
proof -
  have "(x, b) \<in> E\<^sup>*" if "(p, x) \<in> E\<^sup>*" for x
    using that
  proof (induction rule: rtrancl_induct)
    case base
    then show ?case using assms(2) .
  next
    case (step y z)
    from step(3) step(2) obtain w where "(y, w) \<in> E" "(w, b) \<in> E\<^sup>*"
      using assms(4) by (metis Domain.DomainI converse_rtranclE)
    then show ?case using assms(5) step(1,2) by metis
  qed
  with assms(1) have "(a, b) \<in> E\<^sup>*" by blast
  with assms(3) show ?thesis by (metis Domain.DomainI converse_rtranclE)
qed

text \<open>
  C12: key rotation. A directory is accepted under a pinned key and a list of at most 64
  transitions exactly if its signer is reachable from the pinned key by transitions that both
  keys signed, no reachable key certifies two successors, the signer itself has no certified
  successor, and the directory verifies under it. Hence all directories accepted under the same
  pinned key and transitions come from one and the same key.
\<close>

theorem rotation_exact:
  "(verify_with_transitions P J sd pinned ts clock = Inr () \<longleftrightarrow>
      length ts \<le> 64
      \<and> (\<exists>actual. hex_decode P (authority_pubkey_hex sd) = Some actual \<and> length actual = 32
           \<and> (pinned, actual) \<in> (certified P ts)\<^sup>* \<and> actual \<notin> Domain (certified P ts)
           \<and> (\<forall>x y z. (pinned, x) \<in> (certified P ts)\<^sup>* \<longrightarrow> (x, y) \<in> certified P ts \<longrightarrow> (x, z) \<in> certified P ts \<longrightarrow> y = z)
           \<and> ed_key_ok P actual \<and> directory_verify P J sd actual clock = Inr ()))
   \<and> (verify_with_transitions P J sd pinned ts clock = Inr ()
        \<and> verify_with_transitions P J sd' pinned ts clock' = Inr ()
        \<longrightarrow> hex_decode P (authority_pubkey_hex sd) = hex_decode P (authority_pubkey_hex sd'))"
proof -
  let ?E = "certified P ts"
  have ex: "verify_with_transitions P J sd pinned ts clock = Inr () \<longleftrightarrow>
      length ts \<le> 64
      \<and> (\<exists>actual. hex_decode P (authority_pubkey_hex sd) = Some actual \<and> length actual = 32
           \<and> (pinned, actual) \<in> ?E\<^sup>* \<and> actual \<notin> Domain ?E
           \<and> (\<forall>x y z. (pinned, x) \<in> ?E\<^sup>* \<longrightarrow> (x, y) \<in> ?E \<longrightarrow> (x, z) \<in> ?E \<longrightarrow> y = z)
           \<and> ed_key_ok P actual \<and> directory_verify P J sd actual clock = Inr ())" for sd clock
  proof -
    have dom: "actual \<in> set (map fst (filter_ok (map (transition_verify P) ts))) \<longleftrightarrow> actual \<in> Domain ?E" for actual
      by (auto simp: certified_edges fst_eq_Domain [symmetric])
    show ?thesis
      unfolding verify_with_transitions_def Let_def
      using no_fork_iff [of "set (trust_loop (filter_ok (map (transition_verify P) ts)) [pinned])"
          "filter_ok (map (transition_verify P) ts)"] dom
      by (auto simp: trust_loop_reach certified_edges decode_pubkey32_def simp del: set_map split: option.splits)
  qed
  have "hex_decode P (authority_pubkey_hex sd) = hex_decode P (authority_pubkey_hex sd')"
    if "verify_with_transitions P J sd pinned ts clock = Inr ()" "verify_with_transitions P J sd' pinned ts clock' = Inr ()"
  proof -
    from that ex obtain a b where ab: "hex_decode P (authority_pubkey_hex sd) = Some a" "(pinned, a) \<in> ?E\<^sup>*"
        "a \<notin> Domain ?E" "hex_decode P (authority_pubkey_hex sd') = Some b" "(pinned, b) \<in> ?E\<^sup>*" "b \<notin> Domain ?E"
      and f: "\<forall>x y z. (pinned, x) \<in> ?E\<^sup>* \<longrightarrow> (x, y) \<in> ?E \<longrightarrow> (x, z) \<in> ?E \<longrightarrow> y = z"
      by metis
    have "a = b" by (rule unique_end [OF ab(2,5,3,6)]) (use f in blast)
    with ab show ?thesis by simp
  qed
  with ex show ?thesis by blast
qed

lemma transition_verify_build:
  assumes "hex_ok P" "ed_ok P"
  shows "transition_verify P (transition_build P old new) = Inr (arr 32 (ed_public P old), arr 32 (ed_public P new))"
  using assms
  by (simp add: transition_verify_def transition_build_def decode_pubkey32_def verify_detached_def hex_ok_def
      ed_ok_def Let_def)

definition demo_doc :: directory_doc where
  "demo_doc = \<lparr>doc_version = DIRECTORY_VERSION, valid_after = 1000, valid_until = 4600, relays = []\<rparr>"

definition demo_signed :: "bytes \<Rightarrow> signed_directory" where
  "demo_signed sk = \<lparr>doc = demo_doc, authority_pubkey_hex = hex_encode demo_prims (arr 32 (ed_public demo_prims sk)),
     signature_hex = hex_encode demo_prims (arr 64 (ed_sign demo_prims sk (the (demo_json demo_doc))))\<rparr>"

lemma demo_signed_ok:
  "1000 \<le> now \<Longrightarrow> now \<le> 4600 \<Longrightarrow>
   directory_verify demo_prims demo_json (demo_signed sk) (arr 32 (ed_public demo_prims sk)) (Some now) = Inr ()"
  using demo_hex_ok demo_ed_ok
  by (simp add: directory_verify_def demo_signed_def canonical_bytes_def demo_doc_def hex_ok_def ed_ok_def demo_json_def)

theorem rotation_exact_witness:
  "verify_with_transitions demo_prims demo_json (demo_signed [2]) (arr 32 (ed_public demo_prims [1]))
     [transition_build demo_prims [1] [2]] (Some 2000) = Inr ()"
proof -
  let ?k = "\<lambda>sk. arr 32 (ed_public demo_prims sk)"
  let ?E = "certified demo_prims [transition_build demo_prims [1] [2]]"
  have E: "?E = {(?k [1], ?k [2])}"
    using transition_verify_build [OF demo_hex_ok demo_ed_ok] by (auto simp: certified_def)
  have "?k [1] ! 0 \<noteq> ?k [2] ! 0" by (simp add: arr_def demo_prims_def)
  then have ne: "?k [1] \<noteq> ?k [2]" by metis
  have a: "hex_decode demo_prims (authority_pubkey_hex (demo_signed [2])) = Some (?k [2])"
    using demo_hex_ok by (simp add: demo_signed_def hex_ok_def)
  have "\<exists>actual. hex_decode demo_prims (authority_pubkey_hex (demo_signed [2])) = Some actual \<and> length actual = 32
           \<and> (?k [1], actual) \<in> ?E\<^sup>* \<and> actual \<notin> Domain ?E
           \<and> (\<forall>x y z. (?k [1], x) \<in> ?E\<^sup>* \<longrightarrow> (x, y) \<in> ?E \<longrightarrow> (x, z) \<in> ?E \<longrightarrow> y = z)
           \<and> ed_key_ok demo_prims actual
           \<and> directory_verify demo_prims demo_json (demo_signed [2]) actual (Some 2000) = Inr ()"
    using a ne demo_signed_ok [of 2000 "[2]"] demo_ed_ok
    by (intro exI [of _ "?k [2]"]) (auto simp: E ed_ok_def)
  then show ?thesis
    using rotation_exact [of demo_prims demo_json "demo_signed [2]" "?k [1]" "[transition_build demo_prims [1] [2]]"]
    by simp
qed

theorem follow_no_rollback_witness:
  "follow demo_prims demo_json (arr 32 (ed_public demo_prims [1])) 500 [(demo_signed [1], Some 2000), (demo_signed [2], Some 2001)]
     = [demo_signed [1]]
   \<and> sorted (map (\<lambda>sd. valid_after (doc sd)) (follow demo_prims demo_json (arr 32 (ed_public demo_prims [1])) 500
       [(demo_signed [1], Some 2000), (demo_signed [2], Some 2001)]))"
proof
  let ?k = "\<lambda>sk. arr 32 (ed_public demo_prims sk)"
  have "?k [1] ! 0 \<noteq> ?k [2] ! 0" by (simp add: arr_def demo_prims_def)
  then have ne: "?k [2] \<noteq> ?k [1]" by metis
  have v1: "verify_monotonic demo_prims demo_json (demo_signed [1]) (?k [1]) 500 (Some 2000) = Inr 1000"
    using demo_signed_ok [of 2000 "[1]"] by (simp add: verify_monotonic_Inr demo_signed_def demo_doc_def)
  have "directory_verify demo_prims demo_json (demo_signed [2]) (?k [1]) (Some 2001) \<noteq> Inr ()"
    using demo_hex_ok ne by (simp add: directory_verify_def demo_signed_def hex_ok_def)
  then obtain e where v2: "verify_monotonic demo_prims demo_json (demo_signed [2]) (?k [1]) 1000 (Some 2001) = Inl e"
    by (cases "verify_monotonic demo_prims demo_json (demo_signed [2]) (?k [1]) 1000 (Some 2001)")
      (auto simp: verify_monotonic_Inr)
  show "follow demo_prims demo_json (?k [1]) 500 [(demo_signed [1], Some 2000), (demo_signed [2], Some 2001)]
      = [demo_signed [1]]" using v1 v2 by simp
  show "sorted (map (\<lambda>sd. valid_after (doc sd)) (follow demo_prims demo_json (?k [1]) 500
       [(demo_signed [1], Some 2000), (demo_signed [2], Some 2001)]))"
    using follow_no_rollback by blast
qed

section \<open>Diversity of paths\<close>

lemma pair_diverse_iff:
  "pair_diverse P a b by_id \<longleftrightarrow>
     (\<exists>p q. eff_operator a by_id = Some p \<and> eff_operator b by_id = Some q \<and> p \<noteq> q)
     \<and> (rendezvous a \<noteq> None \<longrightarrow> eff_diversity_ip P a by_id \<noteq> None)
     \<and> (rendezvous b \<noteq> None \<longrightarrow> eff_diversity_ip P b by_id \<noteq> None)
     \<and> (\<forall>i j. eff_diversity_ip P a by_id = Some i \<longrightarrow> eff_diversity_ip P b by_id = Some j \<longrightarrow> network_diverse i j)"
  by (auto simp: pair_diverse_def Let_def split: option.splits)

lemma network_diverse_sym: "network_diverse a b = network_diverse b a"
  by (cases a; cases b) (auto simp: network_diverse_def)

lemma pair_diverse_sym: "pair_diverse P a b by_id = pair_diverse P b a by_id"
  unfolding pair_diverse_iff by (auto simp: network_diverse_sym)

text \<open>
  What a path promises. Two hops count as the same place when one is the rendezvous host of the
  other: a mix behind a rendezvous point is reached through it and shares its address.
\<close>

definition hosts :: "id_index \<Rightarrow> descriptor \<Rightarrow> descriptor \<Rightarrow> bool" where
  "hosts by_id r m \<longleftrightarrow> (\<exists>rid. rendezvous m = Some rid \<and> hm_get by_id rid = Some r) \<and> rendezvous r = None
     \<and> rendezvous_capable r"

definition apart :: "prims \<Rightarrow> id_index \<Rightarrow> descriptor \<Rightarrow> descriptor \<Rightarrow> bool" where
  "apart P by_id a b \<longleftrightarrow>
     (\<exists>p q. eff_operator a by_id = Some p \<and> eff_operator b by_id = Some q \<and> p \<noteq> q)
     \<and> (\<forall>i j. eff_diversity_ip P a by_id = Some i \<longrightarrow> eff_diversity_ip P b by_id = Some j \<longrightarrow> network_diverse i j)"

definition diverse_path :: "prims \<Rightarrow> id_index \<Rightarrow> descriptor list \<Rightarrow> bool" where
  "diverse_path P by_id hops \<longleftrightarrow> (\<forall>i j. i < j \<longrightarrow> j < length hops \<longrightarrow>
     apart P by_id (hops ! i) (hops ! j) \<or> (j = Suc i \<and> hosts by_id (hops ! i) (hops ! j)))"

definition host_before :: "id_index \<Rightarrow> descriptor list \<Rightarrow> bool" where
  "host_before by_id hops \<longleftrightarrow> (\<forall>i < length hops. rendezvous (hops ! i) \<noteq> None \<longrightarrow>
     0 < i \<and> hosts by_id (hops ! (i - 1)) (hops ! i))"

definition hosted_count :: "descriptor list \<Rightarrow> nat" where
  "hosted_count hops = length (filter (\<lambda>h. rendezvous h \<noteq> None) hops)"

lemma pair_diverse_apart: "pair_diverse P a b by_id \<Longrightarrow> apart P by_id a b"
  by (auto simp: pair_diverse_iff apart_def)

lemma apart_irrefl: "\<not> apart P by_id a a"
  by (auto simp: apart_def)

text \<open>A hosted mix has the effective operator and address of its host.\<close>

lemma hosts_eff:
  assumes "hosts by_id r m"
  shows "eff_operator m by_id = eff_operator r by_id" "eff_diversity_ip P m by_id = eff_diversity_ip P r by_id"
  using assms by (auto simp: hosts_def eff_operator_def eff_diversity_ip_def)

lemma diverse_snoc:
  assumes "diverse_path P by_id hops" "\<forall>h \<in> set hops. apart P by_id h x"
  shows "diverse_path P by_id (hops @ [x])"
  unfolding diverse_path_def
proof (intro allI impI)
  fix i j assume ij: "i < j" "j < length (hops @ [x])"
  show "apart P by_id ((hops @ [x]) ! i) ((hops @ [x]) ! j)
      \<or> (j = Suc i \<and> hosts by_id ((hops @ [x]) ! i) ((hops @ [x]) ! j))"
  proof (cases "j < length hops")
    case True
    with ij assms(1) show ?thesis by (simp add: diverse_path_def nth_append)
  next
    case False
    with ij have "j = length hops" "i < length hops" by simp_all
    with assms(2) show ?thesis by (simp add: nth_append)
  qed
qed

lemma diverse_snoc_hosted:
  assumes "diverse_path P by_id hops" "\<forall>h \<in> set hops. apart P by_id h r" "hosts by_id r m"
  shows "diverse_path P by_id (hops @ [r, m])"
  unfolding diverse_path_def
proof (intro allI impI)
  let ?l = "hops @ [r]"
  fix i j assume ij: "i < j" "j < length (hops @ [r, m])"
  have d: "diverse_path P by_id ?l" using assms(1,2) by (rule diverse_snoc)
  have am: "\<forall>h \<in> set hops. apart P by_id h m"
    using assms(2) hosts_eff [OF assms(3)] by (simp add: apart_def)
  show "apart P by_id ((hops @ [r, m]) ! i) ((hops @ [r, m]) ! j)
      \<or> (j = Suc i \<and> hosts by_id ((hops @ [r, m]) ! i) ((hops @ [r, m]) ! j))"
  proof (cases "j < Suc (length hops)")
    case True
    then have "(hops @ [r, m]) ! j = ?l ! j" "(hops @ [r, m]) ! i = ?l ! i" using ij by (auto simp: nth_append)
    with True ij d show ?thesis by (simp add: diverse_path_def)
  next
    case False
    then have j: "j = Suc (length hops)" using ij by simp
    show ?thesis
    proof (cases "i < length hops")
      case True
      with am j show ?thesis by (simp add: nth_append)
    next
      case False
      with ij j have "i = length hops" by simp
      with assms(3) j show ?thesis by (simp add: nth_append)
    qed
  qed
qed

text \<open>The state of the loop over the mixes.\<close>

definition path_inv :: "prims \<Rightarrow> id_index \<Rightarrow> descriptor list \<Rightarrow> descriptor \<Rightarrow> descriptor list \<times> string list \<times> nat \<Rightarrow> bool" where
  "path_inv P by_id rs entry st \<longleftrightarrow> (case st of (hops, used, placed) \<Rightarrow>
     (\<exists>tl. hops = entry # tl) \<and> set hops \<subseteq> set rs \<and> distinct (map id_pubkey_hex hops)
     \<and> set used = id_pubkey_hex ` set hops \<and> diverse_path P by_id hops \<and> host_before by_id hops
     \<and> length hops = 1 + placed + hosted_count hops)"

lemma index_foldl:
  "hm_get (foldl (\<lambda>m r. hm_insert (id_pubkey_hex r) r m) m0 rs) k = Some r \<Longrightarrow>
     (r \<in> set rs \<and> id_pubkey_hex r = k) \<or> hm_get m0 k = Some r"
proof (induction rs arbitrary: m0)
  case Nil
  then show ?case by simp
next
  case (Cons x rs)
  from Cons.IH [of "hm_insert (id_pubkey_hex x) x m0"] Cons.prems show ?case
    by (auto simp: hm_simps split: if_splits)
qed

lemma index_by_id_get: "hm_get (index_by_id rs) k = Some r \<Longrightarrow> r \<in> set rs \<and> id_pubkey_hex r = k"
  using index_foldl [of "[]" rs k r] by (simp add: index_by_id_def hm_simps)

lemma same_id: "distinct (map id_pubkey_hex rs) \<Longrightarrow> a \<in> set rs \<Longrightarrow> b \<in> set rs \<Longrightarrow>
   id_pubkey_hex a = id_pubkey_hex b \<Longrightarrow> a = b"
  by (simp add: distinct_map inj_on_def)

lemma path_inv_direct:
  assumes "path_inv P by_id rs entry (hops, used, placed)" "distinct (map id_pubkey_hex rs)" "m \<in> set rs"
    "rendezvous m = None" "path_diverse P hops m by_id"
  shows "path_inv P by_id rs entry (hops @ [m], id_pubkey_hex m # used, Suc placed)"
proof -
  have ap: "\<forall>h \<in> set hops. apart P by_id h m"
    using assms(5) by (auto simp: path_diverse_def list_all_iff pair_diverse_apart)
  have "id_pubkey_hex m \<notin> id_pubkey_hex ` set hops"
  proof
    assume "id_pubkey_hex m \<in> id_pubkey_hex ` set hops"
    then obtain h where h: "h \<in> set hops" "id_pubkey_hex h = id_pubkey_hex m" by auto
    with assms(1-3) have "h = m" by (auto simp: path_inv_def intro: same_id)
    with ap h(1) show False by (auto simp: apart_irrefl)
  qed
  moreover have "host_before by_id (hops @ [m])"
    using assms(1,4) by (auto simp: path_inv_def host_before_def nth_append)
  moreover have "hosted_count (hops @ [m]) = hosted_count hops" using assms(4) by (simp add: hosted_count_def)
  ultimately show ?thesis
    using assms(1,3) diverse_snoc [OF _ ap] by (auto simp: path_inv_def)
qed

lemma path_inv_hosted:
  assumes "path_inv P (index_by_id rs) rs entry (hops, used, placed)" "distinct (map id_pubkey_hex rs)" "m \<in> set rs"
    "rendezvous m = Some rid" "hm_get (index_by_id rs) rid = Some r" "rendezvous r = None" "rendezvous_capable r"
    "id_pubkey_hex r \<notin> set used" "path_diverse P hops r (index_by_id rs)"
  shows "path_inv P (index_by_id rs) rs entry (hops @ [r, m], id_pubkey_hex m # id_pubkey_hex r # used, Suc placed)"
proof -
  let ?ix = "index_by_id rs"
  have ap: "\<forall>h \<in> set hops. apart P ?ix h r"
    using assms(9) by (auto simp: path_diverse_def list_all_iff pair_diverse_apart)
  have ho: "hosts ?ix r m" using assms(4-7) by (auto simp: hosts_def)
  have r: "r \<in> set rs" using index_by_id_get [OF assms(5)] by simp
  have rn: "id_pubkey_hex r \<notin> id_pubkey_hex ` set hops" using assms(1,8) by (simp add: path_inv_def)
  have mr: "id_pubkey_hex m \<noteq> id_pubkey_hex r" using same_id [OF assms(2,3) r] assms(4,6) by auto
  have mn: "id_pubkey_hex m \<notin> id_pubkey_hex ` set hops"
  proof
    assume "id_pubkey_hex m \<in> id_pubkey_hex ` set hops"
    then obtain h where h: "h \<in> set hops" "id_pubkey_hex h = id_pubkey_hex m" by auto
    with assms(1-3) have "h = m" by (auto simp: path_inv_def intro: same_id)
    with h obtain i where i: "i < length hops" "hops ! i = m" by (auto simp: in_set_conv_nth)
    with assms(1,4) have "0 < i \<and> hosts ?ix (hops ! (i - 1)) m" by (auto simp: path_inv_def host_before_def)
    then have "hops ! (i - 1) = r" using assms(4,5) by (auto simp: hosts_def)
    moreover have "hops ! (i - 1) \<in> set hops" using i by simp
    ultimately show False using rn by blast
  qed
  have "host_before ?ix (hops @ [r, m])"
    unfolding host_before_def
  proof (intro allI impI)
    fix i assume i: "i < length (hops @ [r, m])" "rendezvous ((hops @ [r, m]) ! i) \<noteq> None"
    consider "i < length hops" | "i = length hops" | "i = Suc (length hops)" using i(1) by fastforce
    then show "0 < i \<and> hosts ?ix ((hops @ [r, m]) ! (i - 1)) ((hops @ [r, m]) ! i)"
    proof cases
      case 1
      with i assms(1) show ?thesis by (auto simp: path_inv_def host_before_def nth_append)
    next
      case 2
      with i assms(6) show ?thesis by (simp add: nth_append)
    next
      case 3
      with ho show ?thesis by (simp add: nth_append)
    qed
  qed
  moreover have "hosted_count (hops @ [r, m]) = Suc (hosted_count hops)"
    using assms(4,6) by (simp add: hosted_count_def)
  ultimately show ?thesis
    using assms(1,3) r rn mr mn diverse_snoc_hosted [OF _ ap ho] by (auto simp: path_inv_def)
qed

lemma place_mixes_inv:
  assumes "distinct (map id_pubkey_hex rs)" "set ms \<subseteq> set rs" "path_inv P (index_by_id rs) rs entry st"
  shows "path_inv P (index_by_id rs) rs entry (place_mixes P (index_by_id rs) mix_count ms st)"
  using assms(2,3)
proof (induction P "index_by_id rs" mix_count ms st rule: place_mixes.induct)
  case (1 P mix_count st)
  then show ?case by simp
next
  case (2 P mix_count m ms hops used placed)
  have m: "m \<in> set rs" "set ms \<subseteq> set rs" using 2(6) by auto
  have inv: "path_inv P (index_by_id rs) rs entry (hops, used, placed)" using 2(7) .
  show ?case
  proof (cases "placed = mix_count")
    case True
    then show ?thesis using inv by simp
  next
    case np: False
    show ?thesis
    proof (cases "rendezvous m")
      case None
      note d = path_inv_direct [OF inv assms(1) m(1) None]
      show ?thesis using 2(1,2) [OF np None] np None inv d m(2) by simp
    next
      case (Some rid)
      show ?thesis
      proof (cases "hm_get (index_by_id rs) rid")
        case None
        then show ?thesis using 2(3) [OF np Some None m(2) inv] np Some by simp
      next
        case (Some r)
        note h = path_inv_hosted [OF inv assms(1) m(1) \<open>rendezvous m = Some rid\<close> Some]
        show ?thesis using 2(4,5) [OF np \<open>rendezvous m = Some rid\<close> Some] np \<open>rendezvous m = Some rid\<close> Some m(2) inv h
          by simp
      qed
    qed
  qed
qed

lemma path_inv_entry:
  "entry \<in> set rs \<Longrightarrow> rendezvous entry = None \<Longrightarrow> path_inv P by_id rs entry ([entry], [id_pubkey_hex entry], 0)"
  by (simp add: path_inv_def diverse_path_def host_before_def hosted_count_def)

lemma entry_pool_subset: "set (entry_pool guards es) \<subseteq> set es"
  by (auto simp: entry_pool_def Let_def)

lemma try_loop_Inr: "try_loop attempt k n msg = Inr hops \<Longrightarrow> \<exists>j. attempt j = Found hops"
  by (induction attempt k n msg rule: try_loop.induct) (auto split: try_result.splits)

lemma pick_try_Found:
  assumes "distinct (map id_pubkey_hex rs)" "draws_ok d" "set entries \<subseteq> {r \<in> set rs. tier r = Entry \<and> rendezvous r = None}"
    "set mixes \<subseteq> set rs" "set exits \<subseteq> {r \<in> set rs. tier r = Exit \<and> rendezvous r = None}"
    "pick_try P (index_by_id rs) entries mixes exits mix_count d = Found path"
  shows "\<exists>hops used exit. path = hops @ [exit] \<and> path_inv P (index_by_id rs) rs (hd path) (hops, used, mix_count)
    \<and> hd path \<in> set entries \<and> exit \<in> set exits \<and> id_pubkey_hex exit \<notin> set used
    \<and> path_diverse P hops exit (index_by_id rs)"
proof -
  let ?ix = "index_by_id rs"
  from assms(6) obtain entry where e: "choose_entry d entries = Some entry"
    by (auto simp: pick_try_def split: option.splits)
  then have entry: "entry \<in> set entries" using assms(2) by (auto simp: draws_ok_def choice_ok_def)
  define chosen where "chosen = shuffle_mixes d (filter (\<lambda>m. id_pubkey_hex m \<noteq> id_pubkey_hex entry) mixes)"
  obtain hops used placed where st: "place_mixes P ?ix mix_count chosen ([entry], [id_pubkey_hex entry], 0) = (hops, used, placed)"
    using prod_cases3 by blast
  have "set chosen \<subseteq> set rs" using assms(2,4) by (auto simp: chosen_def draws_ok_def)
  then have inv: "path_inv P ?ix rs entry (hops, used, placed)"
    using place_mixes_inv [OF assms(1), of chosen P entry "([entry], [id_pubkey_hex entry], 0)" mix_count]
      path_inv_entry [of entry rs P ?ix] entry assms(3) st by auto
  from assms(6) e st obtain exit where x: "placed = mix_count" "path = hops @ [exit]"
      "choose_exit d (filter (\<lambda>e. path_diverse P hops e ?ix) (filter (\<lambda>e. id_pubkey_hex e \<notin> set used) exits)) = Some exit"
    by (auto simp: pick_try_def chosen_def Let_def split: if_splits option.splits)
  then have "exit \<in> set (filter (\<lambda>e. path_diverse P hops e ?ix) (filter (\<lambda>e. id_pubkey_hex e \<notin> set used) exits))"
    using assms(2) unfolding draws_ok_def choice_ok_def by blast
  moreover have "hd path = entry" using inv x(2) by (auto simp: path_inv_def)
  ultimately show ?thesis using inv x entry by (intro exI [of _ hops] exI [of _ used] exI [of _ exit]) auto
qed

lemma host_before_snoc: "host_before by_id hops \<Longrightarrow> rendezvous x = None \<Longrightarrow> host_before by_id (hops @ [x])"
  by (auto simp: host_before_def nth_append)

lemma pick_path:
  assumes "distinct (map id_pubkey_hex rs)" and "\<forall>k. draws_ok (draws k)"
    and "pick P rs guards draws hop_count = Inr path"
  shows "diverse_path P (index_by_id rs) path \<and> host_before (index_by_id rs) path
    \<and> distinct (map id_pubkey_hex path) \<and> set path \<subseteq> set rs
    \<and> length path = hop_count + hosted_count path
    \<and> tier (hd path) = Entry \<and> rendezvous (hd path) = None \<and> tier (last path) = Exit \<and> rendezvous (last path) = None
    \<and> hd path \<in> set (entry_pool guards (filter (\<lambda>r. tier r = Entry \<and> rendezvous r = None) rs))"
proof -
  let ?ix = "index_by_id rs" and ?es = "entry_pool guards (filter (\<lambda>r. tier r = Entry \<and> rendezvous r = None) rs)"
  let ?ms = "filter (\<lambda>r. tier r = Mix) rs" and ?xs = "filter (\<lambda>r. tier r = Exit \<and> rendezvous r = None) rs"
  have hc: "3 \<le> hop_count" "hop_count \<le> 5" and tl: "try_loop (\<lambda>k. pick_try P ?ix ?es ?ms ?xs (hop_count - 2) (draws k)) 0 MAX_TRIES
      ''no diverse path found after MAX_TRIES attempts'' = Inr path"
    using assms(3) by (auto simp: pick_def Let_def split: if_splits)
  from try_loop_Inr [OF tl] obtain j where f: "pick_try P ?ix ?es ?ms ?xs (hop_count - 2) (draws j) = Found path" by blast
  have es: "set ?es \<subseteq> {r \<in> set rs. tier r = Entry \<and> rendezvous r = None}"
    using entry_pool_subset [of guards "filter (\<lambda>r. tier r = Entry \<and> rendezvous r = None) rs"] by auto
  have xs: "set ?xs \<subseteq> {r \<in> set rs. tier r = Exit \<and> rendezvous r = None}" and ms: "set ?ms \<subseteq> set rs" by auto
  have dj: "draws_ok (draws j)" using assms(2) by blast
  from pick_try_Found [OF assms(1) dj es ms xs f] obtain hops used exit
    where p: "path = hops @ [exit]" "path_inv P ?ix rs (hd path) (hops, used, hop_count - 2)"
      "hd path \<in> set ?es" "exit \<in> set ?xs" "id_pubkey_hex exit \<notin> set used" "path_diverse P hops exit ?ix"
    by blast
  have ap: "\<forall>h \<in> set hops. apart P ?ix h exit"
    using p(6) by (auto simp: path_diverse_def list_all_iff pair_diverse_apart)
  have x: "exit \<in> set rs" "tier exit = Exit" "rendezvous exit = None" using p(4) by auto
  have i: "set hops \<subseteq> set rs" "distinct (map id_pubkey_hex hops)" "set used = id_pubkey_hex ` set hops"
    "diverse_path P ?ix hops" "host_before ?ix hops" "length hops = 1 + (hop_count - 2) + hosted_count hops"
    using p(2) by (auto simp: path_inv_def)
  have "diverse_path P ?ix path" unfolding p(1) using i(4) ap by (rule diverse_snoc)
  moreover have "host_before ?ix path" unfolding p(1) using i(5) x(3) by (rule host_before_snoc)
  moreover have "distinct (map id_pubkey_hex path)" "set path \<subseteq> set rs" using p(1,5) i x by auto
  moreover have "hosted_count path = hosted_count hops" "length path = Suc (length hops)" "last path = exit"
    using p(1) x(3) by (simp_all add: hosted_count_def)
  ultimately show ?thesis using p(3) es x i(6) hc by auto
qed

text \<open>
  C19: every path the selector returns, from any directory with distinct identities and for
  any random choices, starts at a public entry relay (a configured guard when one is
  available), ends at a public exit relay, visits no relay twice, and has any two hops run by
  different known operators in different networks, except that a mix behind a rendezvous point
  comes directly after its host, which is capable of it and public. Its length is the requested
  number of hops plus one for each such host.
\<close>

theorem pick_path_ok:
  assumes "distinct (map id_pubkey_hex rs)" and "\<forall>k. draws_ok (draws k)"
    and "pick P rs guards draws hop_count = Inr path"
  shows "diverse_path P (index_by_id rs) path \<and> host_before (index_by_id rs) path
    \<and> distinct (map id_pubkey_hex path) \<and> set path \<subseteq> set rs
    \<and> length path = hop_count + hosted_count path
    \<and> tier (hd path) = Entry \<and> rendezvous (hd path) = None \<and> tier (last path) = Exit \<and> rendezvous (last path) = None
    \<and> hd path \<in> set (entry_pool guards (filter (\<lambda>r. tier r = Entry \<and> rendezvous r = None) rs))"
  using assms by (rule pick_path)

lemma take_mixes_inv:
  assumes "distinct (map id_pubkey_hex rs)" "set ms \<subseteq> {r \<in> set rs. rendezvous r = None}"
    "path_inv P by_id rs entry (hops, used, placed)" "hosted_count hops = 0"
    "take_mixes P by_id ms hops = (True, hops')"
  shows "\<exists>used'. path_inv P by_id rs entry (hops', used', placed + length ms) \<and> hosted_count hops' = 0
    \<and> set hops' \<subseteq> set hops \<union> set ms"
  using assms(2-5)
proof (induction ms arbitrary: hops used placed)
  case Nil
  then show ?case by auto
next
  case (Cons m ms)
  have d: "path_diverse P hops m by_id" and r: "take_mixes P by_id ms (hops @ [m]) = (True, hops')"
    using Cons.prems(4) by (auto split: if_splits)
  have m: "m \<in> set rs" "rendezvous m = None" using Cons.prems(1) by auto
  have "path_inv P by_id rs entry (hops @ [m], id_pubkey_hex m # used, Suc placed)"
    using path_inv_direct [OF Cons.prems(2) assms(1) m d] .
  moreover have "hosted_count (hops @ [m]) = 0" using Cons.prems(3) m by (simp add: hosted_count_def)
  ultimately show ?case using Cons.IH [OF _ _ _ r] Cons.prems(1) by fastforce
qed

lemma pick_to_exit_try_Found:
  assumes "distinct (map id_pubkey_hex rs)" "draws_ok d"
    "set entries \<subseteq> {r \<in> set rs. tier r = Entry \<and> rendezvous r = None \<and> id_pubkey_hex r \<noteq> id_pubkey_hex exit}"
    "set mixes \<subseteq> {r \<in> set rs. tier r = Mix \<and> rendezvous r = None \<and> id_pubkey_hex r \<noteq> id_pubkey_hex exit}"
    "pick_to_exit_try P by_id entries mixes exit mix_count d = Found path"
  shows "\<exists>hops used. path = hops @ [exit] \<and> path_inv P by_id rs (hd path) (hops, used, mix_count)
    \<and> hosted_count hops = 0 \<and> path_diverse P hops exit by_id \<and> hd path \<in> set entries
    \<and> (\<forall>h \<in> set hops. id_pubkey_hex h \<noteq> id_pubkey_hex exit)"
proof -
  from assms(5) obtain entry where e: "choose_entry d entries = Some entry"
    by (auto simp: pick_to_exit_try_def split: option.splits)
  then have entry: "entry \<in> set entries" using assms(2) by (auto simp: draws_ok_def choice_ok_def)
  define chosen where "chosen = shuffle_mixes d (filter (\<lambda>m. id_pubkey_hex m \<notin> {id_pubkey_hex exit, id_pubkey_hex entry}) mixes)"
  obtain ok hops where tm: "take_mixes P by_id (take mix_count chosen) [entry] = (ok, hops)" by force
  from assms(5) e tm have f: "ok" "length hops = 1 + mix_count" "path_diverse P hops exit by_id" "path = hops @ [exit]"
    by (auto simp: pick_to_exit_try_def chosen_def Let_def split: if_splits)
  have ch: "set chosen \<subseteq> set mixes" using assms(2) by (auto simp: chosen_def draws_ok_def)
  then have tk: "set (take mix_count chosen) \<subseteq> {r \<in> set rs. rendezvous r = None}"
    using set_take_subset [of mix_count chosen] assms(4) by blast
  have pe: "path_inv P by_id rs entry ([entry], [id_pubkey_hex entry], 0)" "hosted_count [entry] = 0"
    using path_inv_entry entry assms(3) by (auto simp: hosted_count_def)
  from take_mixes_inv [OF assms(1) tk pe] tm f(1) obtain used where
    inv: "path_inv P by_id rs entry (hops, used, length (take mix_count chosen))" "hosted_count hops = 0"
      "set hops \<subseteq> set [entry] \<union> set (take mix_count chosen)" by auto
  have "length (take mix_count chosen) = mix_count" using inv(1,2) f(2) by (auto simp: path_inv_def)
  moreover have "hd path = entry" using inv(1) f(4) by (auto simp: path_inv_def)
  moreover have "\<forall>h \<in> set hops. id_pubkey_hex h \<noteq> id_pubkey_hex exit"
    using inv(3) ch set_take_subset [of mix_count chosen] entry assms(3,4) by fastforce
  ultimately show ?thesis using inv f entry by (intro exI [of _ hops] exI [of _ used]) auto
qed

lemma pick_to_exit_path:
  assumes "distinct (map id_pubkey_hex rs)" and "\<forall>k. draws_ok (draws k)"
    and "pick_to_exit P rs guards draws hop_count exit = Inr path"
  shows "length path = hop_count \<and> last path = exit \<and> distinct (map id_pubkey_hex path)
    \<and> set (butlast path) \<subseteq> set rs \<and> tier (hd path) = Entry
    \<and> (\<forall>h \<in> set (butlast path). rendezvous h = None)
    \<and> (\<forall>i j. i < j \<longrightarrow> j < length path \<longrightarrow> apart P (index_by_id rs) (path ! i) (path ! j))"
proof -
  let ?ix = "index_by_id rs"
  let ?pool = "filter (\<lambda>r. id_pubkey_hex r \<noteq> id_pubkey_hex exit) (filter (\<lambda>r. tier r = Entry \<and> rendezvous r = None) rs)"
  let ?es = "entry_pool guards ?pool"
  let ?ms = "filter (\<lambda>r. id_pubkey_hex r \<noteq> id_pubkey_hex exit) (filter (\<lambda>r. tier r = Mix \<and> rendezvous r = None) rs)"
  have hc: "3 \<le> hop_count" "hop_count \<le> 5" and tl: "try_loop (\<lambda>k. pick_to_exit_try P ?ix ?es ?ms exit (hop_count - 2) (draws k)) 0
      MAX_TRIES ''no diverse path to the chosen exit after MAX_TRIES attempts'' = Inr path"
    using assms(3) by (auto simp: pick_to_exit_def Let_def split: if_splits)
  from try_loop_Inr [OF tl] obtain j where f: "pick_to_exit_try P ?ix ?es ?ms exit (hop_count - 2) (draws j) = Found path"
    by blast
  have es: "set ?es \<subseteq> {r \<in> set rs. tier r = Entry \<and> rendezvous r = None \<and> id_pubkey_hex r \<noteq> id_pubkey_hex exit}"
    using entry_pool_subset [of guards ?pool] by auto
  have ms: "set ?ms \<subseteq> {r \<in> set rs. tier r = Mix \<and> rendezvous r = None \<and> id_pubkey_hex r \<noteq> id_pubkey_hex exit}" by auto
  have dj: "draws_ok (draws j)" using assms(2) by blast
  from pick_to_exit_try_Found [OF assms(1) dj es ms f] obtain hops used
    where p: "path = hops @ [exit]" "path_inv P ?ix rs (hd path) (hops, used, hop_count - 2)" "hosted_count hops = 0"
      "path_diverse P hops exit ?ix" "hd path \<in> set ?es" "\<forall>h \<in> set hops. id_pubkey_hex h \<noteq> id_pubkey_hex exit"
    by blast
  have ap: "\<forall>h \<in> set hops. apart P ?ix h exit"
    using p(4) by (auto simp: path_diverse_def list_all_iff pair_diverse_apart)
  have i: "set hops \<subseteq> set rs" "distinct (map id_pubkey_hex hops)" "diverse_path P ?ix hops"
    "length hops = 1 + (hop_count - 2) + hosted_count hops"
    using p(2) by (auto simp: path_inv_def)
  have nr: "\<forall>h \<in> set hops. rendezvous h = None" using p(3) by (auto simp: hosted_count_def filter_empty_conv)
  have dp: "diverse_path P ?ix path" unfolding p(1) using i(3) ap by (rule diverse_snoc)
  have "apart P ?ix (path ! a) (path ! b)" if "a < b" "b < length path" for a b
  proof (cases "b < length hops")
    case True
    then have "rendezvous (path ! b) = None" using nr by (simp add: p(1) nth_append)
    then have "\<not> hosts ?ix (path ! a) (path ! b)" by (simp add: hosts_def)
    with dp that show ?thesis by (auto simp: diverse_path_def)
  next
    case False
    with that p(1) have "b = length hops" "a < length hops" by auto
    with ap show ?thesis by (simp add: p(1) nth_append)
  qed
  then show ?thesis using p i nr hc es by (auto simp: p(1))
qed

text \<open>
  A path to a chosen exit has exactly the requested number of hops, ends at that exit,
  visits no relay twice, uses only directly reachable relays before it, and any two of its hops
  are run by different known operators in different networks.
\<close>

theorem pick_to_exit_ok:
  assumes "distinct (map id_pubkey_hex rs)" and "\<forall>k. draws_ok (draws k)"
    and "pick_to_exit P rs guards draws hop_count exit = Inr path"
  shows "length path = hop_count \<and> last path = exit \<and> distinct (map id_pubkey_hex path)
    \<and> set (butlast path) \<subseteq> set rs \<and> tier (hd path) = Entry
    \<and> (\<forall>h \<in> set (butlast path). rendezvous h = None)
    \<and> (\<forall>i j. i < j \<longrightarrow> j < length path \<longrightarrow> apart P (index_by_id rs) (path ! i) (path ! j))"
  using assms by (rule pick_to_exit_path)

subsection \<open>A concrete directory\<close>

definition demo_desc :: "string \<Rightarrow> relay_tier \<Rightarrow> string option \<Rightarrow> bool \<Rightarrow> descriptor" where
  "demo_desc nm t rdv capable = \<lparr>id_pubkey_hex = nm, kem_pubkey_hex = nm, addr = nm, tier = t, country = None,
     asn = None, operator = Some nm, uptime_pct = None, has_mailbox = False, rendezvous = rdv, rendezvous_capable = capable\<rparr>"

definition first_draws :: path_draws where
  "first_draws = \<lparr>choose_entry = (\<lambda>xs. case xs of [] \<Rightarrow> None | x # _ \<Rightarrow> Some x), shuffle_mixes = (\<lambda>xs. xs),
     choose_exit = (\<lambda>xs. case xs of [] \<Rightarrow> None | x # _ \<Rightarrow> Some x)\<rparr>"

lemma first_draws_ok: "draws_ok first_draws"
  by (auto simp: draws_ok_def choice_ok_def first_draws_def split: list.splits)

definition demo_relays :: "descriptor list" where
  "demo_relays = [demo_desc ''aa'' Entry None False, demo_desc ''bb'' Mix None True,
     demo_desc ''cc'' Mix (Some ''bb'') False, demo_desc ''dd'' Exit None False]"

lemma demo_relays_distinct: "distinct (map id_pubkey_hex demo_relays)"
  by (simp add: demo_relays_def demo_desc_def)

lemma demo_pick: "pick demo_prims (demo_relays) [] (\<lambda>_. first_draws) 3
    = Inr [demo_desc ''aa'' Entry None False, demo_desc ''bb'' Mix None True, demo_desc ''dd'' Exit None False]"
  by code_simp

theorem pick_path_ok_witness:
  "diverse_path demo_prims (index_by_id demo_relays)
     [demo_desc ''aa'' Entry None False, demo_desc ''bb'' Mix None True, demo_desc ''dd'' Exit None False]"
  using pick_path_ok [OF demo_relays_distinct _ demo_pick] first_draws_ok by simp

lemma demo_pick_to_exit: "pick_to_exit demo_prims demo_relays [''AA''] (\<lambda>_. first_draws) 3 (demo_desc ''ee'' Exit None False)
    = Inr [demo_desc ''aa'' Entry None False, demo_desc ''bb'' Mix None True, demo_desc ''ee'' Exit None False]"
  by code_simp

theorem pick_to_exit_ok_witness:
  "apart demo_prims (index_by_id demo_relays) (demo_desc ''aa'' Entry None False) (demo_desc ''ee'' Exit None False)"
  using pick_to_exit_ok [OF demo_relays_distinct _ demo_pick_to_exit, THEN conjunct2, THEN conjunct2, THEN conjunct2,
      THEN conjunct2, THEN conjunct2, THEN conjunct2, rule_format, of 0 2] first_draws_ok
  by (simp add: numeral_2_eq_2)

section \<open>Diversity caps\<close>

definition net24 :: "prims \<Rightarrow> id_index \<Rightarrow> descriptor \<Rightarrow> bytes option" where
  "net24 P ix d = (case eff_diversity_ip P d ix of Some (V4 oc) \<Rightarrow> Some (take 3 oc) | _ \<Rightarrow> None)"

definition net16 :: "prims \<Rightarrow> id_index \<Rightarrow> descriptor \<Rightarrow> bytes option" where
  "net16 P ix d = (case eff_diversity_ip P d ix of Some (V4 oc) \<Rightarrow> Some (take 2 oc) | _ \<Rightarrow> None)"

definition net48 :: "prims \<Rightarrow> id_index \<Rightarrow> descriptor \<Rightarrow> bytes option" where
  "net48 P ix d = (case eff_diversity_ip P d ix of Some (V6 oc) \<Rightarrow> Some (take 6 oc) | _ \<Rightarrow> None)"

text \<open>How many descriptors of a list fall under a key.\<close>

definition under :: "('d \<Rightarrow> 'k option) \<Rightarrow> 'k \<Rightarrow> 'd list \<Rightarrow> nat" where
  "under kf k ds = length (filter (\<lambda>d. kf d = Some k) ds)"

lemma under_simps [simp]:
  "under kf k [] = 0" "under kf k (d # ds) = (if kf d = Some k then Suc (under kf k ds) else under kf k ds)"
  by (simp_all add: under_def)

lemma under_head: "\<forall>k. a k + under kf k (d # ds) \<le> L \<Longrightarrow> kf d = Some k \<Longrightarrow> a k < (L :: nat)"
  by (drule spec [of _ k]) simp

lemma under_step: "\<forall>k. a k + under kf k (d # ds) \<le> L \<Longrightarrow>
    \<forall>k. a k + (if kf d = Some k then 1 else 0) + under kf k ds \<le> (L :: nat)"
  by (auto dest: spec split: if_splits)

lemma counter_bump [simp]: "counter_of (bump k m) k' = counter_of m k' + (if k' = k then 1 else 0)"
  by (simp add: counter_of_def bump_def hm_simps)

text \<open>
  The bound of one counter: a relay is only kept while its counter is below the limit, and the
  counter goes up by one for each relay kept.
\<close>

lemma counter_capped:
  assumes guard: "\<And>c d k. net_ok c (eff_diversity_ip P d ix) \<Longrightarrow> op_ok c (eff_operator d ix) \<Longrightarrow> kf d = Some k \<Longrightarrow> sel c k < L"
    and count: "\<And>c d k. sel (count_relay c (eff_diversity_ip P d ix) (eff_operator d ix)) k
      = sel c k + (if kf d = Some k then 1 else 0)"
    and "sel c k \<le> L"
  shows "sel c k + under kf k (caps_loop P ix c ds) \<le> L"
  using assms(3)
proof (induction ds arbitrary: c)
  case Nil
  then show ?case by simp
next
  case (Cons d ds)
  let ?ip = "eff_diversity_ip P d ix" and ?op = "eff_operator d ix"
  show ?case
  proof (cases "(rendezvous d \<noteq> None \<and> ?ip = None) \<or> \<not> (net_ok c ?ip \<and> op_ok c ?op)")
    case True
    then have "caps_loop P ix c (d # ds) = caps_loop P ix c ds" by (auto simp: Let_def)
    with Cons show ?thesis by simp
  next
    case False
    then have e: "caps_loop P ix c (d # ds) = d # caps_loop P ix (count_relay c ?ip ?op) ds" by (auto simp: Let_def)
    have "kf d = Some k \<Longrightarrow> sel c k < L" using guard False by blast
    then have "sel (count_relay c ?ip ?op) k \<le> L" using Cons.prems by (auto simp: count)
    from Cons.IH [OF this] show ?thesis unfolding e by (simp add: count split: if_splits)
  qed
qed

lemma count_relay_sel:
  "counter_of (per24 (count_relay c (eff_diversity_ip P d ix) opr)) k = counter_of (per24 c) k + (if net24 P ix d = Some k then 1 else 0)"
  "counter_of (per16 (count_relay c (eff_diversity_ip P d ix) opr)) k = counter_of (per16 c) k + (if net16 P ix d = Some k then 1 else 0)"
  "counter_of (per48 (count_relay c (eff_diversity_ip P d ix) opr)) k = counter_of (per48 c) k + (if net48 P ix d = Some k then 1 else 0)"
  "counter_of (per_op (count_relay c ip (eff_operator d ix))) p = counter_of (per_op c) p + (if eff_operator d ix = Some p then 1 else 0)"
  by (auto simp: count_relay_def net24_def net16_def net48_def Let_def split: option.splits ipaddr.splits)

lemma net_ok_iff:
  "net_ok c (eff_diversity_ip P d ix) \<longleftrightarrow>
     (\<forall>k. net24 P ix d = Some k \<longrightarrow> counter_of (per24 c) k < MAX_RELAYS_PER_24)
     \<and> (\<forall>k. net16 P ix d = Some k \<longrightarrow> counter_of (per16 c) k < MAX_RELAYS_PER_16)
     \<and> (\<forall>k. net48 P ix d = Some k \<longrightarrow> counter_of (per48 c) k < MAX_RELAYS_PER_48)"
  by (auto simp: net_ok_def net24_def net16_def net48_def split: option.splits ipaddr.splits)

lemma op_ok_iff: "op_ok c (eff_operator d ix) \<longleftrightarrow>
    (\<forall>p. eff_operator d ix = Some p \<longrightarrow> counter_of (per_op c) p < MAX_RELAYS_PER_OPERATOR)"
  by (auto simp: op_ok_def split: option.splits)

lemma caps_loop_subseq: "subseq (caps_loop P ix c ds) ds"
  by (induction ds arbitrary: c) (auto simp: Let_def)

lemma caps_loop_hosted: "d \<in> set (caps_loop P ix c ds) \<Longrightarrow> rendezvous d \<noteq> None \<Longrightarrow> eff_diversity_ip P d ix \<noteq> None"
  by (induction ds arbitrary: c) (auto simp: Let_def split: if_splits)

lemma caps_loop_all:
  assumes "\<forall>d \<in> set ds. rendezvous d \<noteq> None \<longrightarrow> eff_diversity_ip P d ix \<noteq> None"
    "\<forall>k. counter_of (per24 c) k + under (net24 P ix) k ds \<le> MAX_RELAYS_PER_24"
    "\<forall>k. counter_of (per16 c) k + under (net16 P ix) k ds \<le> MAX_RELAYS_PER_16"
    "\<forall>k. counter_of (per48 c) k + under (net48 P ix) k ds \<le> MAX_RELAYS_PER_48"
    "\<forall>p. counter_of (per_op c) p + under (\<lambda>d. eff_operator d ix) p ds \<le> MAX_RELAYS_PER_OPERATOR"
  shows "caps_loop P ix c ds = ds"
  using assms
proof (induction ds arbitrary: c)
  case Nil
  then show ?case by simp
next
  case (Cons d ds)
  let ?c = "count_relay c (eff_diversity_ip P d ix) (eff_operator d ix)"
  have ok: "net_ok c (eff_diversity_ip P d ix)" "op_ok c (eff_operator d ix)"
    unfolding net_ok_iff op_ok_iff
    using under_head [OF Cons.prems(2)] under_head [OF Cons.prems(3)] under_head [OF Cons.prems(4)]
      under_head [OF Cons.prems(5)] by blast+
  have "caps_loop P ix ?c ds = ds"
    using Cons.prems(1) under_step [OF Cons.prems(2)] under_step [OF Cons.prems(3)] under_step [OF Cons.prems(4)]
      under_step [OF Cons.prems(5)]
    by (intro Cons.IH) (simp_all only: count_relay_sel, auto)
  with ok Cons.prems(1) show ?case by (auto simp: Let_def)
qed

text \<open>
  C33: the diversity caps. The published list is the given one with relays left out: at most 3
  per IPv4 /24, 8 per /16, 8 per IPv6 /48 and 5 per operator remain, counting a relay behind a
  rendezvous point at its host's address and operator, and one whose host is unknown is left
  out. A list that already satisfies all of this is published unchanged.
\<close>

theorem caps_hold:
  fixes ds :: "descriptor list"
  defines "ix \<equiv> index_by_id ds"
  shows "subseq (apply_diversity_caps P ds) ds
    \<and> under (net24 P ix) k (apply_diversity_caps P ds) \<le> MAX_RELAYS_PER_24
    \<and> under (net16 P ix) k (apply_diversity_caps P ds) \<le> MAX_RELAYS_PER_16
    \<and> under (net48 P ix) k (apply_diversity_caps P ds) \<le> MAX_RELAYS_PER_48
    \<and> under (\<lambda>d. eff_operator d ix) p (apply_diversity_caps P ds) \<le> MAX_RELAYS_PER_OPERATOR
    \<and> (\<forall>d. d \<in> set (apply_diversity_caps P ds) \<and> rendezvous d \<noteq> None \<longrightarrow> eff_diversity_ip P d ix \<noteq> None)
    \<and> ((\<forall>k p. under (net24 P ix) k ds \<le> MAX_RELAYS_PER_24 \<and> under (net16 P ix) k ds \<le> MAX_RELAYS_PER_16
          \<and> under (net48 P ix) k ds \<le> MAX_RELAYS_PER_48 \<and> under (\<lambda>d. eff_operator d ix) p ds \<le> MAX_RELAYS_PER_OPERATOR)
        \<and> (\<forall>d. d \<in> set ds \<and> rendezvous d \<noteq> None \<longrightarrow> eff_diversity_ip P d ix \<noteq> None)
        \<longrightarrow> apply_diversity_caps P ds = ds)"
proof -
  let ?c = "\<lparr>per24 = [], per16 = [], per48 = [], per_op = []\<rparr>"
  have z: "counter_of [] x = 0" for x :: 'x by (simp add: counter_of_def hm_simps)
  have 1: "under (net24 P ix) k (caps_loop P ix ?c ds) \<le> MAX_RELAYS_PER_24"
    using counter_capped [of P ix "net24 P ix" "\<lambda>c. counter_of (per24 c)" MAX_RELAYS_PER_24 ?c k ds]
    by (simp add: net_ok_iff count_relay_sel z)
  have 2: "under (net16 P ix) k (caps_loop P ix ?c ds) \<le> MAX_RELAYS_PER_16"
    using counter_capped [of P ix "net16 P ix" "\<lambda>c. counter_of (per16 c)" MAX_RELAYS_PER_16 ?c k ds]
    by (simp add: net_ok_iff count_relay_sel z)
  have 3: "under (net48 P ix) k (caps_loop P ix ?c ds) \<le> MAX_RELAYS_PER_48"
    using counter_capped [of P ix "net48 P ix" "\<lambda>c. counter_of (per48 c)" MAX_RELAYS_PER_48 ?c k ds]
    by (simp add: net_ok_iff count_relay_sel z)
  have 4: "under (\<lambda>d. eff_operator d ix) p (caps_loop P ix ?c ds) \<le> MAX_RELAYS_PER_OPERATOR"
    using counter_capped [of P ix "\<lambda>d. eff_operator d ix" "\<lambda>c. counter_of (per_op c)" MAX_RELAYS_PER_OPERATOR ?c p ds]
    by (simp add: op_ok_def count_relay_sel z)
  show ?thesis
    unfolding apply_diversity_caps_def ix_def [symmetric]
    using 1 2 3 4 caps_loop_subseq [of P ix ?c ds] caps_loop_hosted [of _ P ix ?c ds] caps_loop_all [of ds P ix ?c]
    by (auto simp: z)
qed

theorem caps_hold_witness:
  "under (net24 demo_prims (index_by_id (replicate 5 (demo_desc ''aa'' Mix None False)))) [97, 97, 0]
     (apply_diversity_caps demo_prims (replicate 5 (demo_desc ''aa'' Mix None False))) \<le> 3"
  using caps_hold [where P = demo_prims and ds = "replicate 5 (demo_desc ''aa'' Mix None False)" and k = "[97, 97, 0]"]
  by (simp only: MAX_RELAYS_PER_24_def)

end
