(* ===== verification/Sphinx_Header.thy ===== *)
theory Sphinx_Header
  imports Primitives
begin

text \<open>
  The Sphinx header, crypto-gotham/src/header.rs: the routing record and the header with
  their wire formats, the sub-keys of a hop, the secrets of a route, the sender's
  construction of the header (\<open>wrap_header\<close>) and one relay's peeling of it
  (\<open>unwrap_header\<close>).

  The random bytes a function draws from its generator are arguments (a function from the
  position to the byte), so a statement about the function holds for every generator. The
  curve arithmetic of curve25519-dalek is a record of parameters.
\<close>

section \<open>Constants\<close>

definition HEADER_LEN :: nat where "HEADER_LEN = 384"
definition ALPHA_LEN :: nat where "ALPHA_LEN = 32"
definition BETA_LEN :: nat where "BETA_LEN = 320"
definition GAMMA_LEN :: nat where "GAMMA_LEN = 16"
definition TRAILER_LEN :: nat where "TRAILER_LEN = HEADER_LEN - 4 - ALPHA_LEN - BETA_LEN - GAMMA_LEN"
definition RECORD_LEN :: nat where "RECORD_LEN = 64"
definition MAX_HOPS :: nat where "MAX_HOPS = BETA_LEN div RECORD_LEN"

definition VERSION :: byte where "VERSION = 3"
definition VERSION_LEGACY :: byte where "VERSION_LEGACY = 2"

definition LOW_LATENCY :: byte where "LOW_LATENCY = 0"
definition BALANCED :: byte where "BALANCED = 1"
definition PARANOID :: byte where "PARANOID = 2"

definition IS_LAST_HOP :: byte where "IS_LAST_HOP = 1"
definition DELIVER_LOCAL :: byte where "DELIVER_LOCAL = 2"
definition VIA_RENDEZVOUS :: byte where "VIA_RENDEZVOUS = 4"

lemmas header_consts = HEADER_LEN_def ALPHA_LEN_def BETA_LEN_def GAMMA_LEN_def TRAILER_LEN_def
  RECORD_LEN_def MAX_HOPS_def

section \<open>Routing records\<close>

record routing_record =
  next_ipv4 :: bytes
  next_port :: "16 word"
  next_node_id :: bytes
  next_gamma :: bytes
  delay_micros :: "32 word"
  rflag :: byte
  rpadding :: bytes

definition record_default :: routing_record where
  "record_default = \<lparr>next_ipv4 = replicate 4 0, next_port = 0, next_node_id = replicate 32 0,
     next_gamma = replicate GAMMA_LEN 0, delay_micros = 0, rflag = 0, rpadding = replicate 5 0\<rparr>"

definition record_encode :: "routing_record \<Rightarrow> bytes" where
  "record_encode r = next_ipv4 r @ be_bytes 2 (unat (next_port r)) @ next_node_id r
     @ next_gamma r @ be_bytes 4 (unat (delay_micros r)) @ [rflag r] @ rpadding r"

definition record_decode :: "bytes \<Rightarrow> routing_record" where
  "record_decode bs = \<lparr>next_ipv4 = slice 0 4 bs,
     next_port = word_of_nat (be_val (slice 4 6 bs)),
     next_node_id = slice 6 38 bs,
     next_gamma = slice 38 54 bs,
     delay_micros = word_of_nat (be_val (slice 54 58 bs)),
     rflag = bs ! 58,
     rpadding = slice 59 64 bs\<rparr>"

definition is_last_hop :: "routing_record \<Rightarrow> bool" where
  "is_last_hop r = (rflag r AND IS_LAST_HOP \<noteq> 0)"

definition is_via_rendezvous :: "routing_record \<Rightarrow> bool" where
  "is_via_rendezvous r = (rflag r AND VIA_RENDEZVOUS \<noteq> 0)"

text \<open>The array lengths of the Rust type.\<close>

definition wf_record :: "routing_record \<Rightarrow> bool" where
  "wf_record r \<longleftrightarrow> length (next_ipv4 r) = 4 \<and> length (next_node_id r) = 32
     \<and> length (next_gamma r) = GAMMA_LEN \<and> length (rpadding r) = 5"

section \<open>Headers\<close>

record header =
  hversion :: byte
  hmode :: byte
  hop_count :: byte
  hop_index :: byte
  halpha :: bytes
  hbeta :: bytes
  hgamma :: bytes
  htrailer :: bytes

definition wf_header :: "header \<Rightarrow> bool" where
  "wf_header h \<longleftrightarrow> length (halpha h) = ALPHA_LEN \<and> length (hbeta h) = BETA_LEN
     \<and> length (hgamma h) = GAMMA_LEN \<and> length (htrailer h) = TRAILER_LEN"

definition header_encode :: "header \<Rightarrow> bytes" where
  "header_encode h = [hversion h, hmode h, hop_count h, hop_index h]
     @ halpha h @ hbeta h @ hgamma h @ htrailer h"

definition header_decode :: "bytes \<Rightarrow> gerror + header" where
  "header_decode bs =
     (let version = bs ! 0; mode = bs ! 1; hc = bs ! 2; hi = bs ! 3
      in if version \<noteq> VERSION \<and> version \<noteq> VERSION_LEGACY
         then Inl (Malformed ''unsupported header version'')
         else if hc = 0 \<or> MAX_HOPS < unat hc then Inl (Malformed ''hop_count out of range'')
         else if hc \<le> hi then Inl (Malformed ''hop_index >= hop_count'')
         else Inr \<lparr>hversion = version, hmode = mode, hop_count = hc, hop_index = hi,
                halpha = slice 4 36 bs, hbeta = slice 36 356 bs,
                hgamma = slice 356 372 bs, htrailer = slice 372 384 bs\<rparr>)"

definition mac_input_for_slot :: "header \<Rightarrow> nat \<Rightarrow> bytes" where
  "mac_input_for_slot h slot_idx =
     (let start = slot_idx * RECORD_LEN;
          slot_bytes = (if 3 \<le> hversion h then drop start (hbeta h)
                        else slice start (start + RECORD_LEN) (hbeta h))
      in [hversion h, hmode h, hop_count h, word_of_nat slot_idx]
         @ halpha h @ slot_bytes @ htrailer h)"

section \<open>Keys\<close>

record hop_subkeys =
  k_mac :: bytes
  k_header :: bytes
  k_payload :: bytes
  k_blind :: bytes
  k_shuffle :: bytes

definition derive_hop_subkeys :: "prims \<Rightarrow> bytes \<Rightarrow> gerror + hop_subkeys" where
  "derive_hop_subkeys P shared_x =
     (if foldl (OR) 0 shared_x = 0
      then Inl (Crypto ''low-order point: all-zero X25519 shared secret'')
      else case hkdf_sha256 P (ascii ''gotham-hop-v1'') shared_x (ascii ''gotham:subkeys'') of
        None \<Rightarrow> Inl (Crypto ''HKDF expand hop sub-keys'')
      | Some okm \<Rightarrow>
          (let buf = arr (32 * 5) okm
           in Inr \<lparr>k_mac = slice 0 32 buf, k_header = slice 32 64 buf, k_payload = slice 64 96 buf,
                k_blind = slice 96 128 buf, k_shuffle = slice 128 160 buf\<rparr>))"

definition chacha20_stream :: "prims \<Rightarrow> bytes \<Rightarrow> nat \<Rightarrow> bytes" where
  "chacha20_stream P key len = arr len (chacha20 P key)"

definition poly1305_tag :: "prims \<Rightarrow> bytes \<Rightarrow> bytes \<Rightarrow> bytes" where
  "poly1305_tag P key data = arr GAMMA_LEN (poly1305 P key data)"

definition blind_alpha :: "prims \<Rightarrow> bytes \<Rightarrow> bytes \<Rightarrow> bytes" where
  "blind_alpha P alpha kb = x25519 P kb alpha"

lemma length_chacha20_stream [simp, byte_simps]: "length (chacha20_stream P k n) = n"
  by (simp add: chacha20_stream_def)

lemma length_poly1305_tag [simp, byte_simps]: "length (poly1305_tag P k d) = GAMMA_LEN"
  by (simp add: poly1305_tag_def)

subsection \<open>The secrets of a route\<close>

text \<open>
  What the code uses of curve25519-dalek: scalars modulo the group order, Montgomery points,
  and the multiplication by eight that clears the cofactor.
\<close>

record ('s, 'p) curve =
  scalar_from_bytes_mod_order :: "bytes \<Rightarrow> 's"
  scalar_mul :: "'s \<Rightarrow> 's \<Rightarrow> 's"
  basepoint :: 'p
  point_mul :: "'s \<Rightarrow> 'p \<Rightarrow> 'p"
  point_from :: "bytes \<Rightarrow> 'p"
  point_bytes :: "'p \<Rightarrow> nat \<Rightarrow> byte"
  point_mul8 :: "'p \<Rightarrow> 'p"

definition point_to_bytes :: "('s, 'p) curve \<Rightarrow> 'p \<Rightarrow> bytes" where
  "point_to_bytes C p = arr ALPHA_LEN (point_bytes C p)"

definition clamp_scalar :: "bytes \<Rightarrow> bytes" where
  "clamp_scalar b = b[0 := b ! 0 AND 248, 31 := (b ! 31 AND 127) OR 64]"

fun route_loop :: "prims \<Rightarrow> ('s, 'p) curve \<Rightarrow> 's \<Rightarrow> 'p \<Rightarrow> bytes list
    \<Rightarrow> gerror + (bytes list \<times> hop_subkeys list)" where
  "route_loop P C s_curr alpha_point [] = Inr ([], [])"
| "route_loop P C s_curr alpha_point (pk # rest) =
     (let recipient_point = point_from C pk
      in if point_to_bytes C (point_mul8 C recipient_point) = replicate 32 0
         then Inl (Routing ''relay key is low-order (small subgroup)'')
         else case derive_hop_subkeys P (point_to_bytes C (point_mul C s_curr recipient_point)) of
           Inl e \<Rightarrow> Inl e
         | Inr sub \<Rightarrow>
             (let b_scalar = scalar_from_bytes_mod_order C (clamp_scalar (k_blind sub));
                  s' = (if rest = [] then s_curr else scalar_mul C s_curr b_scalar);
                  alpha' = (if rest = [] then alpha_point else point_mul C b_scalar alpha_point)
              in case route_loop P C s' alpha' rest of
                   Inl e \<Rightarrow> Inl e
                 | Inr (alphas, sub_keys) \<Rightarrow>
                     Inr (point_to_bytes C alpha_point # alphas, sub # sub_keys)))"

definition derive_route_secrets :: "prims \<Rightarrow> ('s, 'p) curve \<Rightarrow> (nat \<Rightarrow> byte) \<Rightarrow> bytes list
    \<Rightarrow> gerror + (bytes list \<times> hop_subkeys list)" where
  "derive_route_secrets P C rng recipient_pks =
     (let n = length recipient_pks
      in if n = 0 \<or> MAX_HOPS < n then Inl (Routing ''hop count out of range'')
         else let s_curr = scalar_from_bytes_mod_order C (clamp_scalar (arr 32 rng))
              in route_loop P C s_curr (point_mul C s_curr (basepoint C)) recipient_pks)"

section \<open>The sender: \<open>wrap_header\<close>\<close>

definition shuffle_stream :: "prims \<Rightarrow> hop_subkeys \<Rightarrow> bytes" where
  "shuffle_stream P k = chacha20_stream P (k_shuffle k) (BETA_LEN + TRAILER_LEN)"

fun prefix_accs :: "bytes \<Rightarrow> bytes list \<Rightarrow> bytes list" where
  "prefix_accs acc [] = []"
| "prefix_accs acc (sh # shs) = acc # prefix_accs (xor_bytes acc sh) shs"

definition seen_header :: "byte \<Rightarrow> nat \<Rightarrow> nat \<Rightarrow> bytes \<Rightarrow> bytes \<Rightarrow> bytes \<Rightarrow> bytes \<Rightarrow> bytes \<Rightarrow> header" where
  "seen_header mode n i alpha beta pre gamma trailer =
     \<lparr>hversion = VERSION, hmode = mode, hop_count = word_of_nat n, hop_index = word_of_nat i,
      halpha = alpha, hbeta = xor_bytes beta pre, hgamma = gamma,
      htrailer = xor_bytes trailer (drop BETA_LEN pre)\<rparr>"

text \<open>One iteration of the loop \<open>for i in (0..n).rev()\<close>: the state is \<open>(beta, next_gamma)\<close>.\<close>

definition wrap_step :: "prims \<Rightarrow> byte \<Rightarrow> bytes list \<Rightarrow> hop_subkeys list \<Rightarrow> routing_record list
    \<Rightarrow> bytes \<Rightarrow> bytes list \<Rightarrow> nat \<Rightarrow> bytes \<times> bytes \<Rightarrow> bytes \<times> bytes" where
  "wrap_step P mode alphas sub_keys records trailer prefixes i st =
     (let (beta, ng) = st;
          record_bytes = record_encode ((records ! i)\<lparr>next_gamma := ng\<rparr>);
          stream = chacha20_stream P (k_header (sub_keys ! i)) RECORD_LEN;
          offset = i * RECORD_LEN;
          pre = prefixes ! i;
          beta' = splice offset
            (xor_bytes (xor_bytes record_bytes stream) (slice offset (offset + RECORD_LEN) pre)) beta;
          candidate = seen_header mode (length sub_keys) i (alphas ! i) beta' pre
            (replicate GAMMA_LEN 0) trailer
      in (beta', poly1305_tag P (k_mac (sub_keys ! i)) (mac_input_for_slot candidate i)))"

definition wrap_header :: "prims \<Rightarrow> (nat \<Rightarrow> byte) \<Rightarrow> byte \<Rightarrow> bytes list \<Rightarrow> hop_subkeys list
    \<Rightarrow> routing_record list \<Rightarrow> bytes \<Rightarrow> gerror + header" where
  "wrap_header P rng mode alphas sub_keys records trailer =
     (let n = length sub_keys
      in if n = 0 \<or> MAX_HOPS < n then Inl (Routing ''hop count out of range'')
         else if length alphas \<noteq> n \<or> length records \<noteq> n
         then Inl (Routing ''alphas / records length mismatch'')
         else let prefixes = prefix_accs (replicate (BETA_LEN + TRAILER_LEN) 0)
                               (map (shuffle_stream P) sub_keys);
                  (beta, gamma) = foldr (wrap_step P mode alphas sub_keys records trailer prefixes)
                    [0..<n] (arr BETA_LEN rng, replicate GAMMA_LEN 0)
              in Inr \<lparr>hversion = VERSION, hmode = mode, hop_count = word_of_nat n, hop_index = 0,
                   halpha = alphas ! 0, hbeta = beta, hgamma = gamma, htrailer = trailer\<rparr>)"

section \<open>The relay: \<open>unwrap_header\<close>\<close>

record unwrap_outcome =
  out_record :: routing_record
  out_next_header :: header

definition unwrap_header :: "prims \<Rightarrow> header \<Rightarrow> hop_subkeys \<Rightarrow> gerror + unwrap_outcome" where
  "unwrap_header P h k =
     (let i = unat (hop_index h); n = unat (hop_count h)
      in if n \<le> i \<or> MAX_HOPS < n
         then Inl (Malformed ''hop_index/hop_count out of range'')
         else if poly1305_tag P (k_mac k) (mac_input_for_slot h i) \<noteq> hgamma h then Inl BadMac
         else let offset = i * RECORD_LEN;
                  stream = chacha20_stream P (k_header k) RECORD_LEN;
                  record = record_decode
                    (xor_bytes (slice offset (offset + RECORD_LEN) (hbeta h)) stream);
                  shuffle = shuffle_stream P k
              in Inr \<lparr>out_record = record,
                   out_next_header =
                     \<lparr>hversion = hversion h, hmode = hmode h, hop_count = hop_count h,
                      hop_index = (if hop_index h = 255 then 255 else hop_index h + 1),
                      halpha = blind_alpha P (halpha h) (k_blind k),
                      hbeta = xor_bytes (hbeta h) shuffle,
                      hgamma = next_gamma record,
                      htrailer = xor_bytes (htrailer h) (drop BETA_LEN shuffle)\<rparr>\<rparr>)"

text \<open>A packet's way through the relays of its path, one key per hop.\<close>

fun unwrap_path :: "prims \<Rightarrow> hop_subkeys list \<Rightarrow> header \<Rightarrow> gerror + routing_record list" where
  "unwrap_path P [] h = Inr []"
| "unwrap_path P (k # ks) h =
     (case unwrap_header P h k of
        Inl e \<Rightarrow> Inl e
      | Inr out \<Rightarrow> (case unwrap_path P ks (out_next_header out) of
            Inl e \<Rightarrow> Inl e
          | Inr rs \<Rightarrow> Inr (out_record out # rs)))"

end
