(* ===== verification/Sphinx_Correct.thy ===== *)
theory Sphinx_Correct
  imports Sphinx_Header
begin

text \<open>
  Correctness of the Sphinx header: both wire formats are exact, what the sender wraps every
  relay of the path unwraps, the MAC of a hop covers its slot and every slot after it, and
  the route secrets the sender derives are the ones the relays compute.
\<close>

section \<open>Wire formats\<close>

lemma record_lens: "GAMMA_LEN = 16" "RECORD_LEN = 64" "BETA_LEN = 320" "TRAILER_LEN = 12"
  "ALPHA_LEN = 32" "MAX_HOPS = 5" "HEADER_LEN = 384"
  by (simp_all add: header_consts)

lemma length_record_encode: "wf_record r \<Longrightarrow> length (record_encode r) = RECORD_LEN"
  by (simp add: wf_record_def record_encode_def record_lens)

lemma list_slices:
  assumes "a \<le> b" "b \<le> length xs"
  shows "take a xs @ slice a b xs @ drop b xs = xs"
proof -
  have "slice a b xs @ drop b xs = drop a xs"
    using assms by (metis append_take_drop_id drop_drop le_add_diff_inverse2 slice_def)
  then show ?thesis by simp
qed

lemma slice_append1 [byte_simps]:
  "b \<le> length xs \<Longrightarrow> slice a b (xs @ ys) = slice a b xs"
  by (cases "a \<le> b") (simp_all add: slice_def)

lemma slice_append2 [byte_simps]:
  "length xs \<le> a \<Longrightarrow> slice a b (xs @ ys) = slice (a - length xs) (b - length xs) ys"
  by (simp add: slice_def)

lemma slice_Cons [byte_simps]: "0 < a \<Longrightarrow> slice a b (x # xs) = slice (a - 1) (b - 1) xs"
  by (cases a; cases b) (simp_all add: slice_def)

lemma slice_full [byte_simps]: "n = length xs \<Longrightarrow> slice 0 n xs = xs"
  by (simp add: slice_def)

lemma slice_split:
  "a \<le> b \<Longrightarrow> b \<le> c \<Longrightarrow> c \<le> length xs \<Longrightarrow> slice a b xs @ slice b c xs = slice a c xs"
proof -
  assume "a \<le> b" "b \<le> c" "c \<le> length xs"
  then have "c - a = (b - a) + (c - b)" "drop b xs = drop (b - a) (drop a xs)" by simp_all
  then show ?thesis by (simp add: slice_def take_add)
qed

lemma slice_one: "i < length xs \<Longrightarrow> [xs ! i] = slice i (Suc i) xs"
  by (simp add: slice_def take_Suc_conv_app_nth hd_drop_conv_nth take_Suc)

lemma u16_bound: "unat (w :: 16 word) < 256 ^ 2"
  using unsigned_less [of w] by simp

lemma u32_bound: "unat (w :: 32 word) < 256 ^ 4"
  using unsigned_less [of w] by simp

lemma u16_roundtrip: "word_of_nat (be_val (be_bytes 2 (unat w))) = (w :: 16 word)"
  by (simp add: be_val_be_bytes [OF u16_bound])

lemma u32_roundtrip: "word_of_nat (be_val (be_bytes 4 (unat w))) = (w :: 32 word)"
  by (simp add: be_val_be_bytes [OF u32_bound])

lemma record_decode_encode:
  assumes "wf_record r"
  shows "record_decode (record_encode r) = r"
  using assms
  by (simp add: record_decode_def record_encode_def wf_record_def record_lens byte_simps
      u16_roundtrip u32_roundtrip nth_append slice_Cons)

lemma be_bytes_of_slice2: "length bs = 2 \<Longrightarrow> be_bytes 2 (unat (word_of_nat (be_val bs) :: 16 word)) = bs"
  using be_val_bound [of bs] be_bytes_be_val [of bs] by (simp add: unat_of_nat)

lemma be_bytes_of_slice4: "length bs = 4 \<Longrightarrow> be_bytes 4 (unat (word_of_nat (be_val bs) :: 32 word)) = bs"
  using be_val_bound [of bs] be_bytes_be_val [of bs] by (simp add: unat_of_nat)

lemma record_encode_decode:
  assumes "length bs = RECORD_LEN"
  shows "record_encode (record_decode bs) = bs" and "wf_record (record_decode bs)"
proof -
  have len: "length bs = 64" using assms by (simp add: record_lens)
  have "record_encode (record_decode bs) =
      slice 0 4 bs @ slice 4 6 bs @ slice 6 38 bs @ slice 38 54 bs @ slice 54 58 bs
        @ slice 58 59 bs @ slice 59 64 bs"
    using len slice_one [of 58 bs]
    by (simp add: record_encode_def record_decode_def be_bytes_of_slice2 be_bytes_of_slice4 length_slice)
  also have "\<dots> = slice 0 64 bs" using len by (simp add: slice_split)
  finally show "record_encode (record_decode bs) = bs" using len by (simp add: slice_full)
  show "wf_record (record_decode bs)"
    using len by (simp add: wf_record_def record_decode_def length_slice record_lens)
qed

text \<open>
  The wire format of a routing record is exact in both directions: every record with the
  field lengths of the Rust type survives \<open>encode\<close> and \<open>decode\<close>, and every 64-byte block
  decodes to a record that encodes to the same block.
\<close>

theorem record_codec_exact:
  "(wf_record r \<longrightarrow> length (record_encode r) = RECORD_LEN \<and> record_decode (record_encode r) = r)
   \<and> (length bs = RECORD_LEN \<longrightarrow> record_encode (record_decode bs) = bs \<and> wf_record (record_decode bs))"
  using length_record_encode record_decode_encode record_encode_decode by blast

theorem record_codec_exact_witness:
  "wf_record record_default \<and> record_decode (record_encode record_default) = record_default
   \<and> record_encode (record_decode (replicate 64 1)) = replicate 64 1"
proof -
  have wf: "wf_record record_default" by (simp add: wf_record_def record_default_def)
  have len: "length (replicate 64 1 :: bytes) = RECORD_LEN" by (simp add: record_lens)
  from record_codec_exact [of record_default "replicate 64 1"] wf len show ?thesis by simp
qed

lemma length_header_encode: "wf_header h \<Longrightarrow> length (header_encode h) = HEADER_LEN"
  by (simp add: wf_header_def header_encode_def record_lens)

lemma header_fields_split:
  assumes "length bs = 384"
  shows "[bs ! 0, bs ! 1, bs ! 2, bs ! 3] @ slice 4 36 bs @ slice 36 356 bs @ slice 356 372 bs
    @ slice 372 384 bs = bs"
proof -
  have one: "[bs ! 0] = slice 0 1 bs" "[bs ! 1] = slice 1 2 bs" "[bs ! 2] = slice 2 3 bs"
    "[bs ! 3] = slice 3 4 bs"
    using assms slice_one [of 0 bs] slice_one [of 1 bs] slice_one [of 2 bs] slice_one [of 3 bs]
    by (simp_all add: eval_nat_numeral)
  have "[bs ! 0] @ [bs ! 1] @ [bs ! 2] @ [bs ! 3] = slice 0 4 bs"
    unfolding one using assms by (simp add: slice_split)
  then have "[bs ! 0, bs ! 1, bs ! 2, bs ! 3] = slice 0 4 bs" by simp
  then show ?thesis using assms by (simp add: slice_split slice_full)
qed

lemma header_decode_ok_iff:
  "(\<exists>h. header_decode bs = Inr h) \<longleftrightarrow>
     (bs ! 0 = VERSION \<or> bs ! 0 = VERSION_LEGACY) \<and> bs ! 2 \<noteq> 0 \<and> unat (bs ! 2) \<le> MAX_HOPS
     \<and> bs ! 3 < bs ! 2"
  by (auto simp: header_decode_def Let_def not_le)

lemma header_decode_encode:
  assumes "wf_header h" "hversion h = VERSION \<or> hversion h = VERSION_LEGACY"
    "hop_count h \<noteq> 0" "unat (hop_count h) \<le> MAX_HOPS" "hop_index h < hop_count h"
  shows "header_decode (header_encode h) = Inr h"
  using assms
  by (auto simp: header_decode_def header_encode_def wf_header_def Let_def record_lens byte_simps
      nth_append)

lemma header_encode_decode:
  assumes "length bs = HEADER_LEN" "header_decode bs = Inr h"
  shows "header_encode h = bs" and "wf_header h"
proof -
  have len: "length bs = 384" using assms(1) by (simp add: record_lens)
  have h: "h = \<lparr>hversion = bs ! 0, hmode = bs ! 1, hop_count = bs ! 2, hop_index = bs ! 3,
      halpha = slice 4 36 bs, hbeta = slice 36 356 bs, hgamma = slice 356 372 bs,
      htrailer = slice 372 384 bs\<rparr>"
    using assms(2) by (auto simp: header_decode_def Let_def split: if_splits)
  show "header_encode h = bs" using header_fields_split [OF len] by (simp add: h header_encode_def)
  show "wf_header h" using len by (simp add: h wf_header_def length_slice record_lens)
qed

text \<open>
  Decoding a 384-byte header accepts exactly the supported versions with a hop count of
  1 to 5 and a hop index below it; what it accepts re-encodes to the same bytes, and every
  header in that range survives the round trip.
\<close>

theorem header_codec_exact:
  assumes "length bs = HEADER_LEN"
  shows "((\<exists>h. header_decode bs = Inr h) \<longleftrightarrow>
      (bs ! 0 = VERSION \<or> bs ! 0 = VERSION_LEGACY) \<and> bs ! 2 \<noteq> 0 \<and> unat (bs ! 2) \<le> MAX_HOPS
      \<and> bs ! 3 < bs ! 2)
    \<and> (\<forall>h. header_decode bs = Inr h \<longrightarrow>
          wf_header h \<and> header_encode h = bs \<and> header_decode (header_encode h) = Inr h)"
  using header_decode_ok_iff header_encode_decode [OF assms] by auto

definition demo_header :: header where
  "demo_header = \<lparr>hversion = VERSION, hmode = BALANCED, hop_count = 3, hop_index = 1,
     halpha = replicate 32 17, hbeta = replicate 320 34, hgamma = replicate 16 51,
     htrailer = replicate 12 68\<rparr>"

theorem header_codec_exact_witness:
  "header_decode (header_encode demo_header) = Inr demo_header
   \<and> wf_header demo_header
   \<and> (\<exists>h. header_decode (header_encode demo_header) = Inr h)"
proof -
  have wf: "wf_header demo_header" by (simp add: wf_header_def demo_header_def record_lens)
  have ok: "header_decode (header_encode demo_header) = Inr demo_header"
    by (rule header_decode_encode [OF wf]) (simp_all add: demo_header_def record_lens)
  from header_codec_exact [OF length_header_encode [OF wf]] ok show ?thesis by blast
qed

section \<open>What the sender wraps, the relays unwrap\<close>

text \<open>The xor of the shuffle streams of the hops before hop \<open>i\<close>.\<close>

definition prefix_at :: "prims \<Rightarrow> hop_subkeys list \<Rightarrow> nat \<Rightarrow> bytes" where
  "prefix_at P ks i = foldl (\<lambda>acc k. xor_bytes acc (shuffle_stream P k))
     (replicate (BETA_LEN + TRAILER_LEN) 0) (take i ks)"

lemma length_shuffle_stream [simp]: "length (shuffle_stream P k) = BETA_LEN + TRAILER_LEN"
  by (simp add: shuffle_stream_def)

lemma length_prefix_fold:
  "length acc = BETA_LEN + TRAILER_LEN \<Longrightarrow>
   length (foldl (\<lambda>acc k. xor_bytes acc (shuffle_stream P k)) acc ks) = BETA_LEN + TRAILER_LEN"
  by (induction ks arbitrary: acc) auto

lemma length_prefix_at [simp]: "length (prefix_at P ks i) = BETA_LEN + TRAILER_LEN"
  by (simp add: prefix_at_def length_prefix_fold)

lemma prefix_at_0 [simp]: "prefix_at P ks 0 = replicate (BETA_LEN + TRAILER_LEN) 0"
  by (simp add: prefix_at_def)

lemma prefix_at_Suc:
  "i < length ks \<Longrightarrow> prefix_at P ks (Suc i) = xor_bytes (prefix_at P ks i) (shuffle_stream P (ks ! i))"
  by (simp add: prefix_at_def take_Suc_conv_app_nth)

lemma nth_prefix_accs:
  "i < length ks \<Longrightarrow> prefix_accs acc (map (shuffle_stream P) ks) ! i =
     foldl (\<lambda>acc k. xor_bytes acc (shuffle_stream P k)) acc (take i ks)"
proof (induction ks arbitrary: acc i)
  case Nil
  then show ?case by simp
next
  case (Cons k ks)
  then show ?case by (cases i) auto
qed

text \<open>The loop state after the iterations \<open>n - 1, \<dots>, j\<close>.\<close>

definition wrap_stage :: "prims \<Rightarrow> (nat \<Rightarrow> byte) \<Rightarrow> byte \<Rightarrow> bytes list \<Rightarrow> hop_subkeys list
    \<Rightarrow> routing_record list \<Rightarrow> bytes \<Rightarrow> nat \<Rightarrow> bytes \<times> bytes" where
  "wrap_stage P rng mode alphas ks records trailer j =
     foldr (wrap_step P mode alphas ks records trailer
              (prefix_accs (replicate (BETA_LEN + TRAILER_LEN) 0) (map (shuffle_stream P) ks)))
       [j..<length ks] (arr BETA_LEN rng, replicate GAMMA_LEN 0)"

definition slot_bytes_at :: "prims \<Rightarrow> hop_subkeys list \<Rightarrow> routing_record list \<Rightarrow> nat \<Rightarrow> bytes \<Rightarrow> bytes" where
  "slot_bytes_at P ks records i ng =
     xor_bytes (xor_bytes (record_encode ((records ! i)\<lparr>next_gamma := ng\<rparr>))
       (chacha20_stream P (k_header (ks ! i)) RECORD_LEN))
       (slice (i * RECORD_LEN) (i * RECORD_LEN + RECORD_LEN) (prefix_at P ks i))"

lemma wrap_stage_end: "wrap_stage P rng m as ks rs t (length ks) = (arr BETA_LEN rng, replicate GAMMA_LEN 0)"
  by (simp add: wrap_stage_def)

lemma wrap_stage_step:
  assumes "j < length ks" "wrap_stage P rng m as ks rs t (Suc j) = (beta, ng)"
  shows "wrap_stage P rng m as ks rs t j =
    (let beta' = splice (j * RECORD_LEN) (slot_bytes_at P ks rs j ng) beta
     in (beta', poly1305_tag P (k_mac (ks ! j)) (mac_input_for_slot
          (seen_header m (length ks) j (as ! j) beta' (prefix_at P ks j) (replicate GAMMA_LEN 0) t) j)))"
proof -
  have pre: "prefix_accs (replicate (BETA_LEN + TRAILER_LEN) 0) (map (shuffle_stream P) ks) ! j
      = prefix_at P ks j"
    using assms(1) by (simp add: nth_prefix_accs prefix_at_def)
  have "[j..<length ks] = j # [Suc j..<length ks]" using assms(1) by (rule upt_conv_Cons)
  with assms(2) show ?thesis
    by (simp add: wrap_stage_def wrap_step_def slot_bytes_at_def pre Let_def)
qed

lemma wf_record_gamma: "wf_record r \<Longrightarrow> length g = GAMMA_LEN \<Longrightarrow> wf_record (r\<lparr>next_gamma := g\<rparr>)"
  by (simp add: wf_record_def)

lemma length_slot_bytes_at:
  assumes "i < MAX_HOPS" "wf_record (rs ! i)" "length ng = GAMMA_LEN"
  shows "length (slot_bytes_at P ks rs i ng) = RECORD_LEN"
  using assms length_record_encode [OF wf_record_gamma [OF assms(2,3)]]
  by (simp add: slot_bytes_at_def length_slice record_lens)

lemma wrap_stage_lengths:
  assumes "length ks \<le> MAX_HOPS" "\<forall>i < length ks. wf_record (rs ! i)" "j \<le> length ks"
  shows "length (fst (wrap_stage P rng m as ks rs t j)) = BETA_LEN
    \<and> length (snd (wrap_stage P rng m as ks rs t j)) = GAMMA_LEN"
  using assms(3)
proof (induction j rule: inc_induct)
  case base
  then show ?case by (simp add: wrap_stage_end)
next
  case (step j)
  obtain beta ng where st: "wrap_stage P rng m as ks rs t (Suc j) = (beta, ng)" by force
  with step have len: "length beta = BETA_LEN" "length ng = GAMMA_LEN" by simp_all
  have j: "j < MAX_HOPS" using step assms(1) by simp
  have "length (slot_bytes_at P ks rs j ng) = RECORD_LEN"
    using j assms(2) step(2) len(2) by (simp add: length_slot_bytes_at)
  moreover have "j * RECORD_LEN + RECORD_LEN \<le> BETA_LEN" using j by (simp add: record_lens)
  ultimately show ?case
    using wrap_stage_step [OF step(2) st] len by (simp add: Let_def length_splice)
qed

text \<open>Later iterations only write the slots before: a slot is final once it is written.\<close>

lemma wrap_stage_drop:
  assumes "length ks \<le> MAX_HOPS" "\<forall>i < length ks. wf_record (rs ! i)" "j \<le> i" "i \<le> length ks"
  shows "drop (i * RECORD_LEN) (fst (wrap_stage P rng m as ks rs t j)) =
    drop (i * RECORD_LEN) (fst (wrap_stage P rng m as ks rs t i))"
  using assms(3)
proof (induction j rule: inc_induct)
  case base
  then show ?case by simp
next
  case (step j)
  have j: "j < length ks" using step assms(4) by simp
  obtain beta ng where st: "wrap_stage P rng m as ks rs t (Suc j) = (beta, ng)" by force
  have len: "length beta = BETA_LEN" "length ng = GAMMA_LEN"
    using wrap_stage_lengths [OF assms(1,2), of "Suc j" P rng m as t] j st by (simp_all add: Suc_le_eq)
  have sl: "length (slot_bytes_at P ks rs j ng) = RECORD_LEN"
    using j assms(1,2) len(2) by (simp add: length_slot_bytes_at)
  have "j * RECORD_LEN + RECORD_LEN \<le> i * RECORD_LEN" "j * RECORD_LEN + RECORD_LEN \<le> BETA_LEN"
    using step(2) j assms(1) by (simp_all add: record_lens)
  then have "drop (i * RECORD_LEN) (fst (wrap_stage P rng m as ks rs t j)) = drop (i * RECORD_LEN) beta"
    using wrap_stage_step [OF j st] sl len by (simp add: Let_def drop_splice)
  with step.IH st show ?case by simp
qed

text \<open>The header hop \<open>i\<close> receives, given the finished block \<open>beta\<close> and the MACs.\<close>

definition hop_view :: "prims \<Rightarrow> (nat \<Rightarrow> byte) \<Rightarrow> byte \<Rightarrow> bytes list \<Rightarrow> hop_subkeys list
    \<Rightarrow> routing_record list \<Rightarrow> bytes \<Rightarrow> nat \<Rightarrow> bytes \<Rightarrow> header" where
  "hop_view P rng m as ks rs t i alpha =
     seen_header m (length ks) i alpha (fst (wrap_stage P rng m as ks rs t 0)) (prefix_at P ks i)
       (snd (wrap_stage P rng m as ks rs t i)) t"

lemma mac_input_seen:
  assumes "drop (i * RECORD_LEN) beta = drop (i * RECORD_LEN) beta'"
  shows "mac_input_for_slot (seen_header m n i alpha beta pre g t) i
    = mac_input_for_slot (seen_header m n i alpha beta' pre g' t) i"
  using assms by (simp add: mac_input_for_slot_def seen_header_def VERSION_def drop_xor_bytes)

lemma unat_small: "i \<le> MAX_HOPS \<Longrightarrow> unat (word_of_nat i :: byte) = i"
  by (simp add: record_lens unat_of_nat)

lemma slice_drop_eq:
  "drop a xs = drop a ys \<Longrightarrow> slice a b xs = slice a b ys"
  by (simp add: slice_def)

lemma wrap_header_eq:
  assumes "wrap_header P rng m as ks rs t = Inr h"
  shows "h = hop_view P rng m as ks rs t 0 (as ! 0)\<lparr>htrailer := t,
      hbeta := fst (wrap_stage P rng m as ks rs t 0)\<rparr>"
    and "ks \<noteq> []" "length ks \<le> MAX_HOPS" "length as = length ks" "length rs = length ks"
  using assms
  by (auto simp: wrap_header_def hop_view_def seen_header_def wrap_stage_def Let_def
      split: if_splits prod.splits)

lemma hop_view_slot:
  assumes "length ks \<le> MAX_HOPS" "\<forall>i < length ks. wf_record (rs ! i)" "i < length ks"
  shows "xor_bytes (slice (i * RECORD_LEN) (i * RECORD_LEN + RECORD_LEN)
            (hbeta (hop_view P rng m as ks rs t i alpha)))
          (chacha20_stream P (k_header (ks ! i)) RECORD_LEN)
       = record_encode ((rs ! i)\<lparr>next_gamma := snd (wrap_stage P rng m as ks rs t (Suc i))\<rparr>)"
    (is "xor_bytes (slice ?a ?b _) ?ks = ?rec")
proof -
  obtain beta ng where st: "wrap_stage P rng m as ks rs t (Suc i) = (beta, ng)" by force
  have len: "length beta = BETA_LEN" "length ng = GAMMA_LEN"
    using wrap_stage_lengths [OF assms(1,2), of "Suc i" P rng m as t] assms(3) st
    by (simp_all add: Suc_le_eq)
  have i: "i < MAX_HOPS" using assms by simp
  have sl: "length (slot_bytes_at P ks rs i ng) = RECORD_LEN"
    using i assms len(2) by (simp add: length_slot_bytes_at)
  have b: "?a + RECORD_LEN \<le> BETA_LEN" using i by (simp add: record_lens)
  have "slice ?a ?b (fst (wrap_stage P rng m as ks rs t 0)) =
        slice ?a ?b (fst (wrap_stage P rng m as ks rs t i))"
    by (rule slice_drop_eq, rule wrap_stage_drop) (use assms in auto)
  also have "\<dots> = slot_bytes_at P ks rs i ng"
    using wrap_stage_step [OF assms(3) st] sl len b by (simp add: Let_def slice_splice_same)
  finally have slot: "slice ?a ?b (fst (wrap_stage P rng m as ks rs t 0)) = slot_bytes_at P ks rs i ng" .
  have r: "length (record_encode ((rs ! i)\<lparr>next_gamma := ng\<rparr>)) = RECORD_LEN"
    by (rule length_record_encode, rule wf_record_gamma) (use assms len in auto)
  have p: "length (slice ?a ?b (prefix_at P ks i)) = RECORD_LEN" using b by (simp add: length_slice record_lens)
  have "xor_bytes (slot_bytes_at P ks rs i ng) (slice ?a ?b (prefix_at P ks i)) =
      xor_bytes (record_encode ((rs ! i)\<lparr>next_gamma := ng\<rparr>)) ?ks"
    using r p by (simp add: slot_bytes_at_def xor_bytes_cancel)
  then have "xor_bytes (xor_bytes (slot_bytes_at P ks rs i ng) (slice ?a ?b (prefix_at P ks i))) ?ks = ?rec"
    using r st by (simp add: xor_bytes_cancel)
  then show ?thesis by (simp add: hop_view_def seen_header_def slice_xor_bytes slot)
qed

lemma hop_view_mac:
  assumes "length ks \<le> MAX_HOPS" "\<forall>i < length ks. wf_record (rs ! i)" "i < length ks"
  shows "poly1305_tag P (k_mac (ks ! i)) (mac_input_for_slot (hop_view P rng m as ks rs t i (as ! i)) i)
    = snd (wrap_stage P rng m as ks rs t i)"
proof -
  obtain beta ng where st: "wrap_stage P rng m as ks rs t (Suc i) = (beta, ng)" by force
  define beta' where "beta' = splice (i * RECORD_LEN) (slot_bytes_at P ks rs i ng) beta"
  have stage: "wrap_stage P rng m as ks rs t i = (beta', poly1305_tag P (k_mac (ks ! i))
      (mac_input_for_slot (seen_header m (length ks) i (as ! i) beta' (prefix_at P ks i)
         (replicate GAMMA_LEN 0) t) i))"
    using wrap_stage_step [OF assms(3) st] by (simp add: beta'_def Let_def)
  have "drop (i * RECORD_LEN) (fst (wrap_stage P rng m as ks rs t 0)) = drop (i * RECORD_LEN) beta'"
    using wrap_stage_drop [OF assms(1,2), of 0 i P rng m as t] assms(3) stage by simp
  then have "mac_input_for_slot (hop_view P rng m as ks rs t i (as ! i)) i =
      mac_input_for_slot (seen_header m (length ks) i (as ! i) beta' (prefix_at P ks i)
         (replicate GAMMA_LEN 0) t) i"
    unfolding hop_view_def by (rule mac_input_seen)
  then show ?thesis by (simp add: stage)
qed

lemma byte_Suc_small: "i < MAX_HOPS \<Longrightarrow> (word_of_nat i :: byte) \<noteq> 255 \<and> word_of_nat i + 1 = (word_of_nat (Suc i) :: byte)"
proof -
  assume "i < MAX_HOPS"
  then have "unat (word_of_nat i :: byte) = i" by (simp add: unat_small)
  moreover have "unat (255 :: byte) = 255" by simp
  ultimately have "(word_of_nat i :: byte) \<noteq> 255" using \<open>i < MAX_HOPS\<close> by (auto simp: record_lens)
  then show ?thesis by (simp add: add.commute)
qed

text \<open>One hop: the relay with the keys of hop \<open>i\<close> accepts, reads its record, and forwards the view of the next hop.\<close>

lemma unwrap_hop_view:
  assumes "length ks \<le> MAX_HOPS" "\<forall>i < length ks. wf_record (rs ! i)" "i < length ks"
    "length t = TRAILER_LEN"
  shows "unwrap_header P (hop_view P rng m as ks rs t i (as ! i)) (ks ! i) =
    Inr \<lparr>out_record = (rs ! i)\<lparr>next_gamma := snd (wrap_stage P rng m as ks rs t (Suc i))\<rparr>,
         out_next_header = hop_view P rng m as ks rs t (Suc i) (blind_alpha P (as ! i) (k_blind (ks ! i)))\<rparr>"
proof -
  let ?h = "hop_view P rng m as ks rs t i (as ! i)"
  let ?B = "fst (wrap_stage P rng m as ks rs t 0)"
  let ?g = "snd (wrap_stage P rng m as ks rs t (Suc i))"
  have small: "unat (hop_index ?h) = i" "unat (hop_count ?h) = length ks"
    using assms by (simp_all add: hop_view_def seen_header_def unat_small)
  have mac: "poly1305_tag P (k_mac (ks ! i)) (mac_input_for_slot ?h i) = hgamma ?h"
    using hop_view_mac [OF assms(1-3)] by (simp add: hop_view_def seen_header_def)
  have g: "length ?g = GAMMA_LEN"
    using wrap_stage_lengths [OF assms(1,2), of "Suc i"] assms(3) by (simp add: Suc_le_eq)
  have rec: "record_decode (xor_bytes (slice (i * RECORD_LEN) (i * RECORD_LEN + RECORD_LEN) (hbeta ?h))
      (chacha20_stream P (k_header (ks ! i)) RECORD_LEN)) = (rs ! i)\<lparr>next_gamma := ?g\<rparr>"
    unfolding hop_view_slot [OF assms(1-3)]
    by (rule record_decode_encode, rule wf_record_gamma) (use assms g in auto)
  have lenB: "length ?B = BETA_LEN" using wrap_stage_lengths [OF assms(1,2), of 0] by simp
  have beta: "xor_bytes (hbeta ?h) (shuffle_stream P (ks ! i)) = xor_bytes ?B (prefix_at P ks (Suc i))"
    using assms(3) by (simp add: hop_view_def seen_header_def prefix_at_Suc xor_bytes_assoc)
  have trailer: "xor_bytes (htrailer ?h) (drop BETA_LEN (shuffle_stream P (ks ! i))) =
      xor_bytes t (drop BETA_LEN (prefix_at P ks (Suc i)))"
    using assms(3) by (simp add: hop_view_def seen_header_def prefix_at_Suc xor_bytes_assoc drop_xor_bytes)
  have idx: "hop_index ?h \<noteq> 255" "hop_index ?h + 1 = word_of_nat (Suc i)"
    using byte_Suc_small [of i] assms by (simp_all add: hop_view_def seen_header_def)
  have meta: "hversion ?h = VERSION" "hmode ?h = m" "hop_count ?h = word_of_nat (length ks)" "halpha ?h = as ! i"
    by (simp_all add: hop_view_def seen_header_def)
  show ?thesis
    using assms(1,3) small mac rec beta trailer idx meta
    by (simp add: unwrap_header_def Let_def hop_view_def [of _ _ _ _ _ _ _ "Suc i"] seen_header_def)
qed

text \<open>The blinding chain: each relay's re-blinded \<open>alpha\<close> is the one the sender computed for the next hop.\<close>

definition blind_chain :: "prims \<Rightarrow> bytes list \<Rightarrow> hop_subkeys list \<Rightarrow> bool" where
  "blind_chain P as ks \<longleftrightarrow>
     (\<forall>i. Suc i < length ks \<longrightarrow> blind_alpha P (as ! i) (k_blind (ks ! i)) = as ! Suc i)"

definition forget_gamma :: "routing_record \<Rightarrow> routing_record" where
  "forget_gamma r = r\<lparr>next_gamma := replicate GAMMA_LEN 0\<rparr>"

lemma unwrap_path_view:
  assumes "length ks \<le> MAX_HOPS" "\<forall>i < length ks. wf_record (rs ! i)" "length t = TRAILER_LEN"
    "blind_chain P as ks" "i < length ks"
  shows "unwrap_path P (drop i ks) (hop_view P rng m as ks rs t i (as ! i)) =
    Inr (map (\<lambda>j. (rs ! j)\<lparr>next_gamma := snd (wrap_stage P rng m as ks rs t (Suc j))\<rparr>) [i..<length ks])"
  using assms(5)
proof (induction "length ks - i" arbitrary: i)
  case 0
  then show ?case by simp
next
  case (Suc d)
  have ks: "drop i ks = ks ! i # drop (Suc i) ks" using Suc(3) by (rule Cons_nth_drop_Suc [symmetric])
  have upt: "[i..<length ks] = i # [Suc i..<length ks]" using Suc(3) by (rule upt_conv_Cons)
  note hop = unwrap_hop_view [OF assms(1,2) Suc(3) assms(3), of P rng m as]
  show ?case
  proof (cases "Suc i < length ks")
    case True
    have "blind_alpha P (as ! i) (k_blind (ks ! i)) = as ! Suc i"
      using assms(4) True by (simp add: blind_chain_def)
    with hop Suc(1) [of "Suc i"] Suc(2) True show ?thesis by (simp add: ks upt)
  next
    case False
    with hop show ?thesis by (simp add: ks upt)
  qed
qed

lemma hop_view_zero:
  assumes "length ks \<le> MAX_HOPS" "\<forall>i < length ks. wf_record (rs ! i)" "length t = TRAILER_LEN"
  shows "hop_view P rng m as ks rs t 0 alpha =
    \<lparr>hversion = VERSION, hmode = m, hop_count = word_of_nat (length ks), hop_index = 0, halpha = alpha,
     hbeta = fst (wrap_stage P rng m as ks rs t 0), hgamma = snd (wrap_stage P rng m as ks rs t 0),
     htrailer = t\<rparr>"
  using wrap_stage_lengths [OF assms(1,2), of 0 P rng m as t] assms(3)
  by (simp add: hop_view_def seen_header_def xor_bytes_zero)

lemma wrap_header_view:
  assumes "wrap_header P rng m as ks rs t = Inr h" "\<forall>r \<in> set rs. wf_record r" "length t = TRAILER_LEN"
  shows "h = hop_view P rng m as ks rs t 0 (as ! 0)"
    and "length ks \<le> MAX_HOPS" "\<forall>i < length ks. wf_record (rs ! i)" "ks \<noteq> []" "length rs = length ks"
proof -
  note w = wrap_header_eq [OF assms(1)]
  show 1: "length ks \<le> MAX_HOPS" "ks \<noteq> []" "length rs = length ks" using w by simp_all
  show 2: "\<forall>i < length ks. wf_record (rs ! i)" using assms(2) w(5) by auto
  show "h = hop_view P rng m as ks rs t 0 (as ! 0)"
    using w(1) hop_view_zero [OF 1(1) 2 assms(3), of P rng m as "as ! 0"] by simp
qed

lemma wrap_header_total:
  assumes "ks \<noteq> []" "length ks \<le> MAX_HOPS" "length as = length ks" "length rs = length ks"
  shows "\<exists>h. wrap_header P rng m as ks rs t = Inr h"
  using assms by (simp add: wrap_header_def Let_def case_prod_beta not_less)


section \<open>The route secrets are the relays' secrets\<close>

text \<open>
  What is documented of the group: scalars of the prime-order subgroup commute, act on the
  multiples of the base point, those multiples survive their 32-byte form, and \<open>x25519\<close> is
  multiplication by the clamped secret.
\<close>

definition curve_ok :: "prims \<Rightarrow> ('s, 'p) curve \<Rightarrow> bool" where
  "curve_ok P C \<longleftrightarrow>
     (\<forall>s t. scalar_mul C s t = scalar_mul C t s)
     \<and> (\<forall>s t. point_mul C s (point_mul C t (basepoint C)) = point_mul C (scalar_mul C s t) (basepoint C))
     \<and> (\<forall>s. point_from C (point_to_bytes C (point_mul C s (basepoint C))) = point_mul C s (basepoint C))
     \<and> (\<forall>k s. length k = 32 \<longrightarrow> x25519 P k (point_to_bytes C (point_mul C s (basepoint C))) =
          point_to_bytes C (point_mul C (scalar_from_bytes_mod_order C (clamp_scalar k))
            (point_mul C s (basepoint C))))
     \<and> (\<forall>k. length k = 32 \<longrightarrow> x25519 P k x25519_base =
          point_to_bytes C (point_mul C (scalar_from_bytes_mod_order C (clamp_scalar k)) (basepoint C)))"

lemma derive_hop_subkeys_len: "derive_hop_subkeys P x = Inr k \<Longrightarrow> length (k_blind k) = 32 \<and> length (k_payload k) = 32"
  by (auto simp: derive_hop_subkeys_def Let_def length_slice split: if_splits option.splits)

lemma shared_secret_agrees:
  assumes "curve_ok P C" "length sk = 32"
  shows "x25519 P sk (point_to_bytes C (point_mul C s (basepoint C))) =
    point_to_bytes C (point_mul C s (point_from C (x25519 P sk x25519_base)))"
  using assms unfolding curve_ok_def by metis

lemma route_loop_secrets:
  assumes "curve_ok P C" "\<forall>sk \<in> set sks. length sk = 32"
    "route_loop P C s (point_mul C s (basepoint C)) (map (\<lambda>sk. x25519 P sk x25519_base) sks) = Inr (as, ks)"
  shows "length as = length sks \<and> length ks = length sks \<and> blind_chain P as ks
    \<and> (sks \<noteq> [] \<longrightarrow> as ! 0 = point_to_bytes C (point_mul C s (basepoint C)))
    \<and> (\<forall>i < length sks. derive_hop_subkeys P (x25519 P (sks ! i) (as ! i)) = Inr (ks ! i))"
  using assms(2,3)
proof (induction sks arbitrary: s as ks)
  case Nil
  then show ?case by (simp add: blind_chain_def)
next
  case (Cons sk rest)
  let ?A = "point_to_bytes C (point_mul C s (basepoint C))"
  have shared: "x25519 P sk ?A = point_to_bytes C (point_mul C s (point_from C (x25519 P sk x25519_base)))"
    using shared_secret_agrees [OF assms(1)] Cons.prems(1) by simp
  from Cons.prems(2) obtain sub where sub: "derive_hop_subkeys P (x25519 P sk ?A) = Inr sub"
    by (auto simp: shared Let_def split: sum.splits if_splits)
  let ?b = "scalar_from_bytes_mod_order C (clamp_scalar (k_blind sub))"
  show ?case
  proof (cases "rest = []")
    case True
    with Cons.prems(2) sub show ?thesis
      by (auto simp: shared Let_def blind_chain_def split: sum.splits if_splits)
  next
    case False
    let ?s' = "scalar_mul C s ?b"
    have pt: "point_mul C ?b (point_mul C s (basepoint C)) = point_mul C ?s' (basepoint C)"
      using assms(1) unfolding curve_ok_def by metis
    have ne: "map (\<lambda>sk. x25519 P sk x25519_base) rest \<noteq> []" using False by simp
    from Cons.prems(2) sub ne obtain as' ks' where
      rec: "route_loop P C ?s' (point_mul C ?s' (basepoint C)) (map (\<lambda>sk. x25519 P sk x25519_base) rest) = Inr (as', ks')"
      and asks: "as = ?A # as'" "ks = sub # ks'"
      by (auto simp: shared pt Let_def False split: sum.splits if_splits)
    note IH = Cons.IH [OF _ rec]
    have blind: "blind_alpha P ?A (k_blind sub) = point_to_bytes C (point_mul C ?s' (basepoint C))"
      using assms(1) derive_hop_subkeys_len [OF sub] pt unfolding curve_ok_def blind_alpha_def by metis
    have IH': "length as' = length rest" "length ks' = length rest" "blind_chain P as' ks'"
      "as' ! 0 = point_to_bytes C (point_mul C ?s' (basepoint C))"
      "\<forall>i < length rest. derive_hop_subkeys P (x25519 P (rest ! i) (as' ! i)) = Inr (ks' ! i)"
      using IH Cons.prems(1) False by simp_all
    have "blind_chain P as ks"
      unfolding blind_chain_def
    proof (intro allI impI)
      fix i assume "Suc i < length ks"
      then show "blind_alpha P (as ! i) (k_blind (ks ! i)) = as ! Suc i"
        using IH'(3,4) blind by (cases i) (auto simp: asks blind_chain_def)
    qed
    moreover have "\<forall>i < length (sk # rest). derive_hop_subkeys P (x25519 P ((sk # rest) ! i) (as ! i)) = Inr (ks ! i)"
      using IH'(5) sub by (auto simp: asks less_Suc_eq_0_disj)
    ultimately show ?thesis using IH'(1,2) asks by simp
  qed
qed

text \<open>
  C30: the secrets \<open>derive_route_secrets\<close> gives the sender for relays with genuine X25519 keys
  are the ones the relays derive: the relay at hop \<open>i\<close> computes the sender's sub-keys from the
  \<open>alpha\<close> it sees, and blinding that \<open>alpha\<close> gives the one of hop \<open>i + 1\<close>.
\<close>

theorem route_secrets_agree:
  assumes "curve_ok P C" and "\<forall>sk \<in> set sks. length sk = 32"
    and "derive_route_secrets P C rng (map (\<lambda>sk. x25519 P sk x25519_base) sks) = Inr (alphas, sub_keys)"
  shows "length alphas = length sks \<and> length sub_keys = length sks \<and> blind_chain P alphas sub_keys
    \<and> (\<forall>i < length sks. derive_hop_subkeys P (x25519 P (sks ! i) (alphas ! i)) = Inr (sub_keys ! i))"
proof -
  have "route_loop P C (scalar_from_bytes_mod_order C (clamp_scalar (arr 32 rng)))
      (point_mul C (scalar_from_bytes_mod_order C (clamp_scalar (arr 32 rng))) (basepoint C))
      (map (\<lambda>sk. x25519 P sk x25519_base) sks) = Inr (alphas, sub_keys)"
    using assms(3) by (auto simp: derive_route_secrets_def Let_def split: if_splits)
  from route_loop_secrets [OF assms(1,2) this] show ?thesis by blast
qed

subsection \<open>A concrete route\<close>

definition demo_curve :: "(byte, byte) curve" where
  "demo_curve = \<lparr>scalar_from_bytes_mod_order = byte0, scalar_mul = (+), basepoint = 9,
     point_mul = (+), point_from = byte0, point_bytes = (\<lambda>p i. if i = 0 then p else 1),
     point_mul8 = (\<lambda>p. p)\<rparr>"

lemma demo_point: "point_to_bytes demo_curve p = p # replicate 31 1"
  by (rule nth_equalityI) (auto simp: point_to_bytes_def arr_def demo_curve_def record_lens nth_Cons')

lemma demo_x25519: "x25519 demo_prims k u = ((byte0 k AND 248) + byte0 u) # replicate 31 1"
  by (rule nth_equalityI) (auto simp: x25519_def arr_def demo_prims_def nth_Cons')

lemma byte0_clamp: "length k = 32 \<Longrightarrow> byte0 (clamp_scalar k) = byte0 k AND 248"
  by (cases k) (simp_all add: clamp_scalar_def byte0_def)

lemma byte0_simps [simp]: "byte0 (x # xs) = x" "byte0 x25519_base = 9"
  by (simp_all add: byte0_def x25519_base_def)

lemma demo_curve_ok: "curve_ok demo_prims demo_curve"
  unfolding curve_ok_def demo_point demo_x25519
  by (simp add: demo_curve_def byte0_clamp ac_simps)

lemma foldl_or_ne0: "acc \<noteq> (0 :: byte) \<Longrightarrow> foldl (OR) acc xs \<noteq> 0"
  by (induction xs arbitrary: acc) (auto simp: word_or_eq_0)

lemma demo_subkeys: "\<exists>k. derive_hop_subkeys demo_prims (x # replicate 31 1) = Inr k"
proof -
  have "foldl (OR) 0 (x # replicate 31 1) \<noteq> (0 :: byte)"
    using foldl_or_ne0 [of "x OR 1" "replicate 30 1"]
    by (simp add: word_or_eq_0 numeral_eq_Suc)
  then show ?thesis by (simp add: derive_hop_subkeys_def demo_prims_def Let_def)
qed

lemma demo_route_loop: "\<exists>as ks. route_loop demo_prims demo_curve s A pks = Inr (as, ks)"
proof (induction pks arbitrary: s A)
  case Nil
  then show ?case by simp
next
  case (Cons pk pks)
  obtain k where k: "derive_hop_subkeys demo_prims (point_to_bytes demo_curve
      (point_mul demo_curve s (point_from demo_curve pk))) = Inr k"
    using demo_subkeys by (auto simp: demo_point)
  let ?b = "scalar_from_bytes_mod_order demo_curve (clamp_scalar (k_blind k))"
  obtain as ks where "route_loop demo_prims demo_curve
      (if pks = [] then s else scalar_mul demo_curve s ?b)
      (if pks = [] then A else point_mul demo_curve ?b A) pks = Inr (as, ks)"
    using Cons.IH by blast
  with k show ?case by (simp add: Let_def demo_point numeral_eq_Suc)
qed

definition demo_sks :: "bytes list" where
  "demo_sks = [replicate 32 8, replicate 32 16, replicate 32 24]"

lemma length_demo_sks: "length demo_sks = 3"
  by (simp add: demo_sks_def)

lemma demo_sks_len: "\<forall>sk \<in> set demo_sks. length sk = 32"
  by (simp add: demo_sks_def)

lemma demo_route:
  "\<exists>as ks. derive_route_secrets demo_prims demo_curve rng
     (map (\<lambda>sk. x25519 demo_prims sk x25519_base) demo_sks) = Inr (as, ks)"
  using demo_route_loop
  by (simp add: derive_route_secrets_def Let_def length_demo_sks record_lens del: route_loop.simps)

theorem route_secrets_agree_witness:
  "\<exists>as ks. derive_route_secrets demo_prims demo_curve (\<lambda>i. word_of_nat i)
      (map (\<lambda>sk. x25519 demo_prims sk x25519_base) demo_sks) = Inr (as, ks)
    \<and> length ks = 3 \<and> blind_chain demo_prims as ks"
proof -
  obtain as ks where r: "derive_route_secrets demo_prims demo_curve (\<lambda>i. word_of_nat i)
      (map (\<lambda>sk. x25519 demo_prims sk x25519_base) demo_sks) = Inr (as, ks)"
    using demo_route by blast
  from route_secrets_agree [OF demo_curve_ok demo_sks_len r] r show ?thesis
    by (auto simp: length_demo_sks)
qed


section \<open>What the MAC of a hop covers\<close>

text \<open>What a relay outputs once the range and MAC checks have passed.\<close>

definition unwrap_result :: "prims \<Rightarrow> header \<Rightarrow> hop_subkeys \<Rightarrow> unwrap_outcome" where
  "unwrap_result P h k =
     (let offset = unat (hop_index h) * RECORD_LEN;
          record = record_decode (xor_bytes (slice offset (offset + RECORD_LEN) (hbeta h))
            (chacha20_stream P (k_header k) RECORD_LEN))
      in \<lparr>out_record = record,
          out_next_header = h\<lparr>hop_index := (if hop_index h = 255 then 255 else hop_index h + 1),
            halpha := blind_alpha P (halpha h) (k_blind k),
            hbeta := xor_bytes (hbeta h) (shuffle_stream P k), hgamma := next_gamma record,
            htrailer := xor_bytes (htrailer h) (drop BETA_LEN (shuffle_stream P k))\<rparr>\<rparr>)"

lemma unwrap_header_Inr:
  "unwrap_header P h k = Inr out \<longleftrightarrow>
     unat (hop_index h) < unat (hop_count h) \<and> unat (hop_count h) \<le> MAX_HOPS
     \<and> poly1305_tag P (k_mac k) (mac_input_for_slot h (unat (hop_index h))) = hgamma h
     \<and> out = unwrap_result P h k"
  by (auto simp: unwrap_header_def unwrap_result_def Let_def not_le not_less)

lemma mac_input_v3_inj:
  assumes "mac_input_for_slot h i = mac_input_for_slot h' i" "hversion h = VERSION" "wf_header h" "wf_header h'"
    "hversion h' = VERSION"
  shows "hmode h = hmode h' \<and> hop_count h = hop_count h' \<and> halpha h = halpha h'
    \<and> drop (i * RECORD_LEN) (hbeta h) = drop (i * RECORD_LEN) (hbeta h') \<and> htrailer h = htrailer h'"
  using assms by (auto simp: mac_input_for_slot_def wf_header_def VERSION_def)

lemma unwrap_ok_mac:
  "unwrap_header P h k = Inr out \<Longrightarrow>
     poly1305_tag P (k_mac k) (mac_input_for_slot h (unat (hop_index h))) = hgamma h"
  by (simp add: unwrap_header_Inr)


text \<open>
  The legacy version 2 leaves later slots uncovered: for any version 2 header that is not at
  the last slot, changing a byte of a later slot of \<open>beta\<close> changes neither the relay's verdict
  nor the record it reads, and the change survives into the header it forwards.
\<close>

theorem legacy_header_is_taggable:
  assumes "hversion h = VERSION_LEGACY" and "wf_header h" and "unwrap_header P h k = Inr out"
    and "unat (hop_index h) * RECORD_LEN + RECORD_LEN \<le> p" and "p < BETA_LEN"
  shows "\<exists>out'. unwrap_header P (h\<lparr>hbeta := (hbeta h)[p := hbeta h ! p XOR d]\<rparr>) k = Inr out'
    \<and> out_record out' = out_record out
    \<and> hbeta (out_next_header out') ! p = hbeta (out_next_header out) ! p XOR d"
proof -
  let ?a = "unat (hop_index h) * RECORD_LEN"
  let ?h' = "h\<lparr>hbeta := (hbeta h)[p := hbeta h ! p XOR d]\<rparr>"
  have slot: "slice ?a (?a + RECORD_LEN) (hbeta ?h') = slice ?a (?a + RECORD_LEN) (hbeta h)"
    using assms(4) by (simp add: slice_def drop_update_swap take_update_cancel)
  have v: "\<not> 3 \<le> hversion h" using assms(1) by (simp add: VERSION_LEGACY_def)
  have mac: "mac_input_for_slot ?h' (unat (hop_index h)) = mac_input_for_slot h (unat (hop_index h))"
    using v slot by (simp add: mac_input_for_slot_def Let_def)
  have p: "p < length (hbeta h)" "p < length (shuffle_stream P k)"
    using assms(2,5) by (simp_all add: wf_header_def record_lens)
  have x: "(hbeta h ! p XOR d) XOR s = (hbeta h ! p XOR s) XOR d" for s
    by (simp only: xor.assoc xor.commute [of d])
  from assms(3) mac slot have "unwrap_header P ?h' k = Inr (unwrap_result P ?h' k)"
    and out: "out = unwrap_result P h k"
    by (simp_all add: unwrap_header_Inr)
  moreover have "out_record (unwrap_result P ?h' k) = out_record (unwrap_result P h k)"
    using slot by (simp add: unwrap_result_def Let_def)
  moreover have "hbeta (out_next_header (unwrap_result P ?h' k)) ! p =
      hbeta (out_next_header (unwrap_result P h k)) ! p XOR d"
    using p by (simp add: unwrap_result_def Let_def x)
  ultimately show ?thesis by (simp add: out)
qed

definition demo_keys :: hop_subkeys where
  "demo_keys = \<lparr>k_mac = [1], k_header = [2], k_payload = [3], k_blind = [4], k_shuffle = [5]\<rparr>"

definition demo_sealed :: "byte \<Rightarrow> header" where
  "demo_sealed v = demo_header\<lparr>hversion := v,
     hgamma := poly1305_tag demo_prims (k_mac demo_keys) (mac_input_for_slot (demo_header\<lparr>hversion := v\<rparr>) 1)\<rparr>"

lemma demo_sealed_props:
  "wf_header (demo_sealed v)" "hversion (demo_sealed v) = v" "unat (hop_index (demo_sealed v)) = 1"
  "unwrap_header demo_prims (demo_sealed v) demo_keys = Inr (unwrap_result demo_prims (demo_sealed v) demo_keys)"
proof -
  have mac: "mac_input_for_slot (demo_sealed v) i = mac_input_for_slot (demo_header\<lparr>hversion := v\<rparr>) i" for i
    by (simp add: mac_input_for_slot_def demo_sealed_def Let_def)
  show "wf_header (demo_sealed v)" "hversion (demo_sealed v) = v" "unat (hop_index (demo_sealed v)) = 1"
    by (simp_all add: demo_sealed_def demo_header_def wf_header_def record_lens)
  show "unwrap_header demo_prims (demo_sealed v) demo_keys = Inr (unwrap_result demo_prims (demo_sealed v) demo_keys)"
    unfolding unwrap_header_Inr mac by (simp add: demo_sealed_def demo_header_def record_lens)
qed


theorem legacy_header_is_taggable_witness:
  "\<exists>out'. unwrap_header demo_prims ((demo_sealed VERSION_LEGACY)\<lparr>hbeta :=
      (hbeta (demo_sealed VERSION_LEGACY))[200 := hbeta (demo_sealed VERSION_LEGACY) ! 200 XOR 64]\<rparr>) demo_keys = Inr out'"
  using legacy_header_is_taggable [OF demo_sealed_props(2,1,4), of 200 64]
  by (auto simp: demo_sealed_props(3) record_lens)

end
