(* ===== verification/Lioness.thy ===== *)
theory Lioness
  imports Primitives
begin

text \<open>
  The wide-block cipher of the payload, crypto-gotham/src/lioness.rs: four Feistel rounds over
  a 32-byte left part and the rest of the block. The block is changed in place in the source;
  here the function returns the new block. The locale states what the packet layer relies on,
  and its lemmas are the onion facts of the client and of the reply blocks.
\<close>

definition L_LEN :: nat where "L_LEN = 32"
definition MIN_BLOCK :: nat where "MIN_BLOCK = L_LEN + 1"

record round_keys =
  rk1 :: bytes
  rk2 :: bytes
  rk3 :: bytes
  rk4 :: bytes

definition mk_round_keys :: "prims \<Rightarrow> bytes \<Rightarrow> round_keys" where
  "mk_round_keys P key = \<lparr>
     rk1 = arr 32 (blake3_derive_key P ''gotham-lioness-v1 round-key 1'' key),
     rk2 = arr 32 (blake3_derive_key P ''gotham-lioness-v1 round-key 2'' key),
     rk3 = arr 32 (blake3_derive_key P ''gotham-lioness-v1 round-key 3'' key),
     rk4 = arr 32 (blake3_derive_key P ''gotham-lioness-v1 round-key 4'' key)\<rparr>"

definition stream_xor :: "prims \<Rightarrow> bytes \<Rightarrow> bytes \<Rightarrow> bytes" where
  "stream_xor P seed dst = xor_bytes dst (arr (length dst) (chacha20 P seed))"

definition hash_into_l :: "prims \<Rightarrow> bytes \<Rightarrow> bytes \<Rightarrow> bytes \<Rightarrow> bytes" where
  "hash_into_l P k r l = xor_bytes l (arr L_LEN (blake3_keyed P k r))"

definition seed_from :: "bytes \<Rightarrow> bytes \<Rightarrow> bytes" where
  "seed_from l k = xor_bytes l k"

definition lioness_encrypt :: "prims \<Rightarrow> bytes \<Rightarrow> bytes \<Rightarrow> bytes" where
  "lioness_encrypt P key block =
     (if length block < MIN_BLOCK then replicate (length block) 0
      else let rk = mk_round_keys P key;
               l0 = take L_LEN block; r0 = drop L_LEN block;
               r1 = stream_xor P (seed_from l0 (rk1 rk)) r0;
               l1 = hash_into_l P (rk2 rk) r1 l0;
               r2 = stream_xor P (seed_from l1 (rk3 rk)) r1;
               l2 = hash_into_l P (rk4 rk) r2 l1
           in l2 @ r2)"

definition lioness_decrypt :: "prims \<Rightarrow> bytes \<Rightarrow> bytes \<Rightarrow> bytes" where
  "lioness_decrypt P key block =
     (if length block < MIN_BLOCK then replicate (length block) 0
      else let rk = mk_round_keys P key;
               l2 = take L_LEN block; r2 = drop L_LEN block;
               l1 = hash_into_l P (rk4 rk) r2 l2;
               r1 = stream_xor P (seed_from l1 (rk3 rk)) r2;
               l0 = hash_into_l P (rk2 rk) r1 l1;
               r0 = stream_xor P (seed_from l0 (rk1 rk)) r1
           in l0 @ r0)"

section \<open>The contract of a wide-block cipher\<close>

locale wide_block =
  fixes enc :: "'k \<Rightarrow> bytes \<Rightarrow> bytes"
    and dec :: "'k \<Rightarrow> bytes \<Rightarrow> bytes"
    and min_len :: nat
  assumes dec_enc: "min_len \<le> length b \<Longrightarrow> dec k (enc k b) = b"
    and enc_dec: "min_len \<le> length b \<Longrightarrow> enc k (dec k b) = b"
    and length_enc: "length (enc k b) = length b"
    and length_dec: "length (dec k b) = length b"
begin

lemma length_layers: "length (foldr enc ks b) = length b"
  by (induction ks) (simp_all add: length_enc)

lemma length_peeled: "length (foldl (\<lambda>b k. dec k b) b ks) = length b"
  by (induction ks arbitrary: b) (simp_all add: length_dec)

text \<open>Layers added with the last key first are removed by decrypting in path order.\<close>

lemma peel_layers: "min_len \<le> length b \<Longrightarrow> foldl (\<lambda>b k. dec k b) (foldr enc ks b) ks = b"
proof (induction ks)
  case Nil
  then show ?case by simp
next
  case (Cons k ks)
  then have "dec k (enc k (foldr enc ks b)) = foldr enc ks b" by (simp add: dec_enc length_layers)
  with Cons show ?case by simp
qed

text \<open>A block the path decrypted hop by hop is recovered by re-encrypting in reverse order.\<close>

lemma restore_peeled: "min_len \<le> length b \<Longrightarrow> foldr enc ks (foldl (\<lambda>b k. dec k b) b ks) = b"
proof (induction ks arbitrary: b)
  case Nil
  then show ?case by simp
next
  case (Cons k ks)
  then have "foldr enc ks (foldl (\<lambda>b k. dec k b) (dec k b) ks) = dec k b" by (simp add: length_dec)
  with Cons.prems show ?case by (simp add: enc_dec)
qed

lemma enc_inj: "min_len \<le> length a \<Longrightarrow> min_len \<le> length b \<Longrightarrow> enc k a = enc k b \<Longrightarrow> a = b"
  by (metis dec_enc)

end

lemma length_stream_xor [simp]: "length (stream_xor P s d) = length d"
  by (simp add: stream_xor_def)

lemma length_hash_into_l [simp]: "length l = L_LEN \<Longrightarrow> length (hash_into_l P k r l) = L_LEN"
  by (simp add: hash_into_l_def)

lemma stream_xor_twice [simp]: "stream_xor P s (stream_xor P s d) = d"
  by (simp add: stream_xor_def xor_bytes_cancel)

lemma hash_into_l_twice [simp]: "length l = L_LEN \<Longrightarrow> hash_into_l P k r (hash_into_l P k r l) = l"
  by (simp add: hash_into_l_def xor_bytes_cancel)

lemma lioness_length:
  "length (lioness_encrypt P k b) = length b" "length (lioness_decrypt P k b) = length b"
  by (auto simp: lioness_encrypt_def lioness_decrypt_def Let_def MIN_BLOCK_def)

interpretation lio: wide_block "lioness_encrypt P" "lioness_decrypt P" MIN_BLOCK for P
proof
  fix b :: bytes and k :: bytes
  assume len: "MIN_BLOCK \<le> length b"
  then have l: "length (take L_LEN b) = L_LEN" by (simp add: MIN_BLOCK_def)
  with len show "lioness_decrypt P k (lioness_encrypt P k b) = b"
    by (simp add: lioness_encrypt_def lioness_decrypt_def Let_def MIN_BLOCK_def)
  from l len show "lioness_encrypt P k (lioness_decrypt P k b) = b"
    by (simp add: lioness_encrypt_def lioness_decrypt_def Let_def MIN_BLOCK_def)
qed (simp_all add: lioness_length)

text \<open>
  The payload cipher is a permutation of the blocks of each length of at least 33 bytes:
  decryption and encryption invert each other in both orders and keep the length. A shorter
  block, which no packet has, is overwritten with zeros by both.
\<close>

theorem lioness_permutation:
  "(MIN_BLOCK \<le> length b \<longrightarrow> lioness_decrypt P k (lioness_encrypt P k b) = b
       \<and> lioness_encrypt P k (lioness_decrypt P k b) = b)
   \<and> (length b < MIN_BLOCK \<longrightarrow> lioness_encrypt P k b = replicate (length b) 0
       \<and> lioness_decrypt P k b = replicate (length b) 0)
   \<and> length (lioness_encrypt P k b) = length b \<and> length (lioness_decrypt P k b) = length b"
  using lio.dec_enc [of b P k] lio.enc_dec [of b P k]
  by (simp add: lioness_length) (simp add: lioness_encrypt_def lioness_decrypt_def)

theorem lioness_permutation_witness:
  "lioness_decrypt demo_prims [1, 2] (lioness_encrypt demo_prims [1, 2] (replicate 40 7)) = replicate 40 7
   \<and> lioness_encrypt demo_prims [1, 2] [9, 9] = [0, 0]"
  using lioness_permutation [of "replicate 40 7" demo_prims "[1, 2]"]
    lioness_permutation [of "[9, 9]" demo_prims "[1, 2]"]
  by (simp add: MIN_BLOCK_def L_LEN_def numeral_eq_Suc)

end
