(* ===== verification/Replay_Cache.thy ===== *)
theory Replay_Cache
  imports Gotham_Prelude
begin

text \<open>
  The replay cache of a relay, crypto-gotham-relay/src/replay.rs: a hash map from MACs to the
  time they were first seen, with a queue in insertion order for expiry and eviction, and its
  persistent form. An \<open>Instant\<close> and a \<open>Duration\<close> are nanoseconds (\<open>nat\<close>); \<open>duration_since\<close>
  of a later instant is zero, as in the standard library. The clock readings are arguments.
\<close>

section \<open>State and operations\<close>

datatype replay_check = Fresh | Replayed

record replay_cache =
  rc_map :: "(bytes, nat) hashmap"
  rc_queue :: "(bytes \<times> nat) list"
  rc_ttl :: nat
  rc_max_size :: nat

definition NANOS :: nat where "NANOS = 1000000000"

definition duration_since :: "nat \<Rightarrow> nat \<Rightarrow> nat" where
  "duration_since now ts = now - ts"

definition as_secs :: "nat \<Rightarrow> nat" where
  "as_secs d = d div NANOS"

definition replay_new :: "nat \<Rightarrow> nat \<Rightarrow> replay_cache" where
  "replay_new max_size ttl = \<lparr>rc_map = [], rc_queue = [], rc_ttl = ttl, rc_max_size = max_size\<rparr>"

fun sweep_loop :: "nat \<Rightarrow> nat \<Rightarrow> (bytes, nat) hashmap \<Rightarrow> (bytes \<times> nat) list
    \<Rightarrow> (bytes, nat) hashmap \<times> (bytes \<times> nat) list" where
  "sweep_loop now ttl m [] = (m, [])"
| "sweep_loop now ttl m ((k, ts) # q) =
     (if ttl < duration_since now ts then sweep_loop now ttl (hm_remove k m) q else (m, (k, ts) # q))"

definition sweep_expired :: "replay_cache \<Rightarrow> nat \<Rightarrow> replay_cache" where
  "sweep_expired c now =
     (let (m, q) = sweep_loop now (rc_ttl c) (rc_map c) (rc_queue c)
      in c\<lparr>rc_map := m, rc_queue := q\<rparr>)"

definition check_and_insert_at :: "replay_cache \<Rightarrow> bytes \<Rightarrow> nat \<Rightarrow> replay_check \<times> replay_cache" where
  "check_and_insert_at c0 key now =
     (let c = sweep_expired c0 now
      in if hm_contains (rc_map c) key then (Replayed, c)
         else let c1 = (if rc_max_size c \<le> length (rc_map c)
                        then case rc_queue c of
                               [] \<Rightarrow> c
                             | (old_k, _) # q \<Rightarrow> c\<lparr>rc_map := hm_remove old_k (rc_map c), rc_queue := q\<rparr>
                        else c)
              in (Fresh, c1\<lparr>rc_map := hm_insert key now (rc_map c1),
                            rc_queue := rc_queue c1 @ [(key, now)]\<rparr>))"

definition snapshot_at :: "replay_cache \<Rightarrow> nat \<Rightarrow> nat \<Rightarrow> (bytes \<times> nat) list" where
  "snapshot_at c now now_unix =
     map (\<lambda>(k, ts). (k, sat_sub now_unix (as_secs (duration_since now ts))))
       (filter (\<lambda>(_, ts). duration_since now ts \<le> rc_ttl c) (rc_queue c))"

fun encode_loop :: "nat \<Rightarrow> nat \<Rightarrow> nat \<Rightarrow> (bytes \<times> nat) list \<Rightarrow> bytes" where
  "encode_loop now now_unix ttl [] = []"
| "encode_loop now now_unix ttl ((key, ts) # q) =
     (let elapsed = duration_since now ts
      in if ttl < elapsed then encode_loop now now_unix ttl q
         else key @ be_bytes 8 (sat_sub now_unix (as_secs elapsed)) @ encode_loop now now_unix ttl q)"

definition encode_into :: "replay_cache \<Rightarrow> nat \<Rightarrow> nat \<Rightarrow> bytes \<Rightarrow> bytes" where
  "encode_into c now now_unix magic = magic @ encode_loop now now_unix (rc_ttl c) (rc_queue c)"

fun adopt_loop :: "nat \<Rightarrow> nat \<Rightarrow> nat \<Rightarrow> (bytes \<times> nat) list \<Rightarrow> (bytes \<times> nat) list" where
  "adopt_loop now now_unix ttl [] = []"
| "adopt_loop now now_unix ttl ((key, ts) # es) =
     (let age = sat_sub now_unix ts * NANOS
      in if ttl < age then adopt_loop now now_unix ttl es
         else (key, if age \<le> now then now - age else now) # adopt_loop now now_unix ttl es)"

text \<open>\<open>retain\<close> with the set of keys already seen in this pass.\<close>

fun dedup_loop :: "(bytes, nat) hashmap \<Rightarrow> bytes list \<Rightarrow> (bytes \<times> nat) list \<Rightarrow> (bytes \<times> nat) list" where
  "dedup_loop m seen [] = []"
| "dedup_loop m seen ((key, ts) # es) =
     (if hm_contains m key then dedup_loop m seen es
      else if key \<in> set seen then dedup_loop m seen es
      else (key, ts) # dedup_loop m (key # seen) es)"

fun restore_loop :: "(bytes \<times> nat) list \<Rightarrow> replay_cache \<Rightarrow> nat \<Rightarrow> nat \<times> replay_cache" where
  "restore_loop [] c count = (count, c)"
| "restore_loop ((key, ts) # es) c count =
     (if rc_max_size c \<le> length (rc_map c) then (count, c)
      else restore_loop es (c\<lparr>rc_map := hm_insert key ts (rc_map c),
             rc_queue := rc_queue c @ [(key, ts)]\<rparr>) (Suc count))"

definition restore_at :: "replay_cache \<Rightarrow> (bytes \<times> nat) list \<Rightarrow> nat \<Rightarrow> nat \<Rightarrow> nat \<times> replay_cache" where
  "restore_at c entries now now_unix =
     (let adopted = sort_key snd (adopt_loop now now_unix (rc_ttl c) entries);
          retained = dedup_loop (rc_map c) [] adopted;
          room = sat_sub (rc_max_size c) (length (rc_map c));
          skip = sat_sub (length retained) room
      in restore_loop (drop skip retained) c 0)"

subsection \<open>The persistent form\<close>

definition MAGIC :: bytes where
  "MAGIC = [71, 84, 72, 77, 82, 80, 76, 49]"

definition RECORD :: nat where "RECORD = 24"

definition persist_encode :: "replay_cache \<Rightarrow> nat \<Rightarrow> nat \<Rightarrow> bytes" where
  "persist_encode c now now_unix = encode_into c now now_unix MAGIC"

datatype read_result = FileNotFound | FileError | FileBytes bytes

datatype io_error = OtherIo | BadMagic | TruncatedRecord

fun chunk_entries :: "nat \<Rightarrow> bytes \<Rightarrow> (bytes \<times> nat) list" where
  "chunk_entries 0 body = []"
| "chunk_entries (Suc n) body =
     (take 16 body, be_val (take 8 (drop 16 body))) # chunk_entries n (drop RECORD body)"

definition persist_load :: "replay_cache \<Rightarrow> read_result \<Rightarrow> nat \<Rightarrow> nat \<Rightarrow> (io_error + nat) \<times> replay_cache" where
  "persist_load c file now now_unix =
     (case file of
        FileNotFound \<Rightarrow> (Inr 0, c)
      | FileError \<Rightarrow> (Inl OtherIo, c)
      | FileBytes bs \<Rightarrow>
          if length bs < length MAGIC \<or> take (length MAGIC) bs \<noteq> MAGIC then (Inl BadMagic, c)
          else let body = drop (length MAGIC) bs
               in if length body mod RECORD \<noteq> 0 then (Inl TruncatedRecord, c)
                  else let (n, c') = restore_at c (chunk_entries (length body div RECORD) body) now now_unix
                       in (Inr n, c'))"

section \<open>Invariant\<close>

text \<open>
  Queue and map hold the same entries, no key twice, and the size bound holds. With a limit of
  zero the cache still holds the last MAC: the bound is \<open>max 1 max_size\<close>.
\<close>

definition replay_inv :: "replay_cache \<Rightarrow> bool" where
  "replay_inv c \<longleftrightarrow> hm_wf (rc_map c) \<and> distinct (map fst (rc_queue c))
     \<and> (\<forall>k. hm_get (rc_map c) k = map_of (rc_queue c) k)
     \<and> length (rc_queue c) \<le> max 1 (rc_max_size c)"

definition same_entries :: "(bytes, nat) hashmap \<Rightarrow> (bytes \<times> nat) list \<Rightarrow> bool" where
  "same_entries m q \<longleftrightarrow> hm_wf m \<and> distinct (map fst q) \<and> (\<forall>k. hm_get m k = map_of q k)"

lemma replay_inv_alt:
  "replay_inv c \<longleftrightarrow> same_entries (rc_map c) (rc_queue c) \<and> length (rc_queue c) \<le> max 1 (rc_max_size c)"
  by (auto simp: replay_inv_def same_entries_def)

lemma same_entries_length: "same_entries m q \<Longrightarrow> length m = length q"
proof -
  assume "same_entries m q"
  then have wf: "hm_wf m" "distinct (map fst q)" "\<And>k. hm_get m k = map_of q k"
    by (auto simp: same_entries_def)
  have "length m = card {k. hm_get m k \<noteq> None}" by (rule hm.len_card [OF wf(1)])
  also have "{k. hm_get m k \<noteq> None} = fst ` set q"
    by (simp add: wf(3) dom_map_of_conv_image_fst [symmetric] dom_def)
  also have "card \<dots> = length q" using distinct_card [OF wf(2)] by simp
  finally show ?thesis .
qed

lemma same_entries_Nil: "same_entries [] []"
  by (simp add: same_entries_def hm_simps)

lemma same_entries_pop:
  assumes "same_entries m ((k, ts) # q)"
  shows "same_entries (hm_remove k m) q"
proof -
  from assms have "map_of q k = None"
    by (auto simp: same_entries_def map_of_eq_None_iff)
  with assms show ?thesis by (auto simp: same_entries_def hm_simps)
qed

lemma same_entries_push:
  assumes "same_entries m q" "hm_get m k = None"
  shows "same_entries (hm_insert k ts m) (q @ [(k, ts)])"
proof -
  from assms have "map_of q k = None" by (simp add: same_entries_def)
  then have "k \<notin> fst ` set q" by (simp add: map_of_eq_None_iff)
  with assms \<open>map_of q k = None\<close> show ?thesis
    by (auto simp: same_entries_def hm_simps map_add_def split: option.splits)
qed

lemma sweep_loop_entries:
  "same_entries m q \<Longrightarrow> sweep_loop now ttl m q = (m', q') \<Longrightarrow>
     same_entries m' q' \<and> (\<exists>ys. q = ys @ q' \<and> (\<forall>(k, ts) \<in> set ys. ttl < duration_since now ts))
     \<and> (q' \<noteq> [] \<longrightarrow> duration_since now (snd (hd q')) \<le> ttl)"
proof (induction now ttl m q rule: sweep_loop.induct)
  case (1 now ttl m)
  then show ?case by simp
next
  case (2 now ttl m k ts q)
  show ?case
  proof (cases "ttl < duration_since now ts")
    case True
    with 2 have "same_entries m' q' \<and> (\<exists>ys. q = ys @ q' \<and> (\<forall>(k, ts) \<in> set ys. ttl < duration_since now ts))
        \<and> (q' \<noteq> [] \<longrightarrow> duration_since now (snd (hd q')) \<le> ttl)"
      by (simp add: same_entries_pop)
    then obtain ys where ys: "same_entries m' q'" "q = ys @ q'" "\<forall>(k, ts) \<in> set ys. ttl < duration_since now ts"
        "q' \<noteq> [] \<longrightarrow> duration_since now (snd (hd q')) \<le> ttl" by blast
    with True show ?thesis by (auto intro!: exI [of _ "(k, ts) # ys"])
  next
    case False
    with 2 show ?thesis by auto
  qed
qed

lemma sweep_expired_fields:
  "rc_ttl (sweep_expired c now) = rc_ttl c" "rc_max_size (sweep_expired c now) = rc_max_size c"
  by (simp_all add: sweep_expired_def case_prod_beta)

lemma sweep_expired_props:
  assumes "replay_inv c"
  shows "replay_inv (sweep_expired c now)"
    and "\<exists>ys. rc_queue c = ys @ rc_queue (sweep_expired c now)
           \<and> (\<forall>(k, ts) \<in> set ys. rc_ttl c < duration_since now ts)"
proof -
  obtain m q where mq: "sweep_loop now (rc_ttl c) (rc_map c) (rc_queue c) = (m, q)" by force
  from assms have "same_entries (rc_map c) (rc_queue c)" by (simp add: replay_inv_alt)
  note s = sweep_loop_entries [OF this mq]
  have c': "sweep_expired c now = c\<lparr>rc_map := m, rc_queue := q\<rparr>"
    by (simp add: sweep_expired_def mq)
  from s show "\<exists>ys. rc_queue c = ys @ rc_queue (sweep_expired c now)
           \<and> (\<forall>(k, ts) \<in> set ys. rc_ttl c < duration_since now ts)" by (simp add: c')
  from s obtain ys where "rc_queue c = ys @ q" by blast
  then have "length q \<le> length (rc_queue c)" by simp
  with s assms show "replay_inv (sweep_expired c now)" by (simp add: replay_inv_alt c')
qed

lemma check_fields:
  "check_and_insert_at c k now = (r, c') \<Longrightarrow> rc_ttl c' = rc_ttl c \<and> rc_max_size c' = rc_max_size c"
  by (auto simp: check_and_insert_at_def Let_def sweep_expired_fields split: if_splits list.splits)

text \<open>The queue after a check: unchanged on a replay, one entry longer on a fresh key.\<close>

lemma check_fresh_queue:
  assumes "replay_inv c" "check_and_insert_at c k now = (Fresh, c')"
  defines "q \<equiv> rc_queue (sweep_expired c now)"
  shows "rc_queue c' = (if rc_max_size c \<le> length q then tl q else q) @ [(k, now)]
    \<and> hm_get (rc_map (sweep_expired c now)) k = None \<and> replay_inv c'"
proof -
  let ?s = "sweep_expired c now"
  have inv: "replay_inv ?s" using assms(1) by (rule sweep_expired_props)
  then have se: "same_entries (rc_map ?s) (rc_queue ?s)" and len: "length (rc_map ?s) = length q"
    by (simp_all add: replay_inv_alt same_entries_length q_def)
  have fresh: "hm_get (rc_map ?s) k = None"
    using assms(2) by (auto simp: check_and_insert_at_def Let_def hm_contains_def split: if_splits)
  show ?thesis
  proof (cases "rc_max_size c \<le> length q \<and> q \<noteq> []")
    case False
    then have c': "c' = ?s\<lparr>rc_map := hm_insert k now (rc_map ?s), rc_queue := q @ [(k, now)]\<rparr>"
      using assms(2) fresh len
      by (auto simp: check_and_insert_at_def Let_def hm_contains_def sweep_expired_fields q_def split: list.splits)
    have "same_entries (rc_map c') (rc_queue c')"
      using same_entries_push [OF se fresh] by (simp add: c' q_def)
    moreover have "length (rc_queue c') \<le> max 1 (rc_max_size c')"
      using False by (auto simp: c' sweep_expired_fields)
    ultimately show ?thesis using False fresh by (auto simp: replay_inv_alt c')
  next
    case True
    then obtain k0 t0 q0 where q: "q = (k0, t0) # q0" by (metis neq_Nil_conv surj_pair)
    then have c': "c' = ?s\<lparr>rc_map := hm_insert k now (hm_remove k0 (rc_map ?s)), rc_queue := q0 @ [(k, now)]\<rparr>"
      using assms(2) fresh len True
      by (auto simp: check_and_insert_at_def Let_def hm_contains_def sweep_expired_fields q_def split: list.splits)
    have "same_entries (hm_remove k0 (rc_map ?s)) q0"
      using se q by (auto simp: q_def intro: same_entries_pop)
    then have "same_entries (rc_map c') (rc_queue c')"
      using same_entries_push [of "hm_remove k0 (rc_map ?s)" q0 k now] fresh by (simp add: c' hm_simps)
    moreover have "length (rc_queue c') \<le> max 1 (rc_max_size c')"
      using inv q by (simp add: c' replay_inv_alt q_def sweep_expired_fields)
    ultimately show ?thesis using True fresh q by (simp add: replay_inv_alt c')
  qed
qed

lemma check_replay_state:
  assumes "check_and_insert_at c k now = (Replayed, c')"
  shows "c' = sweep_expired c now" "hm_contains (rc_map (sweep_expired c now)) k"
  using assms by (auto simp: check_and_insert_at_def Let_def split: if_splits)

lemma check_inv:
  assumes "replay_inv c" "check_and_insert_at c k now = (r, c')"
  shows "replay_inv c'"
  using assms check_fresh_queue check_replay_state sweep_expired_props(1) by (cases r) metis+

section \<open>Replays are detected\<close>

fun check_run :: "replay_cache \<Rightarrow> (bytes \<times> nat) list \<Rightarrow> replay_check list \<times> replay_cache" where
  "check_run c [] = ([], c)"
| "check_run c ((k, now) # es) =
     (let (r, c') = check_and_insert_at c k now; (rs, c'') = check_run c' es in (r # rs, c''))"

text \<open>The entry of \<open>k\<close> is in the queue with at most \<open>n\<close> entries behind it.\<close>

definition kept :: "replay_cache \<Rightarrow> bytes \<Rightarrow> nat \<Rightarrow> nat \<Rightarrow> bool" where
  "kept c k t n \<longleftrightarrow> replay_inv c \<and> (\<exists>ys zs. rc_queue c = ys @ (k, t) # zs \<and> length zs \<le> n)"

lemma append_Cons_suffix:
  "x \<notin> set us \<Longrightarrow> us @ q = ys @ x # zs \<Longrightarrow> \<exists>vs. q = vs @ x # zs"
proof (induction us arbitrary: ys)
  case Nil
  then show ?case by auto
next
  case (Cons u us)
  then show ?case by (cases ys) auto
qed

lemma kept_sweep:
  assumes "kept c k t n" "duration_since now t \<le> rc_ttl c"
  shows "kept (sweep_expired c now) k t n"
proof -
  from assms(1) obtain ys zs where inv: "replay_inv c" and q: "rc_queue c = ys @ (k, t) # zs" and n: "length zs \<le> n"
    by (auto simp: kept_def)
  from sweep_expired_props(2) [OF inv] obtain us where
    us: "rc_queue c = us @ rc_queue (sweep_expired c now)" "\<forall>(k, ts) \<in> set us. rc_ttl c < duration_since now ts"
    by blast
  have "(k, t) \<notin> set us" using us(2) assms(2) by fastforce
  moreover have "us @ rc_queue (sweep_expired c now) = ys @ (k, t) # zs" using q us(1) by simp
  ultimately obtain vs where "rc_queue (sweep_expired c now) = vs @ (k, t) # zs"
    using append_Cons_suffix by metis
  with n sweep_expired_props(1) [OF inv] show ?thesis unfolding kept_def by blast
qed

lemma kept_contains: "kept c k t n \<Longrightarrow> hm_contains (rc_map c) k"
  by (auto simp: kept_def replay_inv_def hm_contains_def map_of_eq_None_iff)

lemma kept_check:
  assumes "kept c k t n" "now \<le> t + rc_ttl c" "check_and_insert_at c k' now = (r, c')"
    "r = Fresh \<longrightarrow> Suc n < rc_max_size c"
  shows "kept c' k t (if r = Fresh then Suc n else n)"
proof -
  have "duration_since now t \<le> rc_ttl c" using assms(2) by (simp add: duration_since_def)
  with assms(1) have sw: "kept (sweep_expired c now) k t n" by (rule kept_sweep)
  have inv: "replay_inv c" using assms(1) by (simp add: kept_def)
  show ?thesis
  proof (cases r)
    case Replayed
    with sw check_replay_state(1) assms(3) show ?thesis by simp
  next
    case Fresh
    from sw obtain ys zs where q: "rc_queue (sweep_expired c now) = ys @ (k, t) # zs" "length zs \<le> n"
      by (auto simp: kept_def)
    note f = check_fresh_queue [OF inv assms(3) [unfolded Fresh]]
    have "\<exists>us. rc_queue c' = us @ (k, t) # zs @ [(k', now)]"
    proof (cases ys)
      case Nil
      with q assms(4) Fresh f show ?thesis by auto
    next
      case (Cons y ys')
      with q f show ?thesis by auto
    qed
    with q(2) f Fresh show ?thesis by (force simp: kept_def)
  qed
qed

lemma kept_run:
  "kept c k t n \<Longrightarrow> check_run c es = (rs, c') \<Longrightarrow> \<forall>(k', now) \<in> set es. now \<le> t + rc_ttl c \<Longrightarrow>
   n + count_list rs Fresh < rc_max_size c \<Longrightarrow>
   kept c' k t (n + count_list rs Fresh) \<and> rc_ttl c' = rc_ttl c \<and> rc_max_size c' = rc_max_size c"
proof (induction es arbitrary: c n rs c')
  case Nil
  then show ?case by simp
next
  case (Cons e es)
  obtain k' now where e: "e = (k', now)" by force
  obtain r c1 where r: "check_and_insert_at c k' now = (r, c1)" by force
  obtain rs' c2 where rs': "check_run c1 es = (rs', c2)" by force
  have rs: "rs = r # rs'" "c' = c2" using Cons.prems(2) by (simp_all add: e r rs')
  let ?n = "if r = Fresh then Suc n else n"
  have f: "rc_ttl c1 = rc_ttl c" "rc_max_size c1 = rc_max_size c" using check_fields [OF r] by simp_all
  have "kept c1 k t ?n"
    by (rule kept_check [OF Cons.prems(1) _ r]) (use Cons.prems(3,4) in \<open>auto simp: e rs\<close>)
  from Cons.IH [OF this rs'] Cons.prems(3,4) f rs show ?case by (auto simp: e)
qed

text \<open>
  A MAC accepted once is refused for the whole time-to-live, as long as fewer than
  \<open>max_size\<close> other MACs were accepted in between: in every such interleaving of checks the
  second presentation of the MAC is answered \<open>Replay\<close>.
\<close>

theorem replay_detected:
  assumes "replay_inv c" and "check_and_insert_at c k t = (Fresh, c1)"
    and "check_run c1 es = (rs, c2)" and "\<forall>(k', now) \<in> set es. now \<le> t + rc_ttl c"
    and "count_list rs Fresh < rc_max_size c" and "t' \<le> t + rc_ttl c"
  shows "fst (check_and_insert_at c2 k t') = Replayed"
proof -
  have f: "rc_ttl c1 = rc_ttl c" "rc_max_size c1 = rc_max_size c" using check_fields [OF assms(2)] by simp_all
  from check_fresh_queue [OF assms(1,2)] have "kept c1 k t 0" by (auto simp: kept_def)
  from kept_run [OF this assms(3)] assms(4,5) f
  have k2: "kept c2 k t (count_list rs Fresh)" "rc_ttl c2 = rc_ttl c" by auto
  have "kept (sweep_expired c2 t') k t (count_list rs Fresh)"
    by (rule kept_sweep [OF k2(1)]) (use assms(6) k2(2) in \<open>simp add: duration_since_def\<close>)
  then have "hm_contains (rc_map (sweep_expired c2 t')) k" by (rule kept_contains)
  then show ?thesis by (simp add: check_and_insert_at_def Let_def)
qed

definition demo_cache :: replay_cache where
  "demo_cache = replay_new 3 1000"

lemma replay_inv_new: "replay_inv (replay_new n ttl)"
  by (simp add: replay_inv_def replay_new_def hm_simps)

theorem replay_detected_witness:
  "fst (check_and_insert_at (snd (check_run (snd (check_and_insert_at demo_cache [1] 0))
      [([2], 400), ([2], 500), ([3], 900)])) [1] 1000) = Replayed"
proof -
  let ?c1 = "snd (check_and_insert_at demo_cache [1] 0)"
  have c1: "check_and_insert_at demo_cache [1] 0 = (Fresh, ?c1)" by code_simp
  have run: "check_run ?c1 [([2], 400), ([2], 500), ([3], 900)]
    = ([Fresh, Replayed, Fresh], snd (check_run ?c1 [([2], 400), ([2], 500), ([3], 900)]))"
    by code_simp
  have inv: "replay_inv demo_cache" unfolding demo_cache_def by (rule replay_inv_new)
  show ?thesis
    by (rule replay_detected [OF inv c1 run]) (simp_all add: demo_cache_def replay_new_def)
qed

section \<open>Exactness and bounds\<close>

text \<open>With a monotone clock the queue is in time order, and the front sweep removes exactly the expired entries.\<close>

definition in_time_order :: "replay_cache \<Rightarrow> nat \<Rightarrow> bool" where
  "in_time_order c now \<longleftrightarrow> sorted (map snd (rc_queue c)) \<and> (\<forall>(k, ts) \<in> set (rc_queue c). ts \<le> now)"

lemma sweep_sorted:
  "sorted (map snd q) \<Longrightarrow> snd (sweep_loop now ttl m q) = filter (\<lambda>(k, ts). duration_since now ts \<le> ttl) q"
proof (induction now ttl m q rule: sweep_loop.induct)
  case (1 now ttl m)
  then show ?case by simp
next
  case (2 now ttl m k ts q)
  show ?case
  proof (cases "ttl < duration_since now ts")
    case True
    with 2 show ?thesis by auto
  next
    case False
    with 2(2) have "\<forall>x \<in> set q. duration_since now (snd x) \<le> ttl"
      by (fastforce simp: duration_since_def)
    then have "filter (\<lambda>(k, ts). duration_since now ts \<le> ttl) q = q"
      by (auto simp: filter_id_conv)
    with False show ?thesis by simp
  qed
qed

lemma sweep_expired_queue:
  "sorted (map snd (rc_queue c)) \<Longrightarrow>
   rc_queue (sweep_expired c now) = filter (\<lambda>(k, ts). duration_since now ts \<le> rc_ttl c) (rc_queue c)"
  using sweep_sorted [of "rc_queue c" now "rc_ttl c" "rc_map c"]
  by (simp add: sweep_expired_def case_prod_beta)

lemma in_set_tlD: "x \<in> set (tl xs) \<Longrightarrow> x \<in> set xs"
  by (cases xs) auto

lemma in_time_order_check:
  assumes "replay_inv c" "in_time_order c now" "check_and_insert_at c k now = (r, c')" "now \<le> later"
  shows "in_time_order c' later"
proof -
  let ?q = "filter (\<lambda>(k, ts). duration_since now ts \<le> rc_ttl c) (rc_queue c)"
  have q: "rc_queue (sweep_expired c now) = ?q"
    using assms(2) by (simp add: sweep_expired_queue in_time_order_def)
  have s: "sorted (map snd ?q)" "\<forall>(k, ts) \<in> set ?q. ts \<le> now"
    using assms(2) by (auto simp: in_time_order_def sorted_filter)
  then have tl: "sorted (map snd (tl ?q))" "\<forall>(k, ts) \<in> set (tl ?q). ts \<le> now"
    using in_set_tlD [of _ ?q] by (auto simp only: map_tl sorted_tl split: prod.splits dest!: bspec)
  show ?thesis
  proof (cases r)
    case Replayed
    with check_replay_state(1) assms(3) q s assms(4) show ?thesis by (fastforce simp: in_time_order_def)
  next
    case Fresh
    have "rc_queue c' = (if rc_max_size c \<le> length ?q then tl ?q else ?q) @ [(k, now)]"
      using check_fresh_queue [OF assms(1) assms(3) [unfolded Fresh]] q by simp
    with s tl assms(4) show ?thesis
      by (fastforce simp: in_time_order_def sorted_append split: if_splits)
  qed
qed

text \<open>
  Exact behaviour under a monotone clock. A check answers \<open>Replay\<close> exactly when the cache
  holds the MAC with an age of at most the time-to-live; it keeps the invariant, the time order,
  and never holds more than \<open>max 1 max_size\<close> entries.
\<close>

theorem check_exact:
  assumes "replay_inv c" and "in_time_order c now"
  shows "(fst (check_and_insert_at c k now) = Replayed \<longleftrightarrow>
            (\<exists>ts. (k, ts) \<in> set (rc_queue c) \<and> now - ts \<le> rc_ttl c))
    \<and> replay_inv (snd (check_and_insert_at c k now))
    \<and> (\<forall>later \<ge> now. in_time_order (snd (check_and_insert_at c k now)) later)
    \<and> length (rc_map (snd (check_and_insert_at c k now))) \<le> max 1 (rc_max_size c)"
proof -
  obtain r c' where r: "check_and_insert_at c k now = (r, c')" by force
  have inv': "replay_inv c'" using assms(1) r by (rule check_inv)
  have "length (rc_map c') = length (rc_queue c')"
    using inv' by (simp add: replay_inv_alt same_entries_length)
  then have len: "length (rc_map c') \<le> max 1 (rc_max_size c)"
    using inv' check_fields [OF r] by (simp add: replay_inv_def)
  have sinv: "replay_inv (sweep_expired c now)" using assms(1) by (rule sweep_expired_props)
  have "fst (check_and_insert_at c k now) = Replayed \<longleftrightarrow> hm_contains (rc_map (sweep_expired c now)) k"
    by (simp add: check_and_insert_at_def Let_def)
  also have "\<dots> \<longleftrightarrow> k \<in> fst ` set (rc_queue (sweep_expired c now))"
    using sinv by (simp add: replay_inv_def hm_contains_def map_of_eq_None_iff)
  also have "\<dots> \<longleftrightarrow> (\<exists>ts. (k, ts) \<in> set (rc_queue c) \<and> now - ts \<le> rc_ttl c)"
    using assms(2) by (force simp: sweep_expired_queue in_time_order_def duration_since_def)
  finally show ?thesis
    using inv' in_time_order_check [OF assms r] len by (simp add: r)
qed

theorem check_exact_witness:
  "fst (check_and_insert_at (snd (check_and_insert_at demo_cache [1] 5)) [1] 1005) = Replayed
   \<and> fst (check_and_insert_at (snd (check_and_insert_at demo_cache [1] 5)) [1] 1006) \<noteq> Replayed"
proof -
  let ?c = "snd (check_and_insert_at demo_cache [1] 5)"
  have inv0: "replay_inv demo_cache" "in_time_order demo_cache 5"
    unfolding demo_cache_def by (rule replay_inv_new) (simp add: in_time_order_def replay_new_def)
  note e = check_exact [OF inv0, of "[1]"]
  have q: "rc_queue ?c = [([1], 5)]" "rc_ttl ?c = 1000" by code_simp+
  have "replay_inv ?c" "in_time_order ?c 1005" "in_time_order ?c 1006" using e by simp_all
  with check_exact [of ?c 1005 "[1]"] check_exact [of ?c 1006 "[1]"] q show ?thesis by simp
qed

section \<open>Persistence\<close>

definition wf_keys :: "(bytes \<times> nat) list \<Rightarrow> bool" where
  "wf_keys q \<longleftrightarrow> (\<forall>(k, ts) \<in> set q. length k = 16)"

lemma encode_loop_snapshot:
  "encode_loop now u ttl q = concat (map (\<lambda>(k, t). k @ be_bytes 8 t)
     (map (\<lambda>(k, ts). (k, sat_sub u (as_secs (duration_since now ts))))
        (filter (\<lambda>(_, ts). duration_since now ts \<le> ttl) q)))"
  by (induction now u ttl q rule: encode_loop.induct) (auto simp: Let_def)

lemma chunk_entries_concat:
  assumes "\<forall>(k, t) \<in> set es. length k = 16 \<and> t < 256 ^ 8"
  shows "chunk_entries (length es) (concat (map (\<lambda>(k, t). k @ be_bytes 8 t) es)) = es"
  using assms
proof (induction es)
  case Nil
  then show ?case by simp
next
  case (Cons e es)
  obtain k t where e: "e = (k, t)" by force
  with Cons.prems have k: "length k = 16" "t < 256 ^ 8" by auto
  with Cons show ?case by (simp add: e RECORD_def be_val_be_bytes)
qed

lemma length_concat_records:
  "\<forall>(k, t) \<in> set es. length k = 16 \<Longrightarrow>
   length (concat (map (\<lambda>(k, t). k @ be_bytes 8 t) es)) = RECORD * length es"
  by (induction es) (auto simp: RECORD_def)

lemma snapshot_wf:
  assumes "wf_keys (rc_queue c)" "now_unix < 256 ^ 8"
  shows "\<forall>(k, t) \<in> set (snapshot_at c now now_unix). length k = 16 \<and> t < 256 ^ 8"
  using assms le_less_trans [OF sat_sub_le assms(2)]
  by (fastforce simp: snapshot_at_def wf_keys_def)

lemma persist_load_encode:
  assumes "wf_keys (rc_queue c)" "now_unix < 256 ^ 8"
  shows "persist_load c0 (FileBytes (persist_encode c now now_unix)) now' now_unix' =
    (case restore_at c0 (snapshot_at c now now_unix) now' now_unix' of (n, c') \<Rightarrow> (Inr n, c'))"
proof -
  let ?es = "snapshot_at c now now_unix"
  note wf = snapshot_wf [OF assms, of now]
  have body: "encode_loop now now_unix (rc_ttl c) (rc_queue c) = concat (map (\<lambda>(k, t). k @ be_bytes 8 t) ?es)"
    by (simp add: encode_loop_snapshot snapshot_at_def)
  have len: "length (concat (map (\<lambda>(k, t). k @ be_bytes 8 t) ?es)) = RECORD * length ?es"
    by (rule length_concat_records) (use wf in auto)
  have "RECORD * length ?es div RECORD = length ?es" by (simp add: RECORD_def)
  then show ?thesis
    using len chunk_entries_concat [OF wf]
    by (simp add: persist_load_def persist_encode_def encode_into_def body Let_def)
qed

lemma adopt_loop_map:
  "adopt_loop now u ttl es = map (\<lambda>(k, ts). (k, let age = sat_sub u ts * NANOS in if age \<le> now then now - age else now))
     (filter (\<lambda>(k, ts). sat_sub u ts * NANOS \<le> ttl) es)"
  by (induction now u ttl es rule: adopt_loop.induct) (auto simp: Let_def)

lemma adopt_loop_member:
  assumes "(u - t) * NANOS \<le> ttl" "(k, t) \<in> set es"
  obtains ts where "(k, ts) \<in> set (adopt_loop now u ttl es)" "now - ts \<le> ttl" "now \<le> ts + (u - t) * NANOS"
proof
  let ?ts = "if (u - t) * NANOS \<le> now then now - (u - t) * NANOS else now"
  show "(k, ?ts) \<in> set (adopt_loop now u ttl es)"
    unfolding adopt_loop_map set_map set_filter
    by (rule image_eqI [of _ _ "(k, t)"]) (use assms in \<open>simp_all add: sat_sub_def Let_def\<close>)
  show "now - ?ts \<le> ttl" "now \<le> ?ts + (u - t) * NANOS" using assms(1) by (cases "(u - t) * NANOS \<le> now"; simp)+
qed

lemma dedup_loop_id:
  "distinct (map fst es) \<Longrightarrow> fst ` set es \<inter> set seen = {} \<Longrightarrow> dedup_loop [] seen es = es"
  by (induction es arbitrary: seen) (auto simp: hm_contains_def hm_simps)

lemma restore_loop_all:
  assumes "same_entries (rc_map c) (rc_queue c)" "distinct (map fst (rc_queue c @ es))"
    "length (rc_queue c) + length es \<le> rc_max_size c" "restore_loop es c n = (n', c')"
  shows "rc_queue c' = rc_queue c @ es \<and> same_entries (rc_map c') (rc_queue c')
    \<and> rc_max_size c' = rc_max_size c \<and> rc_ttl c' = rc_ttl c"
  using assms
proof (induction es c n rule: restore_loop.induct)
  case (1 c count)
  then show ?case by simp
next
  case (2 key ts es c count)
  have room: "\<not> rc_max_size c \<le> length (rc_map c)"
    using 2(4) same_entries_length [OF 2(2)] by simp
  have new: "hm_get (rc_map c) key = None"
    using 2(2,3) by (auto simp: same_entries_def map_of_eq_None_iff)
  have push: "same_entries (hm_insert key ts (rc_map c)) (rc_queue c @ [(key, ts)])"
    using 2(2) new by (rule same_entries_push)
  show ?case using 2(1) [OF room] push 2(3,4,5) room by auto
qed

lemma restore_new:
  assumes "distinct (map fst es)" "length es \<le> m" "restore_at (replay_new m ttl) es now u = (n, c')"
  shows "rc_queue c' = sort_key snd (adopt_loop now u ttl es)" "replay_inv c'" "rc_ttl c' = ttl" "rc_max_size c' = m"
proof -
  let ?ad = "adopt_loop now u ttl es"
  have keys: "map fst ?ad = map fst (filter (\<lambda>(k, ts). sat_sub u ts * NANOS \<le> ttl) es)"
    by (auto simp: adopt_loop_map)
  have d: "distinct (map fst ?ad)" unfolding keys using assms(1) by (rule distinct_map_filter)
  have l: "length ?ad \<le> m" using assms(2) by (simp add: adopt_loop_map le_trans [OF length_filter_le])
  have "distinct (map fst (sort_key snd ?ad))"
    using d by (simp add: distinct_map)
  then have dd: "dedup_loop [] [] (sort_key snd ?ad) = sort_key snd ?ad" by (simp add: dedup_loop_id)
  have "restore_loop (sort_key snd ?ad) (replay_new m ttl) 0 = (n, c')"
    using assms(3) dd l by (simp add: restore_at_def Let_def replay_new_def sat_sub_def)
  note all = restore_loop_all [OF _ _ _ this]
  have "rc_queue c' = rc_queue (replay_new m ttl) @ sort_key snd ?ad
    \<and> same_entries (rc_map c') (rc_queue c')
    \<and> rc_max_size c' = rc_max_size (replay_new m ttl) \<and> rc_ttl c' = rc_ttl (replay_new m ttl)"
    by (rule all) (use \<open>distinct (map fst (sort_key snd ?ad))\<close> l in
      \<open>simp_all add: replay_new_def same_entries_Nil\<close>)
  then have r: "rc_queue c' = sort_key snd ?ad" "same_entries (rc_map c') (rc_queue c')"
    "rc_max_size c' = m" "rc_ttl c' = ttl"
    by (auto simp: replay_new_def)
  then show "rc_queue c' = sort_key snd ?ad" "rc_ttl c' = ttl" "rc_max_size c' = m" by simp_all
  have "length (rc_queue c') \<le> max 1 (rc_max_size c')" using l r(1,3) by simp
  with r(2) show "replay_inv c'" by (simp add: replay_inv_alt)
qed

text \<open>What a restart restores: an entry is as old as the wall clock says, or younger.\<close>

lemma restored_entry:
  assumes "replay_inv c" and "wf_keys (rc_queue c)" and "0 < rc_max_size c" and "now_unix < 2 ^ 64"
    and "(k, ts) \<in> set (rc_queue c)" and "now - ts \<le> rc_ttl c"
    and "(now_unix' - (now_unix - (now - ts) div NANOS)) * NANOS \<le> rc_ttl c"
  obtains n c' ts' where "persist_load (replay_new (rc_max_size c) (rc_ttl c))
      (FileBytes (persist_encode c now now_unix)) now' now_unix' = (Inr n, c')"
    "replay_inv c'" "rc_ttl c' = rc_ttl c" "rc_max_size c' = rc_max_size c" "length (rc_queue c') \<le> length (rc_queue c)"
    "sorted (map snd (rc_queue c'))" "(k, ts') \<in> set (rc_queue c')" "now' - ts' \<le> rc_ttl c"
    "now' \<le> ts' + (now_unix' - (now_unix - (now - ts) div NANOS)) * NANOS"
proof -
  let ?es = "snapshot_at c now now_unix" and ?t = "now_unix - (now - ts) div NANOS"
  let ?n0 = "replay_new (rc_max_size c) (rc_ttl c)"
  have keys: "map fst ?es = map fst (filter (\<lambda>(_, ts). duration_since now ts \<le> rc_ttl c) (rc_queue c))"
    by (auto simp: snapshot_at_def)
  have d: "distinct (map fst ?es)"
    unfolding keys using assms(1) by (intro distinct_map_filter) (simp add: replay_inv_def)
  have len: "length ?es \<le> length (rc_queue c)" by (simp add: snapshot_at_def)
  then have l: "length ?es \<le> rc_max_size c" using assms(1,3) by (simp add: replay_inv_def)
  obtain n c' where r: "restore_at ?n0 ?es now' now_unix' = (n, c')" by force
  note rn = restore_new [OF d l r]
  have load: "persist_load ?n0 (FileBytes (persist_encode c now now_unix)) now' now_unix' = (Inr n, c')"
    using persist_load_encode [OF assms(2), of now_unix ?n0 now now' now_unix'] assms(4) r by simp
  have "(k, ?t) \<in> set ?es"
    using assms(5,6) by (force simp: snapshot_at_def duration_since_def as_secs_def sat_sub_def)
  with assms(7) obtain ts' where ts': "(k, ts') \<in> set (adopt_loop now' now_unix' (rc_ttl c) ?es)"
    "now' - ts' \<le> rc_ttl c" "now' \<le> ts' + (now_unix' - ?t) * NANOS"
    by (rule adopt_loop_member)
  have "length (rc_queue c') \<le> length ?es" by (simp add: rn adopt_loop_map)
  with len have len': "length (rc_queue c') \<le> length (rc_queue c)" by simp
  have "sorted (map snd (rc_queue c'))" "(k, ts') \<in> set (rc_queue c')" using ts'(1) by (simp_all add: rn)
  then show thesis using load rn(2-4) len' ts'(2,3) by (intro that) simp_all
qed

text \<open>
  A restart does not forget. A cache written with \<open>persist::save\<close> and loaded into an empty
  cache of the same configuration refuses every MAC that was in it and is still within the
  time-to-live by the wall clock, and the loaded cache satisfies the invariant.
\<close>

theorem restart_keeps_replays:
  assumes "replay_inv c" and "wf_keys (rc_queue c)" and "0 < rc_max_size c" and "now_unix < 2 ^ 64"
    and "(k, ts) \<in> set (rc_queue c)" and "now - ts \<le> rc_ttl c"
    and "(now_unix' - (now_unix - (now - ts) div NANOS)) * NANOS \<le> rc_ttl c"
  shows "\<exists>n c'. persist_load (replay_new (rc_max_size c) (rc_ttl c))
      (FileBytes (persist_encode c now now_unix)) now' now_unix' = (Inr n, c')
    \<and> replay_inv c' \<and> fst (check_and_insert_at c' k now') = Replayed"
proof -
  from restored_entry [OF assms, of now'] obtain n c' ts' where load: "persist_load (replay_new (rc_max_size c) (rc_ttl c))
      (FileBytes (persist_encode c now now_unix)) now' now_unix' = (Inr n, c')" and c': "replay_inv c'" "rc_ttl c' = rc_ttl c"
    and q: "sorted (map snd (rc_queue c'))" "(k, ts') \<in> set (rc_queue c')" "now' - ts' \<le> rc_ttl c" by blast
  have "(k, ts') \<in> set (rc_queue (sweep_expired c' now'))"
    using q by (simp add: sweep_expired_queue c' duration_since_def)
  moreover have "replay_inv (sweep_expired c' now')" by (rule sweep_expired_props) (rule c')
  ultimately have "hm_contains (rc_map (sweep_expired c' now')) k"
    by (force simp: replay_inv_def hm_contains_def map_of_eq_None_iff)
  then have "fst (check_and_insert_at c' k now') = Replayed" by (simp add: check_and_insert_at_def Let_def)
  with load c'(1) show ?thesis by blast
qed

theorem restart_keeps_replays_witness:
  "\<exists>n c'. persist_load (replay_new 3 (300 * NANOS)) (FileBytes (persist_encode
       \<lparr>rc_map = [(replicate 16 7, 5)], rc_queue = [(replicate 16 7, 5)], rc_ttl = 300 * NANOS,
        rc_max_size = 3\<rparr> (5 + 20 * NANOS) 1000)) 99 1100 = (Inr n, c')
    \<and> replay_inv c' \<and> fst (check_and_insert_at c' (replicate 16 7) 99) = Replayed"
proof -
  let ?c = "\<lparr>rc_map = [(replicate 16 7, 5)], rc_queue = [(replicate 16 7, 5)], rc_ttl = 300 * NANOS,
    rc_max_size = 3\<rparr>"
  have inv: "replay_inv ?c" by (simp add: replay_inv_def hm_wf_def hm_get_def)
  have "wf_keys (rc_queue ?c)" by (simp add: wf_keys_def)
  from restart_keeps_replays [OF inv this, of 1000 "replicate 16 7" 5 "5 + 20 * NANOS" 1100 99]
  show ?thesis by (simp add: NANOS_def)
qed

end
