(* ===== verification/Eviction.thy ===== *)
theory Eviction
  imports Gotham_Prelude
begin

text \<open>
  The contract shared by the tables that make room by dropping their least recently used entry:
  the per-source rate limiter (crypto-gotham-relay/src/rate_limit.rs) and the connection pool
  (crypto-gotham-relay/src/pool.rs). A client provides the scan for the oldest entry; the bound
  of the table and what an insertion leaves of the other entries follow once, here.
\<close>

locale oldest_scan =
  fixes stamp :: "'v \<Rightarrow> nat"
    and scan :: "('k, 'v) hashmap \<Rightarrow> ('k \<times> nat) option"
  assumes scan_None: "scan m = None \<longleftrightarrow> m = []"
    and scan_in: "scan m = Some (k, t) \<Longrightarrow> \<exists>v. (k, v) \<in> set m \<and> stamp v = t"
    and scan_least: "scan m = Some (k, t) \<Longrightarrow> (k', v') \<in> set m \<Longrightarrow> t \<le> stamp v'"
begin

definition evicted :: "('k, 'v) hashmap \<Rightarrow> ('k, 'v) hashmap" where
  "evicted m = (case scan m of None \<Rightarrow> m | Some (k, _) \<Rightarrow> hm_remove k m)"

lemma evicted_wf: "hm_wf m \<Longrightarrow> hm_wf (evicted m)"
  by (simp add: evicted_def hm_simps split: option.splits prod.splits)

lemma evicted_length:
  assumes "hm_wf m" and "m \<noteq> []"
  shows "Suc (length (evicted m)) = length m"
proof -
  obtain k t where s: "scan m = Some (k, t)" using assms(2) scan_None [of m] by (cases "scan m") auto
  from scan_in [OF this] have "hm_get m k \<noteq> None" using hm_get_in [OF assms(1)] by blast
  from hm.len_remove_old [OF assms(1) this] s show ?thesis by (simp add: evicted_def)
qed

lemma evicted_get: "hm_get (evicted m) k = hm_get m k \<or> hm_get (evicted m) k = None \<and> (\<exists>t. scan m = Some (k, t))"
  by (auto simp: evicted_def hm_simps split: option.splits)

lemma evicted_oldest:
  assumes "hm_wf m" and "hm_get m k = Some v" and "hm_get (evicted m) k = None" and "hm_get m k' = Some v'"
  shows "stamp v \<le> stamp v'"
proof -
  obtain t where s: "scan m = Some (k, t)" using evicted_get [of m k] assms(2,3) by auto
  then obtain w where "(k, w) \<in> set m" "stamp w = t" using scan_in by blast
  then have "t = stamp v" using hm_get_in [OF assms(1), of k w] assms(2) by simp
  with scan_least [OF s hm_get_SomeD [OF assms(4)]] show ?thesis by simp
qed

lemma insert_le: "hm_wf m \<Longrightarrow> length (hm_insert k v m) \<le> Suc (length m)"
  using hm.len_insert_old [of m k v] hm.len_insert_new [of m k v] by (cases "hm_get m k") auto

text \<open>A full table evicts before it inserts: the bound holds whether or not the key was there.\<close>

lemma room_always:
  assumes "hm_wf m" and "length m \<le> n" and "0 < n"
  shows "length (hm_insert k v (if n \<le> length m then evicted m else m)) \<le> n"
proof (cases "n \<le> length m")
  case True
  with assms have "Suc (length (evicted m)) = length m" by (intro evicted_length) auto
  with insert_le [OF evicted_wf [OF assms(1)], of k v] True assms(2) show ?thesis by simp
next
  case False
  with insert_le [OF assms(1), of k v] show ?thesis by simp
qed

text \<open>Eviction only for a key the table does not hold yet.\<close>

lemma room_for_new:
  assumes "hm_wf m" and "length m \<le> n" and "0 < n"
  shows "length (hm_insert k v (if \<not> hm_contains m k \<and> n \<le> length m then evicted m else m)) \<le> n"
proof (cases "hm_contains m k")
  case True
  with hm.len_insert_old [OF assms(1), of k v] assms(2) show ?thesis by (simp add: hm_contains_def)
next
  case False
  with room_always [OF assms, of k v] show ?thesis by simp
qed

end

end
