(* ===== verification/Rate_Limit.thy ===== *)
theory Rate_Limit
  imports Eviction Complex_Main Primitives
begin

text \<open>
  The rate limiters of a relay, crypto-gotham-relay/src/rate_limit.rs: a token bucket with a
  daily byte quota, and a bounded table of such buckets per source address.

  A finite \<open>f64\<close> is a rational, and each operation is the exact result followed by the
  rounding \<open>rnd\<close> of IEEE 754, a parameter; what the properties use of it is \<open>rounding_ok\<close>.
  Instants and durations are nanoseconds; the clock readings are arguments.
\<close>

type_synonym f64 = rat

text \<open>IEEE rounding is monotone, idempotent and exact on the small integers the code uses.\<close>

definition rounding_ok :: "(f64 \<Rightarrow> f64) \<Rightarrow> bool" where
  "rounding_ok rnd \<longleftrightarrow> (\<forall>x y. x \<le> y \<longrightarrow> rnd x \<le> rnd y) \<and> (\<forall>x. rnd (rnd x) = rnd x)
     \<and> rnd 0 = 0 \<and> rnd 1 = 1"

lemma rounding_mono: "rounding_ok rnd \<Longrightarrow> x \<le> y \<Longrightarrow> rnd x \<le> rnd y"
  by (simp add: rounding_ok_def)

section \<open>State and operations\<close>

definition WIRE_BYTES_PER_PACKET :: nat where "WIRE_BYTES_PER_PACKET = 2064"

definition QUOTA_WINDOW :: nat where "QUOTA_WINDOW = 24 * 60 * 60 * 1000000000"

datatype throttle_reason = Rate | DailyQuota

datatype rate_decision = Allow | Throttled throttle_reason

definition is_allowed :: "rate_decision \<Rightarrow> bool" where
  "is_allowed d = (d = Allow)"

record rate_limiter =
  max_pps :: f64
  burst :: f64
  tokens :: f64
  last_refill :: nat
  max_bytes_per_day :: nat
  bytes_used :: nat
  window_start :: nat

definition rate_new :: "(f64 \<Rightarrow> f64) \<Rightarrow> f64 \<Rightarrow> nat \<Rightarrow> nat \<Rightarrow> nat \<Rightarrow> rate_limiter" where
  "rate_new rnd pps0 max_bytes t1 t2 =
     (let pps = max pps0 0; b = (if 0 < pps then rnd (pps * 2) else 0)
      in \<lparr>max_pps = pps, burst = b, tokens = b, last_refill = t1,
          max_bytes_per_day = max_bytes, bytes_used = 0, window_start = t2\<rparr>)"

definition rate_unlimited :: "(f64 \<Rightarrow> f64) \<Rightarrow> nat \<Rightarrow> nat \<Rightarrow> rate_limiter" where
  "rate_unlimited rnd t1 t2 = rate_new rnd 0 0 t1 t2"

definition is_unlimited :: "rate_limiter \<Rightarrow> bool" where
  "is_unlimited l = (max_pps l = 0 \<and> max_bytes_per_day l = 0)"

definition as_secs_f64 :: "(f64 \<Rightarrow> f64) \<Rightarrow> nat \<Rightarrow> f64" where
  "as_secs_f64 rnd d = rnd (rnd (of_nat (d div 1000000000)) + rnd (of_nat (d mod 1000000000) / 1000000000))"

text \<open>The quota part of \<open>check_at\<close>: the byte count and window start the decision uses.\<close>

definition quota_state :: "rate_limiter \<Rightarrow> nat \<Rightarrow> nat \<times> nat" where
  "quota_state l now =
     (if 0 < max_bytes_per_day l \<and> QUOTA_WINDOW \<le> now - window_start l then (0, now)
      else (bytes_used l, window_start l))"

definition refilled :: "(f64 \<Rightarrow> f64) \<Rightarrow> rate_limiter \<Rightarrow> nat \<Rightarrow> f64" where
  "refilled rnd l now =
     min (rnd (tokens l + rnd (as_secs_f64 rnd (now - last_refill l) * max_pps l))) (burst l)"

definition rate_check_at :: "(f64 \<Rightarrow> f64) \<Rightarrow> rate_limiter \<Rightarrow> nat \<Rightarrow> nat \<Rightarrow> rate_decision \<times> rate_limiter" where
  "rate_check_at rnd l packet_len now =
     (let (used, wstart) = quota_state l now
      in if 0 < max_bytes_per_day l \<and> max_bytes_per_day l < sat_add used WIRE_BYTES_PER_PACKET
         then (Throttled DailyQuota, l)
         else if 0 < max_pps l \<and> refilled rnd l now < 1 then (Throttled Rate, l)
         else let l1 = (if 0 < max_pps l
                        then l\<lparr>tokens := rnd (refilled rnd l now - 1), last_refill := now\<rparr> else l);
                  l2 = (if 0 < max_bytes_per_day l
                        then l1\<lparr>bytes_used := sat_add used WIRE_BYTES_PER_PACKET, window_start := wstart\<rparr>
                        else l1)
              in (Allow, l2))"

section \<open>Per-source limiter\<close>

record source_limiter =
  buckets :: "(ipaddr, rate_limiter \<times> nat) hashmap"
  max_entries :: nat
  src_pps :: f64
  src_bytes_per_day :: nat

definition source_new :: "f64 \<Rightarrow> nat \<Rightarrow> nat \<Rightarrow> source_limiter" where
  "source_new pps bytes_per_day max_e =
     \<lparr>buckets = [], max_entries = max max_e 1, src_pps = pps, src_bytes_per_day = bytes_per_day\<rparr>"

text \<open>\<open>min_by_key\<close> over the entries: the first one with the least time of last use.\<close>

fun least_seen :: "(ipaddr, rate_limiter \<times> nat) hashmap \<Rightarrow> (ipaddr \<times> nat) option" where
  "least_seen [] = None"
| "least_seen ((ip, (_, seen)) # es) =
     (case least_seen es of
        None \<Rightarrow> Some (ip, seen)
      | Some (ip', seen') \<Rightarrow> if seen \<le> seen' then Some (ip, seen) else Some (ip', seen'))"

definition source_check_at :: "(f64 \<Rightarrow> f64) \<Rightarrow> source_limiter \<Rightarrow> ipaddr \<Rightarrow> nat \<Rightarrow> nat \<Rightarrow> nat \<Rightarrow> nat
    \<Rightarrow> rate_decision \<times> source_limiter" where
  "source_check_at rnd s src packet_len now t1 t2 =
     (let b0 = buckets s;
          b1 = (if \<not> hm_contains b0 src \<and> max_entries s \<le> length b0
                then case least_seen b0 of None \<Rightarrow> b0 | Some (victim, _) \<Rightarrow> hm_remove victim b0
                else b0);
          entry = (case hm_get b1 src of
                     Some e \<Rightarrow> e
                   | None \<Rightarrow> (rate_new rnd (src_pps s) (src_bytes_per_day s) t1 t2, now));
          (d, l') = rate_check_at rnd (fst entry) packet_len now
      in (d, s\<lparr>buckets := hm_insert src (l', now) b1\<rparr>))"

section \<open>The bucket\<close>

text \<open>The bucket never holds more than the burst nor less than nothing, and the quota is never exceeded.\<close>

definition rate_inv :: "(f64 \<Rightarrow> f64) \<Rightarrow> rate_limiter \<Rightarrow> bool" where
  "rate_inv rnd l \<longleftrightarrow> 0 \<le> max_pps l \<and> 0 \<le> tokens l \<and> tokens l \<le> burst l \<and> rnd (burst l) = burst l
     \<and> (0 < max_bytes_per_day l \<longrightarrow> bytes_used l \<le> max_bytes_per_day l)"

lemma rate_inv_new: "rounding_ok rnd \<Longrightarrow> rate_inv rnd (rate_new rnd pps b t1 t2)"
proof -
  assume "rounding_ok rnd"
  then have "0 < pps \<Longrightarrow> 0 \<le> rnd (pps * 2)"
    unfolding rounding_ok_def by (metis less_imp_le mult_nonneg_nonneg zero_le_numeral)
  with \<open>rounding_ok rnd\<close> show ?thesis
    by (auto simp: rate_inv_def rate_new_def Let_def rounding_ok_def max_def)
qed

lemma rate_throttled_unchanged:
  "rate_check_at rnd l n now = (Throttled r, l') \<Longrightarrow> l' = l"
  by (auto simp: rate_check_at_def Let_def split: prod.splits if_splits)

lemma refilled_le_burst: "refilled rnd l now \<le> burst l"
  by (simp add: refilled_def)

lemma allow_tokens:
  assumes "rate_check_at rnd l n now = (Allow, l')" "0 < max_pps l"
  shows "1 \<le> refilled rnd l now \<and> tokens l' = rnd (refilled rnd l now - 1) \<and> last_refill l' = now"
  using assms by (auto simp: rate_check_at_def Let_def split: prod.splits if_splits)

lemma rate_config_kept:
  "rate_check_at rnd l n now = (d, l') \<Longrightarrow>
     max_pps l' = max_pps l \<and> burst l' = burst l \<and> max_bytes_per_day l' = max_bytes_per_day l"
  by (auto simp: rate_check_at_def Let_def split: prod.splits if_splits)

lemma rate_inv_check:
  assumes r: "rounding_ok rnd" and inv: "rate_inv rnd l" and c: "rate_check_at rnd l n now = (d, l')"
  shows "rate_inv rnd l'"
proof (cases d)
  case (Throttled x)
  with c inv rate_throttled_unchanged show ?thesis by metis
next
  case Allow
  note a = c [unfolded Allow]
  have tok: "0 \<le> tokens l' \<and> tokens l' \<le> burst l"
  proof (cases "0 < max_pps l")
    case True
    note t = allow_tokens [OF a True]
    have "rnd 0 \<le> rnd (refilled rnd l now - 1)" "rnd (refilled rnd l now - 1) \<le> rnd (burst l)"
      using t refilled_le_burst [of rnd l now] by (auto intro!: rounding_mono [OF r])
    with t r inv show ?thesis by (simp add: rounding_ok_def rate_inv_def)
  next
    case False
    with a inv show ?thesis
      by (auto simp: rate_check_at_def Let_def rate_inv_def split: prod.splits if_splits)
  qed
  have "0 < max_bytes_per_day l \<Longrightarrow> bytes_used l' \<le> max_bytes_per_day l"
    using a by (auto simp: rate_check_at_def Let_def split: prod.splits if_splits)
  with tok inv rate_config_kept [OF c] show ?thesis by (simp add: rate_inv_def)
qed

text \<open>
  Every check keeps the limiter's invariant for any monotone rounding (tokens between
  zero and the burst, bytes within the daily quota), and a throttled check changes nothing, so
  a flood of refused packets can neither drain the bucket nor consume the quota.
\<close>

theorem rate_check_safe:
  assumes "rounding_ok rnd" and "rate_inv rnd l" and "rate_check_at rnd l n now = (d, l')"
  shows "rate_inv rnd l' \<and> (d \<noteq> Allow \<longrightarrow> l' = l)
    \<and> (d = Allow \<and> 0 < max_bytes_per_day l \<longrightarrow> bytes_used l' \<le> max_bytes_per_day l)"
proof -
  have "d \<noteq> Allow \<Longrightarrow> l' = l"
    using assms(3) rate_throttled_unchanged by (cases d) blast+
  moreover have "rate_inv rnd l'" using assms by (rule rate_inv_check)
  ultimately show ?thesis using rate_config_kept [OF assms(3)] by (simp add: rate_inv_def)
qed

lemma rounding_id: "rounding_ok (\<lambda>x. x)"
  by (simp add: rounding_ok_def)

theorem rate_check_safe_witness:
  "rate_check_at (\<lambda>x. x) (rate_new (\<lambda>x. x) 1 5000 0 0) 2048 0
     = (Allow, (rate_new (\<lambda>x. x) 1 5000 0 0)\<lparr>tokens := 1, bytes_used := 2064\<rparr>)
   \<and> rate_inv (\<lambda>x. x) ((rate_new (\<lambda>x. x) 1 5000 0 0)\<lparr>tokens := 1, bytes_used := 2064\<rparr>)"
proof -
  have c: "rate_check_at (\<lambda>x. x) (rate_new (\<lambda>x. x) 1 5000 0 0) 2048 0
     = (Allow, (rate_new (\<lambda>x. x) 1 5000 0 0)\<lparr>tokens := 1, bytes_used := 2064\<rparr>)"
    by (simp add: rate_check_at_def rate_new_def quota_state_def refilled_def as_secs_f64_def
        WIRE_BYTES_PER_PACKET_def QUOTA_WINDOW_def sat_add_def u64_max_def Let_def)
  from rate_check_safe [OF rounding_id rate_inv_new [OF rounding_id] c] c show ?thesis by simp
qed

section \<open>Bounds on what gets through\<close>

fun rate_run :: "(f64 \<Rightarrow> f64) \<Rightarrow> rate_limiter \<Rightarrow> nat list \<Rightarrow> nat \<times> rate_limiter" where
  "rate_run rnd l [] = (0, l)"
| "rate_run rnd l (now # ts) =
     (let (d, l') = rate_check_at rnd l 0 now; (n, l'') = rate_run rnd l' ts
      in (if d = Allow then Suc n else n, l''))"

lemma quota_same_window:
  assumes "0 < max_bytes_per_day l" "now < window_start l + QUOTA_WINDOW"
    "max_bytes_per_day l < u64_max" "rate_check_at rnd l n now = (d, l')"
  shows "window_start l' = window_start l
    \<and> bytes_used l' = bytes_used l + (if d = Allow then WIRE_BYTES_PER_PACKET else 0)"
proof -
  have "quota_state l now = (bytes_used l, window_start l)"
    using assms(2) by (auto simp: quota_state_def QUOTA_WINDOW_def)
  with assms(1,3,4) show ?thesis
    by (auto simp: rate_check_at_def Let_def sat_add_def min_def split: if_splits)
qed

lemma quota_run:
  assumes "rounding_ok rnd" "rate_inv rnd l" "0 < max_bytes_per_day l" "max_bytes_per_day l < u64_max"
    "\<forall>t \<in> set ts. t < window_start l + QUOTA_WINDOW" "rate_run rnd l ts = (n, l')"
  shows "bytes_used l' = bytes_used l + n * WIRE_BYTES_PER_PACKET \<and> bytes_used l' \<le> max_bytes_per_day l"
  using assms(2-6)
proof (induction ts arbitrary: l n l')
  case Nil
  then show ?case by (simp add: rate_inv_def)
next
  case (Cons t ts)
  obtain d l1 where d: "rate_check_at rnd l 0 t = (d, l1)" by force
  obtain m l2 where m: "rate_run rnd l1 ts = (m, l2)" by force
  have n: "n = (if d = Allow then Suc m else m)" "l' = l2"
    using Cons.prems(5) by (auto simp: d m)
  note q = quota_same_window [OF Cons.prems(2) _ Cons.prems(3) d]
  note cfg = rate_config_kept [OF d]
  have "bytes_used l2 = bytes_used l1 + m * WIRE_BYTES_PER_PACKET \<and> bytes_used l2 \<le> max_bytes_per_day l1"
    by (rule Cons.IH [OF rate_inv_check [OF assms(1) Cons.prems(1) d]])
      (use Cons.prems q cfg m in auto)
  with q cfg n Cons.prems(4) show ?case by auto
qed

text \<open>
  Within one quota window, however the checks are spread over it, the number of packets
  let through is at most the daily byte limit divided by the 2064 bytes a packet costs.
\<close>

theorem daily_quota_bound:
  assumes "rounding_ok rnd" and "0 < max_bytes" and "max_bytes < u64_max"
    and "\<forall>t \<in> set ts. t < t0 + QUOTA_WINDOW"
  shows "fst (rate_run rnd (rate_new rnd pps max_bytes t1 t0) ts) * WIRE_BYTES_PER_PACKET \<le> max_bytes"
proof -
  obtain n l' where r: "rate_run rnd (rate_new rnd pps max_bytes t1 t0) ts = (n, l')" by force
  have f: "max_bytes_per_day (rate_new rnd pps max_bytes t1 t0) = max_bytes"
    "window_start (rate_new rnd pps max_bytes t1 t0) = t0" "bytes_used (rate_new rnd pps max_bytes t1 t0) = 0"
    by (simp_all add: rate_new_def Let_def)
  from quota_run [OF assms(1) rate_inv_new [OF assms(1)] _ _ _ r] assms f show ?thesis
    by (simp add: r)
qed

theorem daily_quota_bound_witness:
  "fst (rate_run (\<lambda>x. x) (rate_new (\<lambda>x. x) 0 5000 0 0) [0, 1, 2, 3]) * WIRE_BYTES_PER_PACKET \<le> 5000"
  by (rule daily_quota_bound [OF rounding_id]) (simp_all add: QUOTA_WINDOW_def u64_max_def)

text \<open>The token bucket in exact arithmetic: packets let through plus the tokens left are bounded by the refill.\<close>

lemma as_secs_exact: "as_secs_f64 (\<lambda>x. x) d = of_nat d / 1000000000"
proof -
  have "(of_nat d :: rat) = of_nat (d div 1000000000) * 1000000000 + of_nat (d mod 1000000000)"
    by (metis div_mult_mod_eq of_nat_add of_nat_mult of_nat_numeral)
  then show ?thesis by (simp add: as_secs_f64_def add_divide_distrib)
qed

lemma token_run:
  assumes "0 < max_pps l" "sorted (last_refill l # ts)" "rate_run (\<lambda>x. x) l ts = (n, l')"
    "\<forall>t \<in> set ts. t \<le> T" "last_refill l \<le> T" "0 \<le> tokens l'"
  shows "of_nat n \<le> tokens l + of_nat (T - last_refill l) / 1000000000 * max_pps l"
  using assms
proof (induction ts arbitrary: l n)
  case Nil
  then show ?case by simp
next
  case (Cons t ts)
  obtain d l1 where d: "rate_check_at (\<lambda>x. x) l 0 t = (d, l1)" by force
  obtain m l2 where m: "rate_run (\<lambda>x. x) l1 ts = (m, l2)" by force
  have n: "n = (if d = Allow then Suc m else m)" "l' = l2"
    using Cons.prems(3) by (auto simp: d m)
  show ?case
  proof (cases d)
    case (Throttled r)
    then have "l1 = l" using d rate_throttled_unchanged by blast
    with Cons m n Throttled show ?thesis by simp
  next
    case Allow
    note a = allow_tokens [OF d [unfolded Allow] Cons.prems(1)]
    have pps: "max_pps l1 = max_pps l" using rate_config_kept [OF d] by simp
    have IH: "of_nat m \<le> tokens l1 + of_nat (T - last_refill l1) / 1000000000 * max_pps l1"
      by (rule Cons.IH) (use Cons.prems a pps m n in auto)
    have "tokens l1 \<le> tokens l + of_nat (t - last_refill l) / 1000000000 * max_pps l - 1"
      using a by (simp add: refilled_def as_secs_exact)
    moreover have "(of_nat (T - last_refill l) :: rat) = of_nat (t - last_refill l) + of_nat (T - t)"
      using Cons.prems(2,4) by (simp flip: of_nat_add)
    ultimately show ?thesis
      using IH a pps n Allow by (simp add: add_divide_distrib distrib_right)
  qed
qed

lemma rate_inv_run:
  "rounding_ok rnd \<Longrightarrow> rate_inv rnd l \<Longrightarrow> rate_run rnd l ts = (n, l') \<Longrightarrow> rate_inv rnd l'"
proof (induction ts arbitrary: l n)
  case Nil
  then show ?case by simp
next
  case (Cons t ts)
  then show ?case
    by (auto simp: Let_def split: prod.splits dest: rate_inv_check)
qed

text \<open>
  In exact arithmetic the token bucket bounds the rate: over any \<open>T\<close> nanoseconds from its
  creation it lets through at most the burst (twice the configured rate) plus the rate times
  the elapsed seconds.
\<close>

theorem token_bucket_bound:
  assumes "0 < pps" and "sorted (t0 # ts)" and "\<forall>t \<in> set ts. t \<le> t0 + T"
  shows "of_nat (fst (rate_run (\<lambda>x. x) (rate_new (\<lambda>x. x) pps max_bytes t0 t1) ts))
    \<le> 2 * pps + of_nat T / 1000000000 * pps"
proof -
  let ?l = "rate_new (\<lambda>x. x) pps max_bytes t0 t1"
  obtain n l' where r: "rate_run (\<lambda>x. x) ?l ts = (n, l')" by force
  have "0 \<le> tokens l'"
    using rate_inv_run [OF rounding_id rate_inv_new [OF rounding_id] r] by (simp add: rate_inv_def)
  moreover have "max_pps ?l = pps" "tokens ?l = 2 * pps" "last_refill ?l = t0"
    using assms(1) by (simp_all add: rate_new_def Let_def max_def)
  ultimately show ?thesis
    using token_run [OF _ _ r, of "t0 + T"] assms by (simp add: r)
qed

theorem token_bucket_bound_witness:
  "of_nat (fst (rate_run (\<lambda>x. x) (rate_new (\<lambda>x. x) 2 0 0 0) [0, 0, 0, 0, 0, 0])) \<le> (2 * 2 + of_nat 0 / 1000000000 * 2 :: rat)"
  by (rule token_bucket_bound) simp_all

section \<open>The table of buckets\<close>

definition source_inv :: "(f64 \<Rightarrow> f64) \<Rightarrow> source_limiter \<Rightarrow> bool" where
  "source_inv rnd s \<longleftrightarrow> hm_wf (buckets s) \<and> 0 < max_entries s \<and> length (buckets s) \<le> max_entries s
     \<and> (\<forall>ip l seen. hm_get (buckets s) ip = Some (l, seen) \<longrightarrow> rate_inv rnd l)"

lemma least_seen_None: "least_seen es = None \<longleftrightarrow> es = []"
  by (cases es rule: least_seen.cases) (auto split: option.splits if_splits)

lemma least_seen_in: "least_seen es = Some (ip, seen) \<Longrightarrow> \<exists>l. (ip, (l, seen)) \<in> set es"
  by (induction es arbitrary: ip seen rule: least_seen.induct) (auto split: option.splits if_splits)

lemma least_seen_min: "least_seen es = Some (ip, seen) \<Longrightarrow> (i, (l, s)) \<in> set es \<Longrightarrow> seen \<le> s"
proof (induction es arbitrary: ip seen rule: least_seen.induct)
  case 1
  then show ?case by simp
next
  case (2 ip0 l0 seen0 es)
  show ?case
  proof (cases "least_seen es")
    case None
    then have "es = []" by (simp add: least_seen_None)
    with 2 show ?thesis by simp
  next
    case (Some r)
    obtain ip1 seen1 where r: "r = (ip1, seen1)" by force
    show ?thesis
    proof (cases "(i, (l, s)) \<in> set es")
      case True
      with 2(1) [of ip1 seen1] Some r have "seen1 \<le> s" by simp
      with 2(2) Some r show ?thesis by (auto split: if_splits)
    next
      case False
      with 2(2,3) Some r show ?thesis by (auto split: if_splits)
    qed
  qed
qed

interpretation src: oldest_scan snd least_seen
  by unfold_locales (auto simp: least_seen_None dest: least_seen_in least_seen_min)

text \<open>
  The per-source table never grows beyond its limit, keeps every bucket's invariant, and a
  check of one source leaves the bucket of every other source as it was, unless that source is
  the least recently seen one of a full table and makes room for a new source.
\<close>

theorem source_check_isolated:
  assumes "rounding_ok rnd" and "source_inv rnd s"
    and "source_check_at rnd s src n now t1 t2 = (d, s')"
  shows "source_inv rnd s' \<and> length (buckets s') \<le> max_entries s
    \<and> (\<forall>ip. ip \<noteq> src \<longrightarrow> hm_get (buckets s') ip = hm_get (buckets s) ip
        \<or> (hm_get (buckets s') ip = None \<and> hm_get (buckets s) src = None
           \<and> max_entries s \<le> length (buckets s)
           \<and> (\<exists>seen. least_seen (buckets s) = Some (ip, seen))))"
proof -
  let ?b0 = "buckets s"
  define b1 where "b1 = (if \<not> hm_contains ?b0 src \<and> max_entries s \<le> length ?b0 then src.evicted ?b0 else ?b0)"
  define entry where "entry = (case hm_get b1 src of
                     Some e \<Rightarrow> e
                   | None \<Rightarrow> (rate_new rnd (src_pps s) (src_bytes_per_day s) t1 t2, now))"
  obtain d' l' where c: "rate_check_at rnd (fst entry) n now = (d', l')" by force
  have s': "s' = s\<lparr>buckets := hm_insert src (l', now) b1\<rparr>"
    using assms(3) unfolding source_check_at_def Let_def src.evicted_def [symmetric] b1_def [symmetric] entry_def [symmetric] c
    by simp
  have wf0: "hm_wf ?b0" "length ?b0 \<le> max_entries s" "0 < max_entries s"
    using assms(2) by (simp_all add: source_inv_def)
  have wf1: "hm_wf b1" using wf0(1) by (simp add: b1_def src.evicted_wf)
  have sub: "hm_get b1 ip = hm_get ?b0 ip \<or> (hm_get b1 ip = None \<and> hm_get ?b0 src = None
      \<and> max_entries s \<le> length ?b0 \<and> (\<exists>seen. least_seen ?b0 = Some (ip, seen)))" for ip
    using src.evicted_get [of ?b0 ip] by (cases "hm_get ?b0 src") (auto simp: b1_def hm_contains_def)
  have room: "length (hm_insert src (l', now) b1) \<le> max_entries s"
    unfolding b1_def by (rule src.room_for_new [OF wf0])
  have inv1: "hm_get b1 ip = Some (l, seen) \<Longrightarrow> rate_inv rnd l" for ip l seen
    using sub [of ip] assms(2) unfolding source_inv_def by (metis option.distinct(1))
  have "rate_inv rnd (fst entry)"
    using inv1 rate_inv_new [OF assms(1)] by (auto simp: entry_def split: option.splits)
  then have "rate_inv rnd l'" using c by (rule rate_inv_check [OF assms(1)])
  then have "source_inv rnd s'"
    using wf1 wf0 room inv1 by (auto simp: source_inv_def s' hm_simps split: if_splits)
  with room sub show ?thesis by (auto simp: s' hm_simps)
qed

theorem source_check_isolated_witness:
  "length (buckets (snd (source_check_at (\<lambda>x. x) (source_new 1 0 1) (V4 [1, 2, 3, 4]) 2048 5 5 5))) \<le> 1"
proof -
  have inv: "source_inv (\<lambda>x. x) (source_new 1 0 1)"
    by (simp add: source_inv_def source_new_def hm_simps)
  have e: "source_check_at (\<lambda>x. x) (source_new 1 0 1) (V4 [1, 2, 3, 4]) 2048 5 5 5 =
    (fst (source_check_at (\<lambda>x. x) (source_new 1 0 1) (V4 [1, 2, 3, 4]) 2048 5 5 5),
     snd (source_check_at (\<lambda>x. x) (source_new 1 0 1) (V4 [1, 2, 3, 4]) 2048 5 5 5))" by simp
  have "max_entries (source_new 1 0 1) = 1" by (simp add: source_new_def)
  with source_check_isolated [OF rounding_id inv e] show ?thesis by simp
qed

end
