(* ===== verification/Relay_Process.thy ===== *)
theory Relay_Process
  imports Sphinx_Correct Lioness Replay_Cache Rate_Limit
begin

text \<open>
  What a relay does with one packet, crypto-gotham-relay/src/process.rs, and the delay it holds
  the packet for, crypto-gotham-relay/src/delay.rs. Durations are nanoseconds. The clock
  readings of the rate limiter and of the replay cache, the uniform draw of the scheduler and
  the logarithm of the floating-point library are arguments.
\<close>

section \<open>The delay scheduler\<close>

record scheduler =
  lambda :: f64
  mean_micros :: nat

definition scheduler_new :: "(f64 \<Rightarrow> f64) \<Rightarrow> nat \<Rightarrow> scheduler" where
  "scheduler_new rnd mean_delay_micros =
     \<lparr>lambda = (if mean_delay_micros = 0 then 0 else rnd (1000000 / rnd (of_nat mean_delay_micros))),
      mean_micros = mean_delay_micros\<rparr>"

definition f64_min_positive :: f64 where "f64_min_positive = 1 / 2 ^ 1022"

text \<open>\<open>Duration::from_secs_f64\<close> on a number that is not negative: nanoseconds, ties to even.\<close>

definition round_even :: "f64 \<Rightarrow> nat" where
  "round_even x =
     (let f = nat \<lfloor>x\<rfloor>; d = x - of_nat f
      in if d < 1 / 2 then f else if 1 / 2 < d then Suc f else if even f then f else Suc f)"

definition from_secs_f64 :: "f64 \<Rightarrow> nat" where
  "from_secs_f64 secs = round_even (secs * 1000000000)"

definition clamp_f64 :: "f64 \<Rightarrow> f64 \<Rightarrow> f64 \<Rightarrow> f64" where
  "clamp_f64 lo hi x = (if x < lo then lo else if hi < x then hi else x)"

definition next_delay :: "(f64 \<Rightarrow> f64) \<Rightarrow> (f64 \<Rightarrow> f64) \<Rightarrow> scheduler \<Rightarrow> f64 \<Rightarrow> nat" where
  "next_delay rnd lnf s draw =
     (if lambda s = 0 then 0
      else let u = (if draw = 0 then f64_min_positive else draw);
               secs = rnd (- lnf u / lambda s);
               max_secs = rnd (rnd (100 * rnd (of_nat (mean_micros s))) / 1000000)
           in from_secs_f64 (clamp_f64 0 max_secs secs))"

section \<open>The relay\<close>

definition PACKET_SIZE :: nat where "PACKET_SIZE = 2048"

datatype drop_reason = DropBadMac | DropReplay | DropMalformed | DropPolicyDenied | DropRateLimited

datatype process_outcome =
    Drop drop_reason
  | Forward (next_addr: "bytes \<times> 16 word") (next_id: bytes) (fdelay: nat) (via_rdv: bool) (packet: bytes)
  | DeliverLocal (fdelay: nat) (payload: bytes)

definition is_drop :: "process_outcome \<Rightarrow> bool" where
  "is_drop out = (case out of Drop _ \<Rightarrow> True | _ \<Rightarrow> False)"

record relay =
  replay_cache :: replay_cache
  rscheduler :: scheduler
  rlimiter :: rate_limiter
  accept_header_v2 :: bool
  v2_accepted :: nat
  replay_path :: "string option"
  identity_sk :: bytes

definition relay_new :: "(f64 \<Rightarrow> f64) \<Rightarrow> bytes \<Rightarrow> nat \<Rightarrow> nat \<Rightarrow> nat \<Rightarrow> nat \<Rightarrow> nat \<Rightarrow> relay" where
  "relay_new rnd sk replay_max_size replay_ttl mean_delay_micros t1 t2 =
     \<lparr>replay_cache = replay_new replay_max_size replay_ttl,
      rscheduler = scheduler_new rnd mean_delay_micros,
      rlimiter = rate_unlimited rnd t1 t2, accept_header_v2 = True, v2_accepted = 0,
      replay_path = None, identity_sk = sk\<rparr>"

definition with_replay_persistence :: "relay \<Rightarrow> string \<Rightarrow> read_result \<Rightarrow> nat \<Rightarrow> nat \<Rightarrow> relay" where
  "with_replay_persistence r path file now now_unix =
     r\<lparr>replay_cache := snd (persist_load (replay_cache r) file now now_unix), replay_path := Some path\<rparr>"

definition encode_replay :: "relay \<Rightarrow> nat \<Rightarrow> nat \<Rightarrow> (bytes \<times> string) option" where
  "encode_replay r now now_unix =
     (case replay_path r of None \<Rightarrow> None
      | Some path \<Rightarrow> Some (persist_encode (replay_cache r) now now_unix, path))"

definition persists_replay :: "relay \<Rightarrow> bool" where
  "persists_replay r = (replay_path r \<noteq> None)"

definition strict_header_v3 :: "relay \<Rightarrow> relay" where
  "strict_header_v3 r = r\<lparr>accept_header_v2 := False\<rparr>"

definition with_rate_limit :: "(f64 \<Rightarrow> f64) \<Rightarrow> relay \<Rightarrow> f64 \<Rightarrow> nat \<Rightarrow> nat \<Rightarrow> nat \<Rightarrow> relay" where
  "with_rate_limit rnd r pps bytes_per_day t1 t2 = r\<lparr>rlimiter := rate_new rnd pps bytes_per_day t1 t2\<rparr>"

definition identity_public_key :: "prims \<Rightarrow> relay \<Rightarrow> bytes" where
  "identity_public_key P r = x25519 P (identity_sk r) x25519_base"

definition MAX_HOP_DELAY :: nat where "MAX_HOP_DELAY = 30 * NANOS"

record env =
  e_rnd :: "f64 \<Rightarrow> f64"
  e_ln :: "f64 \<Rightarrow> f64"
  e_draw :: f64
  e_rate_now :: nat
  e_cache_now :: nat

definition hop_delay :: "env \<Rightarrow> relay \<Rightarrow> 32 word \<Rightarrow> nat" where
  "hop_delay E r micros =
     (if micros = 0 then next_delay (e_rnd E) (e_ln E) (rscheduler r) (e_draw E)
      else min (unat micros * 1000) MAX_HOP_DELAY)"

text \<open>The part of \<open>process\<close> after the MAC and the replay check have passed.\<close>

definition dispatch :: "prims \<Rightarrow> env \<Rightarrow> relay \<Rightarrow> bytes \<Rightarrow> hop_subkeys \<Rightarrow> unwrap_outcome \<Rightarrow> process_outcome" where
  "dispatch P E r packet_bytes sub_keys out =
     (let rec = out_record out;
          delay = hop_delay E r (delay_micros rec);
          payload_region = lioness_decrypt P (k_payload sub_keys) (drop HEADER_LEN packet_bytes)
      in if is_last_hop rec then DeliverLocal delay payload_region
         else let next_packet = header_encode (out_next_header out) @ payload_region
              in if next_node_id rec = identity_public_key P r then Drop DropPolicyDenied
                 else Forward (next_ipv4 rec, next_port rec) (next_node_id rec) delay
                        (is_via_rendezvous rec) next_packet)"

definition process :: "prims \<Rightarrow> env \<Rightarrow> relay \<Rightarrow> bytes \<Rightarrow> process_outcome \<times> relay" where
  "process P E r packet_bytes =
     (if length packet_bytes \<noteq> PACKET_SIZE then (Drop DropMalformed, r)
      else let (decision, l) = rate_check_at (e_rnd E) (rlimiter r) (length packet_bytes) (e_rate_now E);
               r1 = r\<lparr>rlimiter := l\<rparr>
           in if \<not> is_allowed decision then (Drop DropRateLimited, r1)
              else case header_decode (take HEADER_LEN packet_bytes) of
                Inl _ \<Rightarrow> (Drop DropMalformed, r1)
              | Inr h \<Rightarrow>
                  if hversion h = VERSION_LEGACY \<and> \<not> accept_header_v2 r1 then (Drop DropMalformed, r1)
                  else let r2 = (if hversion h = VERSION_LEGACY
                                 then r1\<lparr>v2_accepted := sat_add (v2_accepted r1) 1\<rparr> else r1)
                       in case derive_hop_subkeys P (x25519 P (identity_sk r2) (halpha h)) of
                            Inl _ \<Rightarrow> (Drop DropMalformed, r2)
                          | Inr sub_keys \<Rightarrow>
                              (case unwrap_header P h sub_keys of
                                 Inl BadMac \<Rightarrow> (Drop DropBadMac, r2)
                               | Inl _ \<Rightarrow> (Drop DropMalformed, r2)
                               | Inr out \<Rightarrow>
                                   let (chk, c) = check_and_insert_at (replay_cache r2) (hgamma h) (e_cache_now E);
                                       r3 = r2\<lparr>replay_cache := c\<rparr>
                                   in if chk = Replayed then (Drop DropReplay, r3)
                                      else (dispatch P E r3 packet_bytes sub_keys out, r3)))"

section \<open>Delays\<close>

lemma round_even_mono: "0 \<le> x \<Longrightarrow> x \<le> y \<Longrightarrow> round_even x \<le> round_even y"
proof -
  assume xy: "0 \<le> x" "x \<le> y"
  let ?f = "nat \<lfloor>x\<rfloor>" and ?g = "nat \<lfloor>y\<rfloor>"
  have f: "of_nat ?f = (of_int \<lfloor>x\<rfloor> :: rat)" and g: "of_nat ?g = (of_int \<lfloor>y\<rfloor> :: rat)"
    using xy by (simp_all add: of_nat_nat)
  have le: "?f \<le> ?g" using xy by (simp add: floor_mono nat_mono)
  show ?thesis
  proof (cases "?f = ?g")
    case True
    then have "x - of_nat ?f \<le> y - of_nat ?g" using xy by simp
    with True show ?thesis by (auto simp: round_even_def Let_def)
  next
    case False
    then have "Suc ?f \<le> ?g" using le by simp
    then show ?thesis by (auto simp: round_even_def Let_def)
  qed
qed

lemma round_even_nat [simp]: "round_even (of_nat n) = n"
  by (simp add: round_even_def)

lemma next_delay_le:
  assumes "rounding_ok rnd"
  shows "next_delay rnd lnf s draw \<le> from_secs_f64 (rnd (rnd (100 * rnd (of_nat (mean_micros s))) / 1000000))"
proof -
  have nn: "0 \<le> x \<Longrightarrow> 0 \<le> rnd x" for x
    using assms unfolding rounding_ok_def by metis
  let ?m = "rnd (rnd (100 * rnd (of_nat (mean_micros s))) / 1000000)"
  have m: "0 \<le> ?m" by (intro nn divide_nonneg_pos mult_nonneg_nonneg) simp_all
  have "from_secs_f64 (clamp_f64 0 ?m secs) \<le> from_secs_f64 ?m" for secs
    unfolding from_secs_f64_def
    by (rule round_even_mono) (use m in \<open>auto simp: clamp_f64_def\<close>)
  then show ?thesis by (simp add: next_delay_def Let_def)
qed

section \<open>Which packets are processed\<close>

text \<open>The checks a packet has to pass, in the order of the code, with what each of them yields.\<close>

definition acceptable :: "prims \<Rightarrow> env \<Rightarrow> relay \<Rightarrow> bytes \<Rightarrow> header \<Rightarrow> hop_subkeys \<Rightarrow> unwrap_outcome \<Rightarrow> bool" where
  "acceptable P E r pkt h sub out \<longleftrightarrow> length pkt = PACKET_SIZE
     \<and> fst (rate_check_at (e_rnd E) (rlimiter r) PACKET_SIZE (e_rate_now E)) = Allow
     \<and> header_decode (take HEADER_LEN pkt) = Inr h
     \<and> (hversion h = VERSION_LEGACY \<longrightarrow> accept_header_v2 r)
     \<and> derive_hop_subkeys P (x25519 P (identity_sk r) (halpha h)) = Inr sub
     \<and> unwrap_header P h sub = Inr out
     \<and> fst (check_and_insert_at (replay_cache r) (hgamma h) (e_cache_now E)) = Fresh"

lemma dispatch_cong:
  "rscheduler r' = rscheduler r \<Longrightarrow> identity_sk r' = identity_sk r \<Longrightarrow>
   dispatch P E r' pkt sub out = dispatch P E r pkt sub out"
  by (simp add: dispatch_def hop_delay_def identity_public_key_def Let_def)

lemma process_acceptable:
  assumes "acceptable P E r pkt h sub out"
  shows "fst (process P E r pkt) = dispatch P E r pkt sub out"
    "replay_cache (snd (process P E r pkt)) =
       snd (check_and_insert_at (replay_cache r) (hgamma h) (e_cache_now E))"
  using assms
  by (auto simp: process_def acceptable_def is_allowed_def Let_def split: prod.splits
      intro!: dispatch_cong)

lemma process_rejected:
  assumes "\<nexists>h sub out. acceptable P E r pkt h sub out"
  shows "is_drop (fst (process P E r pkt))"
proof (cases "length pkt = PACKET_SIZE \<and> fst (rate_check_at (e_rnd E) (rlimiter r) PACKET_SIZE (e_rate_now E)) = Allow")
  case False
  then show ?thesis by (auto simp: process_def is_drop_def is_allowed_def split: prod.splits)
next
  case True
  show ?thesis
  proof (cases "header_decode (take HEADER_LEN pkt)")
    case (Inl e)
    with True show ?thesis by (auto simp: process_def is_drop_def is_allowed_def split: prod.splits)
  next
    case (Inr h)
    note dec = Inr
    show ?thesis
    proof (cases "(hversion h = VERSION_LEGACY \<longrightarrow> accept_header_v2 r)
        \<and> (\<exists>sub. derive_hop_subkeys P (x25519 P (identity_sk r) (halpha h)) = Inr sub)")
      case False
      then have "(hversion h = VERSION_LEGACY \<and> \<not> accept_header_v2 r)
          \<or> (\<exists>e. derive_hop_subkeys P (x25519 P (identity_sk r) (halpha h)) = Inl e)"
        by (metis sum.exhaust)
      with True dec show ?thesis
        by (auto simp: process_def is_drop_def is_allowed_def Let_def split: prod.splits)
    next
      case sub: True
      then obtain sub where sb: "derive_hop_subkeys P (x25519 P (identity_sk r) (halpha h)) = Inr sub" by blast
      show ?thesis
      proof (cases "unwrap_header P h sub")
        case (Inl e)
        then show ?thesis using True dec sub sb
          by (cases e) (auto simp: process_def is_drop_def is_allowed_def Let_def split: prod.splits)
      next
        case (Inr out)
        with assms True dec sub sb have "fst (check_and_insert_at (replay_cache r) (hgamma h) (e_cache_now E)) \<noteq> Fresh"
          by (auto simp: acceptable_def)
        then have "fst (check_and_insert_at (replay_cache r) (hgamma h) (e_cache_now E)) = Replayed"
          by (metis replay_check.exhaust)
        with Inr True dec sub sb show ?thesis
          by (auto simp: process_def is_drop_def is_allowed_def Let_def split: prod.splits)
      qed
    qed
  qed
qed

text \<open>What processing changes: the cache by at most one check, the limiter by one check.\<close>

lemma process_state:
  assumes "process P E r pkt = (out, r')"
  shows "identity_sk r' = identity_sk r" "rscheduler r' = rscheduler r" "accept_header_v2 r' = accept_header_v2 r"
    "replay_cache r' = replay_cache r
     \<or> (\<exists>g. replay_cache r' = snd (check_and_insert_at (replay_cache r) g (e_cache_now E)))"
    "rlimiter r' = rlimiter r \<or> rlimiter r' = snd (rate_check_at (e_rnd E) (rlimiter r) PACKET_SIZE (e_rate_now E))"
  using assms
  by (auto simp: process_def Let_def split: if_splits prod.splits sum.splits gerror.splits) (metis snd_conv)+

definition relay_inv :: "(f64 \<Rightarrow> f64) \<Rightarrow> relay \<Rightarrow> bool" where
  "relay_inv rnd r \<longleftrightarrow> replay_inv (replay_cache r) \<and> rate_inv rnd (rlimiter r)"

lemma process_cache_fields:
  "rc_ttl (replay_cache (snd (process P E r pkt))) = rc_ttl (replay_cache r)"
  "rc_max_size (replay_cache (snd (process P E r pkt))) = rc_max_size (replay_cache r)"
  using process_state(4) [OF prod.collapse [symmetric], of P E r pkt] check_fields [OF prod.collapse [symmetric]] by auto

lemma process_cache_inv:
  "replay_inv (replay_cache r) \<Longrightarrow> replay_inv (replay_cache (snd (process P E r pkt)))"
  using process_state(4) [OF prod.collapse [symmetric], of P E r pkt] check_inv [OF _ prod.collapse [symmetric]] by metis


text \<open>A relay and a packet that is too short, used by the examples.\<close>

definition demo_env :: env where
  "demo_env = \<lparr>e_rnd = (\<lambda>x. x), e_ln = (\<lambda>x. x - 1), e_draw = 1 / 2, e_rate_now = 10, e_cache_now = 10\<rparr>"

definition demo_relay :: "bytes \<Rightarrow> relay" where
  "demo_relay sk = relay_new (\<lambda>x. x) sk 1000 (300 * NANOS) 1000 0 0"


section \<open>What goes out\<close>

lemma unwrap_header_next_wf:
  assumes "wf_header h" "unwrap_header P h k = Inr out"
  shows "wf_header (out_next_header out)"
    "hversion (out_next_header out) = hversion h" "hop_count (out_next_header out) = hop_count h"
    "unat (hop_index (out_next_header out)) = Suc (unat (hop_index h))"
proof -
  have i: "unat (hop_index h) < unat (hop_count h)" "unat (hop_count h) \<le> MAX_HOPS"
    and o: "out = unwrap_result P h k"
    using assms(2) by (auto simp: unwrap_header_Inr)
  have l: "length (slice (unat (hop_index h) * RECORD_LEN) (unat (hop_index h) * RECORD_LEN + RECORD_LEN) (hbeta h)) = RECORD_LEN"
    using i assms(1) by (simp add: length_slice wf_header_def record_lens)
  show "wf_header (out_next_header out)" using assms(1) l
    by (simp add: o unwrap_result_def wf_header_def Let_def record_decode_def length_slice record_lens blind_alpha_def)
  show "hversion (out_next_header out) = hversion h" "hop_count (out_next_header out) = hop_count h"
    by (simp_all add: o unwrap_result_def Let_def)
  have "unat (hop_index h) < MAX_HOPS" using i by simp
  then have "hop_index h \<noteq> 255 \<and> hop_index h + 1 = word_of_nat (Suc (unat (hop_index h)))"
    using byte_Suc_small [of "unat (hop_index h)"] by simp
  then show "unat (hop_index (out_next_header out)) = Suc (unat (hop_index h))"
    using \<open>unat (hop_index h) < MAX_HOPS\<close>
    by (simp add: o unwrap_result_def Let_def unat_small Suc_le_eq del: of_nat_Suc)
qed

lemma not_drop_acceptable:
  assumes "\<not> is_drop (fst (process P E r pkt))"
  obtains h sub out where "acceptable P E r pkt h sub out" "fst (process P E r pkt) = dispatch P E r pkt sub out"
    "wf_header h"
proof -
  from assms process_rejected obtain h sub out where a: "acceptable P E r pkt h sub out" by blast
  then have "length (take HEADER_LEN pkt) = HEADER_LEN" by (simp add: acceptable_def PACKET_SIZE_def HEADER_LEN_def)
  moreover have "header_decode (take HEADER_LEN pkt) = Inr h" using a by (simp add: acceptable_def)
  ultimately have "wf_header h" by (rule header_encode_decode(2))
  with a process_acceptable(1) [OF a] show ?thesis by (rule that)
qed

text \<open>A forwarded packet: its size, the fields of its header, and the bounds on its hop index.\<close>

lemma process_forward:
  assumes "fst (process P E r pkt) = Forward addr pid d via pkt'"
  shows "length pkt' = PACKET_SIZE" "pid \<noteq> identity_public_key P r" "take 3 pkt' = take 3 pkt"
    "unat (pkt' ! 3) = Suc (unat (pkt ! 3))" "unat (pkt ! 3) < unat (pkt ! 2)" "unat (pkt ! 2) \<le> MAX_HOPS"
    "(\<exists>h. header_decode (take HEADER_LEN pkt') = Inr h) \<longleftrightarrow> unat (pkt' ! 3) < unat (pkt ! 2)"
proof -
  have "\<not> is_drop (fst (process P E r pkt))" using assms by (simp add: is_drop_def)
  then obtain h sub out where a: "acceptable P E r pkt h sub out"
    and d: "fst (process P E r pkt) = dispatch P E r pkt sub out" and wf: "wf_header h"
    by (rule not_drop_acceptable)
  have len: "length pkt = PACKET_SIZE" and dec: "header_decode (take HEADER_LEN pkt) = Inr h"
    and un: "unwrap_header P h sub = Inr out" using a by (simp_all add: acceptable_def)
  let ?n = "out_next_header out"
  note n = unwrap_header_next_wf [OF wf un]
  have enc: "header_encode h = take HEADER_LEN pkt"
    using header_encode_decode(1) [OF _ dec] len by (simp add: PACKET_SIZE_def HEADER_LEN_def)
  have pre: "pkt ! i = header_encode h ! i" if "i < 4" for i using that by (simp add: enc HEADER_LEN_def)
  have flds: "pkt ! 2 = hop_count h" "pkt ! 3 = hop_index h"
    by (simp_all add: pre) (simp_all add: header_encode_def)
  have "take 3 pkt = take 3 (take HEADER_LEN pkt)" by (simp add: HEADER_LEN_def)
  then have t3: "take 3 pkt = [hversion h, hmode h, hop_count h]"
    unfolding enc [symmetric] by (simp add: header_encode_def)
  have m: "hmode ?n = hmode h" using un by (auto simp: unwrap_header_Inr unwrap_result_def Let_def)
  have ne: "length (header_encode ?n) = HEADER_LEN" using n(1) by (rule length_header_encode)
  have p: "pkt' = header_encode ?n @ lioness_decrypt P (k_payload sub) (drop HEADER_LEN pkt)"
      "pid \<noteq> identity_public_key P r"
    using assms by (auto simp: d dispatch_def Let_def split: if_splits)
  have ok: "(\<exists>h'. header_decode (header_encode ?n) = Inr h') \<longleftrightarrow> hop_index ?n < hop_count ?n"
    using dec n flds unfolding header_decode_ok_iff
    by (auto simp: header_decode_def header_encode_def Let_def split: if_splits)
  have p3: "pkt' ! 3 = hop_index ?n" by (simp add: p(1) header_encode_def)
  show "length pkt' = PACKET_SIZE" using ne len by (simp add: p(1) lioness_length PACKET_SIZE_def HEADER_LEN_def)
  show "pid \<noteq> identity_public_key P r" by (rule p(2))
  show "take 3 pkt' = take 3 pkt" using n m by (simp add: p(1) t3 header_encode_def)
  show "unat (pkt' ! 3) = Suc (unat (pkt ! 3))" using n(4) by (simp add: p3 flds)
  show "unat (pkt ! 3) < unat (pkt ! 2)" "unat (pkt ! 2) \<le> MAX_HOPS"
    using un by (auto simp: unwrap_header_Inr flds)
  show "(\<exists>h. header_decode (take HEADER_LEN pkt') = Inr h) \<longleftrightarrow> unat (pkt' ! 3) < unat (pkt ! 2)"
    using ok ne n(3) unfolding p3 flds word_less_nat_alt by (simp add: p(1))
qed

lemma process_delay:
  assumes "rounding_ok (e_rnd E)" "\<not> is_drop (fst (process P E r pkt))"
  shows "fdelay (fst (process P E r pkt)) \<le> max MAX_HOP_DELAY
    (from_secs_f64 (e_rnd E (e_rnd E (100 * e_rnd E (of_nat (mean_micros (rscheduler r)))) / 1000000)))"
proof -
  obtain h sub out where d: "fst (process P E r pkt) = dispatch P E r pkt sub out"
    using assms(2) by (rule not_drop_acceptable)
  have "hop_delay E r x \<le> max MAX_HOP_DELAY
      (from_secs_f64 (e_rnd E (e_rnd E (100 * e_rnd E (of_nat (mean_micros (rscheduler r)))) / 1000000)))" for x
    using next_delay_le [OF assms(1), of "e_ln E" "rscheduler r" "e_draw E"] by (auto simp: hop_delay_def)
  then show ?thesis
    using assms(2) by (auto simp: d dispatch_def Let_def is_drop_def split: if_splits)
qed

lemma process_delivered_length:
  assumes "fst (process P E r pkt) = DeliverLocal d pl"
  shows "length pl = PACKET_SIZE - HEADER_LEN"
proof -
  have "\<not> is_drop (fst (process P E r pkt))" using assms by (simp add: is_drop_def)
  then obtain h sub out where a: "acceptable P E r pkt h sub out"
    and e: "fst (process P E r pkt) = dispatch P E r pkt sub out" by (rule not_drop_acceptable)
  then show ?thesis using assms
    by (auto simp: acceptable_def dispatch_def Let_def lioness_length split: if_splits)
qed

text \<open>
  What leaves a relay. A forwarded packet again has exactly 2048 bytes, keeps the version
  and the hop count of the header and carries the next hop index, so it decodes at the next
  relay unless the path is exhausted; it never goes back to the relay itself. A payload that is
  delivered has the full size of the payload region. A delay that the record asks for is
  capped at 30 seconds, one that the scheduler draws at a hundred times its mean.
\<close>

theorem process_output:
  assumes "rounding_ok (e_rnd E)"
  shows "(\<forall>addr pid d via pkt'. fst (process P E r pkt) = Forward addr pid d via pkt' \<longrightarrow>
      length pkt' = PACKET_SIZE \<and> pid \<noteq> identity_public_key P r
      \<and> take 3 pkt' = take 3 pkt \<and> unat (pkt' ! 3) = Suc (unat (pkt ! 3))
      \<and> ((\<exists>h. header_decode (take HEADER_LEN pkt') = Inr h) \<longleftrightarrow> unat (pkt' ! 3) < unat (pkt ! 2)))
    \<and> (\<forall>d pl. fst (process P E r pkt) = DeliverLocal d pl \<longrightarrow> length pl = PACKET_SIZE - HEADER_LEN)
    \<and> (\<not> is_drop (fst (process P E r pkt)) \<longrightarrow>
        fdelay (fst (process P E r pkt)) \<le> max MAX_HOP_DELAY
          (from_secs_f64 (e_rnd E (e_rnd E (100 * e_rnd E (of_nat (mean_micros (rscheduler r)))) / 1000000))))"
  by (intro conjI allI impI) (erule process_forward process_delivered_length process_delay [OF assms])+

section \<open>Replays\<close>

text \<open>A relay processing one packet after another.\<close>

fun relay_run :: "prims \<Rightarrow> relay \<Rightarrow> (env \<times> bytes) list \<Rightarrow> process_outcome list \<times> relay" where
  "relay_run P r [] = ([], r)"
| "relay_run P r ((E, pkt) # rest) =
     (let (out, r') = process P E r pkt; (outs, r'') = relay_run P r' rest in (out # outs, r''))"

lemma kept_mono: "kept c k t n \<Longrightarrow> n \<le> n' \<Longrightarrow> kept c k t n'"
  by (auto simp: kept_def intro: le_trans)

lemma kept_process:
  assumes "kept (replay_cache r) k t n" "e_cache_now E \<le> t + rc_ttl (replay_cache r)"
    "Suc n < rc_max_size (replay_cache r)" "process P E r pkt = (out, r')"
  shows "kept (replay_cache r') k t (Suc n)"
proof -
  from process_state(4) [OF assms(4)] consider "replay_cache r' = replay_cache r"
    | g where "replay_cache r' = snd (check_and_insert_at (replay_cache r) g (e_cache_now E))" by blast
  then show ?thesis
  proof cases
    case 1
    then show ?thesis using assms(1) kept_mono by fastforce
  next
    case 2
    obtain c res where c: "check_and_insert_at (replay_cache r) g (e_cache_now E) = (res, c)" by force
    have "kept c k t (if res = Fresh then Suc n else n)"
      by (rule kept_check [OF assms(1,2) c]) (use assms(3) in simp)
    then show ?thesis using 2 c kept_mono by fastforce
  qed
qed

lemma kept_relay_run:
  assumes "kept (replay_cache r) k t n" "\<forall>(E, p) \<in> set rest. e_cache_now E \<le> t + rc_ttl (replay_cache r)"
    "n + length rest < rc_max_size (replay_cache r)" "relay_run P r rest = (outs, r')"
  shows "kept (replay_cache r') k t (n + length rest) \<and> rc_ttl (replay_cache r') = rc_ttl (replay_cache r)"
  using assms
proof (induction rest arbitrary: r n outs r')
  case Nil
  then show ?case by simp
next
  case (Cons x rest)
  obtain E pkt where x: "x = (E, pkt)" by force
  obtain o1 r1 where p: "process P E r pkt = (o1, r1)" by force
  obtain os r2 where q: "relay_run P r1 rest = (os, r2)" by force
  have r': "r' = r2" using Cons.prems(4) by (simp add: x p q)
  have f: "rc_ttl (replay_cache r1) = rc_ttl (replay_cache r)" "rc_max_size (replay_cache r1) = rc_max_size (replay_cache r)"
    using process_cache_fields [of P E r pkt] p by simp_all
  have "kept (replay_cache r1) k t (Suc n)"
    by (rule kept_process [OF Cons.prems(1) _ _ p]) (use Cons.prems(2,3) x in auto)
  from Cons.IH [OF this _ _ q] Cons.prems(2,3) f show ?case by (simp add: r')
qed

definition gamma_of :: "bytes \<Rightarrow> bytes" where
  "gamma_of pkt = slice 356 372 pkt"

lemma header_decode_gamma: "header_decode (take HEADER_LEN pkt) = Inr h \<Longrightarrow> hgamma h = gamma_of pkt"
  by (auto simp: header_decode_def Let_def gamma_of_def slice_def HEADER_LEN_def take_drop split: if_splits)

lemma accepted_kept:
  assumes "replay_inv (replay_cache r)" and "process P E r pkt = (out, r1)" and "\<not> is_drop out"
  shows "kept (replay_cache r1) (gamma_of pkt) (e_cache_now E) 0"
proof -
  have "\<not> is_drop (fst (process P E r pkt))" using assms(2,3) by simp
  then obtain h sub ot where a: "acceptable P E r pkt h sub ot" by (rule not_drop_acceptable)
  have g: "hgamma h = gamma_of pkt" using a header_decode_gamma by (auto simp: acceptable_def)
  obtain c1 where chk: "check_and_insert_at (replay_cache r) (gamma_of pkt) (e_cache_now E) = (Fresh, c1)"
    using a g by (metis acceptable_def prod.collapse)
  have "replay_cache r1 = c1" using process_acceptable(2) [OF a] assms(2) g chk by simp
  then show ?thesis using check_fresh_queue [OF assms(1) chk] by (auto simp: kept_def)
qed

lemma kept_dropped:
  assumes "kept (replay_cache r) (gamma_of pkt) t n" and "e_cache_now E \<le> t + rc_ttl (replay_cache r)"
  shows "is_drop (fst (process P E r pkt))"
proof (rule ccontr)
  assume "\<not> is_drop (fst (process P E r pkt))"
  then obtain h s ot where a: "acceptable P E r pkt h s ot" by (rule not_drop_acceptable)
  then have g: "hgamma h = gamma_of pkt" using header_decode_gamma by (auto simp: acceptable_def)
  have "kept (sweep_expired (replay_cache r) (e_cache_now E)) (gamma_of pkt) t n"
    by (rule kept_sweep [OF assms(1)]) (use assms(2) in \<open>simp add: duration_since_def\<close>)
  then have "hm_contains (rc_map (sweep_expired (replay_cache r) (e_cache_now E))) (gamma_of pkt)" by (rule kept_contains)
  then show False using a g by (simp add: acceptable_def check_and_insert_at_def Let_def)
qed

text \<open>What an accepted packet leaves in the cache while \<open>rest\<close> is processed.\<close>

lemma accepted_stays:
  assumes "replay_inv (replay_cache r)" and "process P E r pkt = (out, r1)" and "\<not> is_drop out"
    and "relay_run P r1 rest = (outs, r2)" and "length rest < rc_max_size (replay_cache r)"
    and "\<forall>(E', p) \<in> set rest. e_cache_now E' \<le> e_cache_now E + rc_ttl (replay_cache r)"
  shows "kept (replay_cache r2) (gamma_of pkt) (e_cache_now E) (length rest) \<and> rc_ttl (replay_cache r2) = rc_ttl (replay_cache r)"
proof -
  have "rc_ttl (replay_cache r1) = rc_ttl (replay_cache r)" "rc_max_size (replay_cache r1) = rc_max_size (replay_cache r)"
    using process_cache_fields [of P E r pkt] assms(2) by simp_all
  then show ?thesis using kept_relay_run [OF accepted_kept [OF assms(1-3)] _ _ assms(4)] assms(5,6) by simp
qed

text \<open>
  A relay does not process a packet twice. Once a packet was forwarded or delivered, every
  later packet with the same MAC is dropped for the whole lifetime of a cache entry, whatever
  other packets the relay processed in between, as long as their number stays below the
  capacity of the cache.
\<close>

theorem relay_refuses_replays:
  assumes "replay_inv (replay_cache r)" and "process P E r pkt = (out, r1)" and "\<not> is_drop out"
    and "relay_run P r1 rest = (outs, r2)" and "length rest < rc_max_size (replay_cache r)"
    and "\<forall>(E', p) \<in> set rest. e_cache_now E' \<le> e_cache_now E + rc_ttl (replay_cache r)"
    and "e_cache_now E2 \<le> e_cache_now E + rc_ttl (replay_cache r)" and "gamma_of pkt2 = gamma_of pkt"
  shows "is_drop (fst (process P E2 r2 pkt2))"
  using accepted_stays [OF assms(1-6)] kept_dropped [of r2 pkt2] assms(7,8) by auto

section \<open>An honest hop\<close>

text \<open>The packet that arrives at hop \<open>i\<close> of a route is accepted there, whatever the relay's other state.\<close>

lemma wf_hop_view:
  assumes "length ks \<le> MAX_HOPS" "\<forall>i < length ks. wf_record (rs ! i)" "i < length ks" "length t = TRAILER_LEN"
    "length alpha = ALPHA_LEN"
  shows "wf_header (hop_view P rng m as ks rs t i alpha)"
  using wrap_stage_lengths [OF assms(1,2), of 0 P rng m as t] wrap_stage_lengths [OF assms(1,2), of i P rng m as t]
    assms(3-5)
  by (simp add: hop_view_def seen_header_def wf_header_def)

lemma hop_view_decodes:
  assumes "length ks \<le> MAX_HOPS" "\<forall>i < length ks. wf_record (rs ! i)" "i < length ks" "length t = TRAILER_LEN"
    "length alpha = ALPHA_LEN"
  shows "header_decode (header_encode (hop_view P rng m as ks rs t i alpha)) = Inr (hop_view P rng m as ks rs t i alpha)"
proof (rule header_decode_encode [OF wf_hop_view [OF assms]])
  let ?h = "hop_view P rng m as ks rs t i alpha"
  have u: "unat (hop_count ?h) = length ks" "unat (hop_index ?h) = i"
    using assms(1,3) by (simp_all add: hop_view_def seen_header_def unat_small)
  show "hversion ?h = VERSION \<or> hversion ?h = VERSION_LEGACY" by (simp add: hop_view_def seen_header_def)
  show "hop_count ?h \<noteq> 0" using u(1) assms(3) by auto
  show "unat (hop_count ?h) \<le> MAX_HOPS" using u assms(1) by simp
  show "hop_index ?h < hop_count ?h" using u assms(3) by (simp add: word_less_nat_alt)
qed

lemma honest_hop_acceptable:
  assumes "length ks \<le> MAX_HOPS" "\<forall>i < length ks. wf_record (rs ! i)" "i < length ks" "length t = TRAILER_LEN"
    "length (as ! i) = ALPHA_LEN" "length region = PACKET_SIZE - HEADER_LEN"
    "derive_hop_subkeys P (x25519 P (identity_sk r) (as ! i)) = Inr (ks ! i)"
    "fst (rate_check_at (e_rnd E) (rlimiter r) PACKET_SIZE (e_rate_now E)) = Allow"
    "fst (check_and_insert_at (replay_cache r) (snd (wrap_stage P rng m as ks rs t i)) (e_cache_now E)) = Fresh"
  shows "acceptable P E r (header_encode (hop_view P rng m as ks rs t i (as ! i)) @ region)
    (hop_view P rng m as ks rs t i (as ! i)) (ks ! i)
    \<lparr>out_record = (rs ! i)\<lparr>next_gamma := snd (wrap_stage P rng m as ks rs t (Suc i))\<rparr>,
     out_next_header = hop_view P rng m as ks rs t (Suc i) (blind_alpha P (as ! i) (k_blind (ks ! i)))\<rparr>"
proof -
  note w = wf_hop_view [OF assms(1-5), of P rng m] and dec = hop_view_decodes [OF assms(1-5), of P rng m]
  have e: "length (header_encode (hop_view P rng m as ks rs t i (as ! i))) = HEADER_LEN"
    using w by (rule length_header_encode)
  have a: "halpha (hop_view P rng m as ks rs t i (as ! i)) = as ! i"
    "hversion (hop_view P rng m as ks rs t i (as ! i)) \<noteq> VERSION_LEGACY"
    "hgamma (hop_view P rng m as ks rs t i (as ! i)) = snd (wrap_stage P rng m as ks rs t i)"
    by (simp_all add: hop_view_def seen_header_def VERSION_def VERSION_LEGACY_def)
  show ?thesis
    using assms e a dec unwrap_hop_view [OF assms(1-4), of P rng m as]
    by (simp add: acceptable_def PACKET_SIZE_def HEADER_LEN_def)
qed

subsection \<open>A concrete hop\<close>

lemma demo_sks_ne: "demo_sks \<noteq> []"
  by (simp add: demo_sks_def)

lemma demo_relay_allows:
  "fst (rate_check_at rnd (rlimiter (demo_relay sk)) n now) = Allow"
  by (simp add: demo_relay_def relay_new_def rate_unlimited_def rate_new_def rate_check_at_def quota_state_def Let_def)

lemma demo_relay_fresh: "fst (check_and_insert_at (replay_cache (demo_relay sk)) g now) = Fresh"
  by (simp add: demo_relay_def relay_new_def check_and_insert_at_def sweep_expired_def replay_new_def
      hm_contains_def hm_simps Let_def)

lemma demo_relay_inv: "replay_inv (replay_cache (demo_relay sk))"
  by (simp add: demo_relay_def relay_new_def replay_inv_new)

lemma demo_rounding: "rounding_ok (e_rnd demo_env)"
  by (simp add: rounding_ok_def demo_env_def)

lemma demo_forwarded:
  "\<exists>pkt pkt'. fst (process demo_prims demo_env (demo_relay (replicate 32 8)) pkt)
     = Forward (replicate 4 0, 0) (replicate 32 0) 500000 via pkt'"
proof -
  let ?rs = "replicate 3 (record_default\<lparr>rflag := if via then VIA_RENDEZVOUS else 0\<rparr>)" and ?rng = "\<lambda>i. word_of_nat i" and ?t = "replicate 12 5"
  let ?r = "demo_relay (replicate 32 8)"
  obtain as ks where rt: "derive_route_secrets demo_prims demo_curve ?rng
      (map (\<lambda>sk. x25519 demo_prims sk x25519_base) demo_sks) = Inr (as, ks)"
    using demo_route by blast
  have s: "length as = 3" "length ks = 3" "as ! 0 = point_to_bytes demo_curve (point_mul demo_curve
        (scalar_from_bytes_mod_order demo_curve (clamp_scalar (arr 32 ?rng))) (basepoint demo_curve))"
      "\<forall>i < 3. derive_hop_subkeys demo_prims (x25519 demo_prims (demo_sks ! i) (as ! i)) = Inr (ks ! i)"
    using route_loop_secrets [OF demo_curve_ok demo_sks_len] rt demo_sks_ne
    by (auto simp: derive_route_secrets_def Let_def length_demo_sks split: if_splits)
  have wf: "\<forall>i < length ks. wf_record (?rs ! i)" by (simp add: s wf_record_def record_default_def)
  let ?h = "hop_view demo_prims ?rng BALANCED as ks ?rs ?t 0 (as ! 0)"
  let ?pkt = "header_encode ?h @ replicate (PACKET_SIZE - HEADER_LEN) 7"
  let ?out = "\<lparr>out_record = (?rs ! 0)\<lparr>next_gamma := snd (wrap_stage demo_prims ?rng BALANCED as ks ?rs ?t (Suc 0))\<rparr>,
     out_next_header = hop_view demo_prims ?rng BALANCED as ks ?rs ?t (Suc 0)
       (blind_alpha demo_prims (as ! 0) (k_blind (ks ! 0)))\<rparr>"
  have acc: "acceptable demo_prims demo_env ?r ?pkt ?h (ks ! 0) ?out"
  proof (rule honest_hop_acceptable)
    show "length ks \<le> MAX_HOPS" "\<forall>i < length ks. wf_record (?rs ! i)" "0 < length ks" "length ?t = TRAILER_LEN"
      using s wf by (simp_all add: record_lens)
    show "length (as ! 0) = ALPHA_LEN" by (simp add: s point_to_bytes_def)
    show "derive_hop_subkeys demo_prims (x25519 demo_prims (identity_sk ?r) (as ! 0)) = Inr (ks ! 0)"
      using s(4) [rule_format, of 0] by (simp add: demo_relay_def relay_new_def demo_sks_def)
    show "fst (check_and_insert_at (replay_cache ?r)
        (snd (wrap_stage demo_prims ?rng BALANCED as ks ?rs ?t 0)) (e_cache_now demo_env)) = Fresh"
      by (rule demo_relay_fresh)
  qed (simp_all add: demo_relay_allows)
  have d: "hop_delay demo_env ?r 0 = 500000"
    by (simp add: hop_delay_def demo_env_def demo_relay_def relay_new_def scheduler_new_def next_delay_def
        clamp_f64_def from_secs_f64_def round_even_def Let_def)
  have k: "identity_public_key demo_prims ?r \<noteq> replicate 32 0"
    by (simp add: identity_public_key_def demo_relay_def relay_new_def demo_x25519 numeral_eq_Suc)
  have "fst (process demo_prims demo_env ?r ?pkt) = Forward (replicate 4 0, 0) (replicate 32 0) 500000 via
      (header_encode (out_next_header ?out) @ lioness_decrypt demo_prims (k_payload (ks ! 0)) (drop HEADER_LEN ?pkt))"
    unfolding process_acceptable(1) [OF acc] dispatch_def Let_def
    using d k by (simp add: record_default_def is_last_hop_def is_via_rendezvous_def VIA_RENDEZVOUS_def IS_LAST_HOP_def)
  then show ?thesis by blast
qed

theorem process_output_witness:
  "\<exists>pkt pkt'. packet (fst (process demo_prims demo_env (demo_relay (replicate 32 8)) pkt)) = pkt'
     \<and> length pkt' = 2048 \<and> unat (pkt' ! 3) = Suc (unat (pkt ! 3))"
proof -
  obtain pkt pkt' where "fst (process demo_prims demo_env (demo_relay (replicate 32 8)) pkt)
     = Forward (replicate 4 0, 0) (replicate 32 0) 500000 False pkt'" using demo_forwarded by blast
  with process_output [OF demo_rounding, of demo_prims "demo_relay (replicate 32 8)" pkt] show ?thesis
    by (intro exI [of _ pkt] exI [of _ pkt']) (auto simp: PACKET_SIZE_def)
qed

theorem relay_refuses_replays_witness:
  "\<exists>pkt. \<not> is_drop (fst (process demo_prims demo_env (demo_relay (replicate 32 8)) pkt))
    \<and> is_drop (fst (process demo_prims demo_env
        (snd (relay_run demo_prims (demo_relay (replicate 32 8)) [(demo_env, pkt), (demo_env, [1, 2])])) pkt))"
proof -
  let ?r = "demo_relay (replicate 32 8)"
  obtain pkt pkt' where p: "fst (process demo_prims demo_env ?r pkt)
     = Forward (replicate 4 0, 0) (replicate 32 0) 500000 False pkt'" using demo_forwarded by blast
  then have nd: "\<not> is_drop (fst (process demo_prims demo_env ?r pkt))" by (simp add: is_drop_def)
  have size: "length [(demo_env, [1, 2 :: byte])] < rc_max_size (replay_cache ?r)"
    by (simp add: demo_relay_def relay_new_def replay_new_def)
  have "is_drop (fst (process demo_prims demo_env (snd (relay_run demo_prims
      (snd (process demo_prims demo_env ?r pkt)) [(demo_env, [1, 2])])) pkt))"
    by (rule relay_refuses_replays [OF demo_relay_inv prod.collapse [symmetric] nd prod.collapse [symmetric] size]) simp_all
  with nd show ?thesis by (intro exI [of _ pkt]) (simp add: case_prod_beta)
qed

end
