(* ===== verification/Cover.thy ===== *)
theory Cover
  imports Relay_Process
begin

text \<open>
  Cover traffic, crypto-gotham/src/cover.rs: the three modes with their rates, the battery
  adjustment, and the scheduler that decides when something is sent and whether it is real.
  The uniform draws are arguments; floating-point rounding and logarithm are parameters as in
  the delay scheduler.
\<close>

datatype cover_mode = CoverLowLatency | CoverBalanced | CoverParanoid

fun mean_interval_ms :: "cover_mode \<Rightarrow> nat" where
  "mean_interval_ms CoverLowLatency = 15000"
| "mean_interval_ms CoverBalanced = 10000"
| "mean_interval_ms CoverParanoid = 5000"

definition cover_lambda :: "(f64 \<Rightarrow> f64) \<Rightarrow> cover_mode \<Rightarrow> f64" where
  "cover_lambda rnd m = rnd (1000 / rnd (of_nat (mean_interval_ms m)))"

fun mean_hop_delay_micros :: "cover_mode \<Rightarrow> nat" where
  "mean_hop_delay_micros CoverLowLatency = 100000"
| "mean_hop_delay_micros CoverBalanced = 500000"
| "mean_hop_delay_micros CoverParanoid = 2000000"

definition battery_adjusted :: "cover_mode \<Rightarrow> nat \<Rightarrow> bool \<Rightarrow> cover_mode" where
  "battery_adjusted m battery_pct charging =
     (if charging \<or> 30 \<le> battery_pct then m
      else case m of
        CoverParanoid \<Rightarrow> CoverBalanced
      | CoverBalanced \<Rightarrow> CoverLowLatency
      | CoverLowLatency \<Rightarrow> CoverLowLatency)"

datatype cover_intent = IntentReal | IntentDrop | IntentLoop

record cover_scheduler =
  cmode :: cover_mode
  loop_probability :: f64

definition cover_new :: "cover_mode \<Rightarrow> cover_scheduler" where
  "cover_new m = \<lparr>cmode = m, loop_probability = 1 / 2\<rparr>"

definition with_loop_probability :: "cover_scheduler \<Rightarrow> f64 \<Rightarrow> cover_scheduler" where
  "with_loop_probability s prob = s\<lparr>loop_probability := clamp_f64 0 1 prob\<rparr>"

definition next_interval :: "(f64 \<Rightarrow> f64) \<Rightarrow> (f64 \<Rightarrow> f64) \<Rightarrow> cover_scheduler \<Rightarrow> f64 \<Rightarrow> nat" where
  "next_interval rnd lnf s draw =
     (let l = cover_lambda rnd (cmode s)
      in if l \<le> 0 then 0
         else let u = (if draw = 0 then f64_min_positive else draw);
                  secs = rnd (- lnf u / l);
                  mean_secs = rnd (rnd (of_nat (mean_interval_ms (cmode s))) / 1000);
                  max_secs = rnd (10 * mean_secs)
              in from_secs_f64 (clamp_f64 0 max_secs secs))"

definition next_intent :: "cover_scheduler \<Rightarrow> f64 \<Rightarrow> bool \<Rightarrow> cover_intent" where
  "next_intent s draw has_real =
     (if has_real then IntentReal else if draw < loop_probability s then IntentLoop else IntentDrop)"

text \<open>The interval is at most ten times its mean and does not depend on whether anything is queued.\<close>

lemma next_interval_le:
  assumes "rounding_ok rnd"
  shows "next_interval rnd lnf s draw
    \<le> from_secs_f64 (rnd (10 * rnd (rnd (of_nat (mean_interval_ms (cmode s))) / 1000)))"
proof -
  have nn: "0 \<le> x \<Longrightarrow> 0 \<le> rnd x" for x using assms unfolding rounding_ok_def by metis
  let ?m = "rnd (10 * rnd (rnd (of_nat (mean_interval_ms (cmode s))) / 1000))"
  have m: "0 \<le> ?m" by (intro nn divide_nonneg_pos mult_nonneg_nonneg) simp_all
  have "from_secs_f64 (clamp_f64 0 ?m secs) \<le> from_secs_f64 ?m" for secs
    unfolding from_secs_f64_def
    by (rule round_even_mono) (use m in \<open>auto simp: clamp_f64_def\<close>)
  then show ?thesis by (simp add: next_interval_def Let_def)
qed

end
