(* ===== verification/Sealed.thy ===== *)
theory Sealed
  imports Primitives
begin

text \<open>
  The sealed-sender envelope, crypto-gotham/src/sealed.rs: an ephemeral X25519 exchange, a
  key from HKDF and an AEAD over the sender's key and the body. The two random draws (the
  ephemeral secret and the nonce) are arguments.
\<close>

definition EPHEM_PK_LEN :: nat where "EPHEM_PK_LEN = 32"
definition NONCE_LEN :: nat where "NONCE_LEN = 12"
definition AEAD_TAG_LEN :: nat where "AEAD_TAG_LEN = 16"
definition SENDER_PK_LEN :: nat where "SENDER_PK_LEN = 32"
definition MIN_ENVELOPE_LEN :: nat where
  "MIN_ENVELOPE_LEN = EPHEM_PK_LEN + NONCE_LEN + SENDER_PK_LEN + AEAD_TAG_LEN"

lemmas sealed_consts = EPHEM_PK_LEN_def NONCE_LEN_def AEAD_TAG_LEN_def SENDER_PK_LEN_def
  MIN_ENVELOPE_LEN_def

definition SEAL_AAD :: bytes where "SEAL_AAD = ascii ''gotham-sealed-envelope''"

text \<open>\<open>SharedSecret::was_contributory\<close>: the shared point is not all zero.\<close>

definition was_contributory :: "bytes \<Rightarrow> bool" where
  "was_contributory shared = (shared \<noteq> replicate 32 0)"

definition seal_key :: "prims \<Rightarrow> bytes \<Rightarrow> gerror + bytes" where
  "seal_key P shared =
     (case hkdf_sha256 P (ascii ''gotham-sealed-v1'') shared (ascii ''k_seal'') of
        None \<Rightarrow> Inl (Crypto ''HKDF expand k_seal'')
      | Some okm \<Rightarrow> Inr (arr 32 okm))"

definition seal :: "prims \<Rightarrow> (nat \<Rightarrow> byte) \<Rightarrow> (nat \<Rightarrow> byte) \<Rightarrow> bytes \<Rightarrow> bytes \<Rightarrow> bytes \<Rightarrow> gerror + bytes" where
  "seal P rng_sk rng_nonce recipient_pk sender_pk body =
     (let ephem_sk = arr 32 rng_sk;
          ephem_pk = x25519 P ephem_sk x25519_base;
          shared = x25519 P ephem_sk recipient_pk
      in if \<not> was_contributory shared
         then Inl (Crypto ''recipient key is low-order (non-contributory DH)'')
         else case seal_key P shared of
           Inl e \<Rightarrow> Inl e
         | Inr k_seal \<Rightarrow>
             (let nonce = arr NONCE_LEN rng_nonce
              in case aead_encrypt P k_seal nonce SEAL_AAD (sender_pk @ body) of
                   None \<Rightarrow> Inl (Crypto ''AEAD seal encrypt'')
                 | Some ciphertext \<Rightarrow> Inr (ephem_pk @ nonce @ ciphertext)))"

definition unseal :: "prims \<Rightarrow> bytes \<Rightarrow> bytes \<Rightarrow> gerror + (bytes \<times> bytes)" where
  "unseal P recipient_sk envelope =
     (if length envelope < MIN_ENVELOPE_LEN then Inl (Crypto ''envelope too short'')
      else let ephem_pk = take EPHEM_PK_LEN envelope;
               nonce = slice EPHEM_PK_LEN (EPHEM_PK_LEN + NONCE_LEN) envelope;
               ciphertext = drop (EPHEM_PK_LEN + NONCE_LEN) envelope;
               shared = x25519 P recipient_sk ephem_pk
           in if \<not> was_contributory shared
              then Inl (Crypto ''ephemeral key is low-order (non-contributory DH)'')
              else case seal_key P shared of
                Inl e \<Rightarrow> Inl e
              | Inr k_seal \<Rightarrow>
                  (case aead_decrypt P k_seal nonce SEAL_AAD ciphertext of
                     None \<Rightarrow> Inl (Crypto ''AEAD seal decrypt'')
                   | Some plaintext \<Rightarrow>
                       if length plaintext < SENDER_PK_LEN
                       then Inl (Crypto ''plaintext shorter than sender pk'')
                       else Inr (take SENDER_PK_LEN plaintext, drop SENDER_PK_LEN plaintext)))"

lemma seal_length:
  assumes "aead_ok P" "seal P r1 r2 rpk spk body = Inr env"
  shows "length env = EPHEM_PK_LEN + NONCE_LEN + length spk + length body + AEAD_TAG_LEN"
  using assms
  by (auto simp: seal_def Let_def aead_ok_def sealed_consts split: if_splits sum.splits option.splits)

lemma sealed_opens:
  assumes "dh_ok P" and "aead_ok P" and "length sender_pk = SENDER_PK_LEN"
    and "seal P rng_sk rng_nonce (x25519 P recipient_sk x25519_base) sender_pk body = Inr envelope"
  shows "unseal P recipient_sk envelope = Inr (sender_pk, body)
    \<and> length envelope = MIN_ENVELOPE_LEN + length body"
proof -
  have len: "length envelope = MIN_ENVELOPE_LEN + length body"
    using seal_length [OF assms(2,4)] assms(3) by (simp add: sealed_consts)
  have dh: "x25519 P recipient_sk (x25519 P (arr 32 rng_sk) x25519_base) =
      x25519 P (arr 32 rng_sk) (x25519 P recipient_sk x25519_base)"
    using assms(1) by (simp add: dh_ok_def)
  from assms(4) obtain k c where
    sh: "was_contributory (x25519 P (arr 32 rng_sk) (x25519 P recipient_sk x25519_base))"
    and k: "seal_key P (x25519 P (arr 32 rng_sk) (x25519 P recipient_sk x25519_base)) = Inr k"
    and c: "aead_encrypt P k (arr NONCE_LEN rng_nonce) SEAL_AAD (sender_pk @ body) = Some c"
    and env: "envelope = x25519 P (arr 32 rng_sk) x25519_base @ arr NONCE_LEN rng_nonce @ c"
    by (auto simp: seal_def Let_def split: if_splits sum.splits option.splits)
  have "aead_decrypt P k (arr NONCE_LEN rng_nonce) SEAL_AAD c = Some (sender_pk @ body)"
    using assms(2) c unfolding aead_ok_def by blast
  then have "unseal P recipient_sk envelope = Inr (sender_pk, body)"
    using len sh k assms(3)
    by (simp add: unseal_def Let_def env sealed_consts dh slice_def)
  with len show ?thesis by blast
qed

text \<open>
  An envelope sealed for the key of a recipient opens with the recipient's secret and
  yields the sender's key and the body that were sealed; its length is 92 bytes more than the
  body's.
\<close>

theorem seal_unseal:
  assumes "dh_ok P" and "aead_ok P" and "length sender_pk = SENDER_PK_LEN"
    and "seal P rng_sk rng_nonce (x25519 P recipient_sk x25519_base) sender_pk body = Inr envelope"
  shows "unseal P recipient_sk envelope = Inr (sender_pk, body)
    \<and> length envelope = MIN_ENVELOPE_LEN + length body"
  using assms by (rule sealed_opens)

theorem seal_unseal_witness:
  "\<exists>env. seal demo_prims (\<lambda>i. 8) (\<lambda>i. 1) (x25519 demo_prims (replicate 32 16) x25519_base)
      (replicate 32 5) [1, 2, 3] = Inr env
    \<and> unseal demo_prims (replicate 32 16) env = Inr (replicate 32 5, [1, 2, 3])"
proof -
  have "x25519 demo_prims (arr 32 (\<lambda>i. 8)) u ! 1 = 1" for u
    by (simp add: x25519_def arr_def demo_prims_def)
  then have "was_contributory (x25519 demo_prims (arr 32 (\<lambda>i. 8)) u)" for u
    unfolding was_contributory_def by (metis nth_replicate one_less_numeral_iff semiring_norm(76) zero_neq_one)
  then obtain env where env: "seal demo_prims (\<lambda>i. 8) (\<lambda>i. 1)
      (x25519 demo_prims (replicate 32 16) x25519_base) (replicate 32 5) [1, 2, 3] = Inr env"
    by (simp add: seal_def seal_key_def Let_def demo_prims_def)
  from seal_unseal [OF demo_dh_ok demo_aead_ok _ env] env show ?thesis
    by (simp add: sealed_consts)
qed

end
