(* ===== verification/Client.thy ===== *)
theory Client
  imports Directory_Correct Cover Sealed
begin

text \<open>
  The sending client, crypto-gotham-relay/src/client.rs: choosing a path, building the packet
  for it, sealing and framing a body. What the client hands to the transport (the entry
  address, the entry's key and the packet) is the result of \<open>ship_path\<close>; the QUIC connection
  itself is I/O. The random draws are a record of functions.
\<close>

definition MAX_PAYLOAD_SIZE :: nat where "MAX_PAYLOAD_SIZE = PACKET_SIZE - HEADER_LEN"

definition SENDER_MEAN_DELAY_MICROS :: nat where "SENDER_MEAN_DELAY_MICROS = 500000"

datatype client_error =
    PayloadTooLarge
  | BadHopCount
  | PathSelection
  | BadDirectory string
  | ClientCrypto

record client_draws =
  cd_path :: "nat \<Rightarrow> path_draws"
  cd_route :: "nat \<Rightarrow> byte"
  cd_delay :: "nat \<Rightarrow> f64"
  cd_trailer :: "nat \<Rightarrow> byte"
  cd_beta :: "nat \<Rightarrow> byte"

record gotham_client =
  mean_hop_delay :: nat
  entry_guards :: "string list"

definition client_new :: gotham_client where
  "client_new = \<lparr>mean_hop_delay = SENDER_MEAN_DELAY_MICROS, entry_guards = []\<rparr>"

definition with_hop_delay :: "gotham_client \<Rightarrow> nat \<Rightarrow> gotham_client" where
  "with_hop_delay c micros = c\<lparr>mean_hop_delay := max micros 1000\<rparr>"

definition with_entry_guards :: "gotham_client \<Rightarrow> string list \<Rightarrow> gotham_client" where
  "with_entry_guards c guards = c\<lparr>entry_guards := guards\<rparr>"

definition sender_hop_delay_micros :: "(f64 \<Rightarrow> f64) \<Rightarrow> (f64 \<Rightarrow> f64) \<Rightarrow> scheduler \<Rightarrow> f64 \<Rightarrow> 32 word" where
  "sender_hop_delay_micros rnd lnf sched draw =
     (let micros = min (next_delay rnd lnf sched draw div 1000) (2 ^ 32 - 1)
      in word_of_nat (max micros 1))"

definition hop_count_for_mode :: "byte \<Rightarrow> nat option" where
  "hop_count_for_mode m =
     (if m = LOW_LATENCY then Some 3 else if m = BALANCED then Some 4
      else if m = PARANOID then Some 5 else None)"

text \<open>The record of hop \<open>i\<close>: the address of the next hop, or the mark of the last one.\<close>

definition route_record :: "prims \<Rightarrow> descriptor list \<Rightarrow> (nat \<Rightarrow> 32 word) \<Rightarrow> nat \<Rightarrow> client_error + routing_record" where
  "route_record P hops delays i =
     (if Suc i < length hops
      then let next = hops ! Suc i
           in case kem_pubkey_bytes P next of
                Inl _ \<Rightarrow> Inl (BadDirectory ''next node id'')
              | Inr nid \<Rightarrow>
                  if rendezvous next \<noteq> None
                  then Inr (record_default\<lparr>next_node_id := nid, rflag := VIA_RENDEZVOUS, delay_micros := delays i\<rparr>)
                  else (case ipv4_octets P next of
                          Inl _ \<Rightarrow> Inl (BadDirectory ''non-ipv4 next addr'')
                        | Inr ip \<Rightarrow> (case port P next of
                              Inl _ \<Rightarrow> Inl (BadDirectory ''bad next port'')
                            | Inr p \<Rightarrow> Inr (record_default\<lparr>next_node_id := nid, next_ipv4 := ip,
                                             next_port := p, delay_micros := delays i\<rparr>)))
      else Inr (record_default\<lparr>rflag := IS_LAST_HOP, delay_micros := delays i\<rparr>))"

definition ship_path :: "prims \<Rightarrow> ('s, 'p) curve \<Rightarrow> (f64 \<Rightarrow> f64) \<Rightarrow> (f64 \<Rightarrow> f64) \<Rightarrow> gotham_client \<Rightarrow> client_draws
    \<Rightarrow> descriptor list \<Rightarrow> bytes \<Rightarrow> client_error + (sockaddr \<times> bytes \<times> bytes)" where
  "ship_path P C rnd lnf c d hops pl =
     (case map_err (\<lambda>_. BadDirectory ''relay kem pubkey malformed'') (mapM_result (kem_pubkey_bytes P) hops) of
        Inl e \<Rightarrow> Inl e
      | Inr recipient_pks \<Rightarrow>
          (case derive_route_secrets P C (cd_route d) recipient_pks of
             Inl _ \<Rightarrow> Inl ClientCrypto
           | Inr (alphas, sub_keys) \<Rightarrow>
               let sched = scheduler_new rnd (mean_hop_delay c);
                   delays = (\<lambda>i. sender_hop_delay_micros rnd lnf sched (cd_delay d i))
               in case mapM_result (route_record P hops delays) [0..<length hops] of
                    Inl e \<Rightarrow> Inl e
                  | Inr records \<Rightarrow>
                      (case wrap_header P (cd_beta d) BALANCED alphas sub_keys records
                              (arr TRAILER_LEN (cd_trailer d)) of
                         Inl _ \<Rightarrow> Inl ClientCrypto
                       | Inr h \<Rightarrow>
                           let region = foldr (lioness_encrypt P) (map k_payload sub_keys)
                                 (pl @ replicate (MAX_PAYLOAD_SIZE - length pl) 0);
                               pkt = header_encode h @ region
                           in (case parse_sockaddr P (addr (hops ! 0)) of
                                 None \<Rightarrow> Inl (BadDirectory ''entry addr parse'')
                               | Some entry_addr \<Rightarrow>
                                   (case kem_pubkey_bytes P (hops ! 0) of
                                      Inl _ \<Rightarrow> Inl (BadDirectory ''entry kem pk'')
                                    | Inr entry_pk \<Rightarrow> Inr (entry_addr, entry_pk, pkt))))))"

definition client_send :: "prims \<Rightarrow> ('s, 'p) curve \<Rightarrow> (f64 \<Rightarrow> f64) \<Rightarrow> (f64 \<Rightarrow> f64) \<Rightarrow> gotham_client \<Rightarrow> client_draws
    \<Rightarrow> descriptor list \<Rightarrow> nat \<Rightarrow> bytes \<Rightarrow> client_error + (sockaddr \<times> bytes \<times> bytes)" where
  "client_send P C rnd lnf c d rs n_hops pl =
     (if MAX_PAYLOAD_SIZE < length pl then Inl PayloadTooLarge
      else if \<not> (3 \<le> n_hops \<and> n_hops \<le> 5) then Inl BadHopCount
      else case pick P rs (entry_guards c) (cd_path d) n_hops of
        Inl _ \<Rightarrow> Inl PathSelection
      | Inr path \<Rightarrow> ship_path P C rnd lnf c d path pl)"

definition send_to_exit :: "prims \<Rightarrow> ('s, 'p) curve \<Rightarrow> (f64 \<Rightarrow> f64) \<Rightarrow> (f64 \<Rightarrow> f64) \<Rightarrow> gotham_client \<Rightarrow> client_draws
    \<Rightarrow> descriptor list \<Rightarrow> nat \<Rightarrow> descriptor \<Rightarrow> bytes \<Rightarrow> client_error + (sockaddr \<times> bytes \<times> bytes)" where
  "send_to_exit P C rnd lnf c d rs n_hops exit pl =
     (if MAX_PAYLOAD_SIZE < length pl then Inl PayloadTooLarge
      else if \<not> (3 \<le> n_hops \<and> n_hops \<le> 5) then Inl BadHopCount
      else case pick_to_exit P rs (entry_guards c) (cd_path d) n_hops exit of
        Inl _ \<Rightarrow> Inl PathSelection
      | Inr path \<Rightarrow> ship_path P C rnd lnf c d path pl)"

text \<open>A body in a sealed envelope with its length in front.\<close>

definition frame :: "bytes \<Rightarrow> client_error + bytes" where
  "frame envelope =
     (let framed = be_bytes 4 (length envelope) @ envelope
      in if MAX_PAYLOAD_SIZE < length framed then Inl PayloadTooLarge else Inr framed)"

definition seal_and_frame :: "prims \<Rightarrow> (nat \<Rightarrow> byte) \<Rightarrow> (nat \<Rightarrow> byte) \<Rightarrow> bytes \<Rightarrow> bytes \<Rightarrow> bytes \<Rightarrow> client_error + bytes" where
  "seal_and_frame P rng_sk rng_nonce recipient_pk sender_pk body =
     (case seal P rng_sk rng_nonce recipient_pk sender_pk body of
        Inl _ \<Rightarrow> Inl ClientCrypto
      | Inr envelope \<Rightarrow> frame envelope)"

definition frame_sealed_for_exit :: "prims \<Rightarrow> (nat \<Rightarrow> byte) \<Rightarrow> (nat \<Rightarrow> byte) \<Rightarrow> descriptor \<Rightarrow> bytes \<Rightarrow> bytes \<Rightarrow> client_error + bytes" where
  "frame_sealed_for_exit P rng_sk rng_nonce exit sender_pk body =
     (case kem_pubkey_bytes P exit of
        Inl _ \<Rightarrow> Inl (BadDirectory ''exit kem pk'')
      | Inr exit_kem \<Rightarrow> (case seal P rng_sk rng_nonce exit_kem sender_pk body of
            Inl _ \<Rightarrow> Inl ClientCrypto
          | Inr envelope \<Rightarrow> frame envelope))"

definition send_sealed :: "prims \<Rightarrow> ('s, 'p) curve \<Rightarrow> (f64 \<Rightarrow> f64) \<Rightarrow> (f64 \<Rightarrow> f64) \<Rightarrow> gotham_client \<Rightarrow> client_draws
    \<Rightarrow> (nat \<Rightarrow> byte) \<Rightarrow> (nat \<Rightarrow> byte) \<Rightarrow> descriptor list \<Rightarrow> nat \<Rightarrow> bytes \<Rightarrow> bytes \<Rightarrow> bytes
    \<Rightarrow> client_error + (sockaddr \<times> bytes \<times> bytes)" where
  "send_sealed P C rnd lnf c d rng_sk rng_nonce rs n_hops recipient_pk sender_pk body =
     (case seal_and_frame P rng_sk rng_nonce recipient_pk sender_pk body of
        Inl e \<Rightarrow> Inl e
      | Inr framed \<Rightarrow> client_send P C rnd lnf c d rs n_hops framed)"

definition send_sealed_to_exit :: "prims \<Rightarrow> ('s, 'p) curve \<Rightarrow> (f64 \<Rightarrow> f64) \<Rightarrow> (f64 \<Rightarrow> f64) \<Rightarrow> gotham_client \<Rightarrow> client_draws
    \<Rightarrow> (nat \<Rightarrow> byte) \<Rightarrow> (nat \<Rightarrow> byte) \<Rightarrow> descriptor list \<Rightarrow> nat \<Rightarrow> descriptor \<Rightarrow> bytes \<Rightarrow> bytes
    \<Rightarrow> client_error + (sockaddr \<times> bytes \<times> bytes)" where
  "send_sealed_to_exit P C rnd lnf c d rng_sk rng_nonce rs n_hops exit sender_pk body =
     (case frame_sealed_for_exit P rng_sk rng_nonce exit sender_pk body of
        Inl e \<Rightarrow> Inl e
      | Inr framed \<Rightarrow> send_to_exit P C rnd lnf c d rs n_hops exit framed)"

text \<open>
  The receiving end, \<open>make_unsealing_delivery_handler\<close> of transport.rs: the framed envelope is
  taken from the front of the delivered region and opened; anything malformed is dropped.
\<close>

definition unseal_delivery :: "prims \<Rightarrow> bytes \<Rightarrow> bytes \<Rightarrow> (bytes \<times> bytes) option" where
  "unseal_delivery P recipient_sk pl =
     (if length pl < 4 then None
      else let env_len = be_val (take 4 pl)
           in if length pl < 4 + env_len then None
              else case unseal P recipient_sk (slice 4 (4 + env_len) pl) of
                Inl _ \<Rightarrow> None
              | Inr res \<Rightarrow> Some res)"

section \<open>The cover loop\<close>

text \<open>
  One turn of \<open>spawn_cover_loop\<close>, crypto-gotham-relay/src/cover_loop.rs, after its sleep: what
  is handed to the client and the queue that remains. The channel that reports the result of a
  queued message is left out.
\<close>

definition DUMMY_PAYLOAD_SIZE :: nat where "DUMMY_PAYLOAD_SIZE = 32"
definition COVER_BODY_MIN :: nat where "COVER_BODY_MIN = 64"
definition COVER_BODY_MAX :: nat where "COVER_BODY_MAX = 1024"

record queued_packet =
  q_payload :: bytes
  q_hops :: "nat option"
  q_exit :: "descriptor option"

record cover_draws =
  v_recipient :: "nat \<Rightarrow> byte"
  v_sender :: "nat \<Rightarrow> byte"
  v_pick :: "nat \<Rightarrow> byte"
  v_body :: "nat \<Rightarrow> byte"
  v_seal_sk :: "nat \<Rightarrow> byte"
  v_seal_nonce :: "nat \<Rightarrow> byte"
  v_fallback :: "nat \<Rightarrow> byte"

definition build_cover_payload :: "prims \<Rightarrow> cover_draws \<Rightarrow> bytes" where
  "build_cover_payload P v =
     (let recipient = x25519 P (arr 32 (v_recipient v)) x25519_base;
          sender = x25519 P (arr 32 (v_sender v)) x25519_base;
          span = COVER_BODY_MAX - COVER_BODY_MIN;
          len = COVER_BODY_MIN + be_val (arr 2 (v_pick v)) mod span;
          body = arr len (v_body v)
      in case seal_and_frame P (v_seal_sk v) (v_seal_nonce v) recipient sender body of
           Inr framed \<Rightarrow> framed
         | Inl _ \<Rightarrow> arr DUMMY_PAYLOAD_SIZE (v_fallback v))"

datatype emission = EmitTo descriptor nat bytes | Emit nat bytes

definition cover_turn :: "prims \<Rightarrow> cover_scheduler \<Rightarrow> f64 \<Rightarrow> cover_draws \<Rightarrow> nat \<Rightarrow> queued_packet list
    \<Rightarrow> emission option \<times> queued_packet list" where
  "cover_turn P s draw v default_hop_count queue =
     (case next_intent s draw (queue \<noteq> []) of
        IntentReal \<Rightarrow>
          (case queue of
             [] \<Rightarrow> (None, [])
           | q # rest \<Rightarrow>
               let n = (case q_hops q of None \<Rightarrow> default_hop_count | Some h \<Rightarrow> h)
               in (Some (case q_exit q of Some e \<Rightarrow> EmitTo e n (q_payload q) | None \<Rightarrow> Emit n (q_payload q)), rest))
      | _ \<Rightarrow> (Some (Emit default_hop_count (build_cover_payload P v)), queue))"

end
