(* ===== verification/Network.thy ===== *)
theory Network
  imports Client
begin

text \<open>
  The composition of sender and relays: the packet that \<open>ship_path\<close> of the client hands to the
  transport, passed from relay to relay by \<open>process\<close>. A network is a hash map from the public
  key of a relay to its state: a relay forwards to the node whose key is in the record, since
  the transport runs its Noise handshake against that key. Each processing step has its own
  clock readings and random draws.
\<close>

datatype net_result =
    Delivered bytes bytes
  | NetDropped bytes drop_reason
  | NoSuchRelay bytes
  | OutOfFuel

fun net_run :: "prims \<Rightarrow> (nat \<Rightarrow> env) \<Rightarrow> nat \<Rightarrow> nat \<Rightarrow> (bytes, relay) hashmap \<Rightarrow> bytes \<Rightarrow> bytes
    \<Rightarrow> net_result \<times> (bytes, relay) hashmap" where
  "net_run P Es 0 k net nid pkt = (OutOfFuel, net)"
| "net_run P Es (Suc fuel) k net nid pkt =
     (case hm_get net nid of
        None \<Rightarrow> (NoSuchRelay nid, net)
      | Some r \<Rightarrow>
          (case process P (Es k) r pkt of
             (Drop reason, r') \<Rightarrow> (NetDropped nid reason, hm_insert nid r' net)
           | (DeliverLocal d pl, r') \<Rightarrow> (Delivered nid pl, hm_insert nid r' net)
           | (Forward a nid' d via pkt', r') \<Rightarrow>
               net_run P Es fuel (Suc k) (hm_insert nid r' net) nid' pkt'))"

section \<open>Every packet leaves the network\<close>

lemma net_run_fuel:
  assumes "0 < fuel" "MAX_HOPS < unat (pkt ! 3) + fuel"
  shows "fst (net_run P Es fuel k net nid pkt) \<noteq> OutOfFuel"
  using assms
proof (induction fuel arbitrary: k net nid pkt)
  case 0
  then show ?case by simp
next
  case (Suc fuel)
  have "fst (net_run P Es fuel k' net' nid' pkt') \<noteq> OutOfFuel"
    if "fst (process P E r pkt) = Forward a nid' d via pkt'" for E r a nid' d via pkt' k' net'
  proof (rule Suc.IH)
    note f = process_forward [OF that]
    have "unat (pkt ! 3) < MAX_HOPS" using f(5,6) by simp
    with Suc.prems f(4) show "0 < fuel" "MAX_HOPS < unat (pkt' ! 3) + fuel" by simp_all
  qed
  then show ?case
    by (auto split: option.split prod.split process_outcome.split) (metis fst_conv)
qed

text \<open>
  C15: every packet leaves the network. Whatever the relays' states, whatever the packet says
  (even one crafted by an attacker) and whatever clocks and draws, after at most six relays
  have processed it a packet is delivered, dropped, or addressed to a node that is not there:
  no packet circulates.
\<close>

theorem packets_terminate:
  assumes "MAX_HOPS < fuel"
  shows "fst (net_run P Es fuel k net nid pkt) \<noteq> OutOfFuel"
  using assms by (intro net_run_fuel) simp_all

theorem packets_terminate_witness:
  "fst (net_run demo_prims (\<lambda>_. demo_env) 6 0 [([1], demo_relay [8])] [1] (replicate 2048 9)) \<noteq> OutOfFuel"
  by (rule packets_terminate) (simp add: record_lens)

section \<open>Honest packets arrive\<close>

text \<open>What a relay does with a packet whose header and MAC are right.\<close>

lemma process_verdict:
  assumes "length pkt = PACKET_SIZE" "header_decode (take HEADER_LEN pkt) = Inr h"
    "hversion h \<noteq> VERSION_LEGACY" "derive_hop_subkeys P (x25519 P (identity_sk r) (halpha h)) = Inr sub"
    "unwrap_header P h sub = Inr out"
  shows "fst (process P E r pkt) =
    (if fst (rate_check_at (e_rnd E) (rlimiter r) PACKET_SIZE (e_rate_now E)) \<noteq> Allow then Drop DropRateLimited
     else if fst (check_and_insert_at (replay_cache r) (hgamma h) (e_cache_now E)) \<noteq> Fresh then Drop DropReplay
     else dispatch P E r pkt sub out)"
proof (cases "fst (rate_check_at (e_rnd E) (rlimiter r) PACKET_SIZE (e_rate_now E)) = Allow
    \<and> fst (check_and_insert_at (replay_cache r) (hgamma h) (e_cache_now E)) = Fresh")
  case True
  then have "acceptable P E r pkt h sub out" using assms by (simp add: acceptable_def)
  with True show ?thesis by (simp add: process_acceptable)
next
  case False
  have rep: "x \<noteq> Fresh \<longleftrightarrow> x = Replayed" for x by (cases x) auto
  from False assms show ?thesis
    by (auto simp: process_def is_allowed_def Let_def rep split: prod.splits)
qed

text \<open>\<open>SocketAddr\<close>: the octets of an IPv4 address are four.\<close>

definition addr_ok :: "prims \<Rightarrow> bool" where
  "addr_ok P \<longleftrightarrow> (\<forall>s sa oc. parse_sockaddr P s = Some sa \<longrightarrow> sa_ip sa = V4 oc \<longrightarrow> length oc = 4)"

lemma kem_pubkey_length: "kem_pubkey_bytes P d = Inr k \<Longrightarrow> length k = 32"
  by (auto simp: kem_pubkey_bytes_def decode32_def split: option.splits if_splits)

lemma route_record_props:
  assumes "addr_ok P" "route_record P hops delays i = Inr rec"
  shows "wf_record rec" "is_last_hop rec \<longleftrightarrow> \<not> Suc i < length hops"
    "Suc i < length hops \<Longrightarrow> kem_pubkey_bytes P (hops ! Suc i) = Inr (next_node_id rec)"
  using assms kem_pubkey_length
  by (auto simp: route_record_def Let_def addr_ok_def wf_record_def record_default_def record_lens is_last_hop_def
      IS_LAST_HOP_def VIA_RENDEZVOUS_def ipv4_octets_def split: if_splits sum.splits option.splits ipaddr.splits)

lemma route_record_facts:
  assumes "addr_ok P" "route_record P hops delays i = Inr rec"
  shows "wf_record rec \<and> (is_last_hop rec \<longleftrightarrow> \<not> Suc i < length hops)
    \<and> (Suc i < length hops \<longrightarrow> kem_pubkey_bytes P (hops ! Suc i) = Inr (next_node_id rec))"
  using route_record_props [OF assms] by blast

lemma ship_path_parts:
  assumes "ship_path P C rnd lnf c d hops pl = Inr (a, epk, pkt)"
  obtains pks alphas sub_keys records h where "mapM_result (kem_pubkey_bytes P) hops = Inr pks"
    "derive_route_secrets P C (cd_route d) pks = Inr (alphas, sub_keys)"
    "mapM_result (route_record P hops
       (\<lambda>i. sender_hop_delay_micros rnd lnf (scheduler_new rnd (mean_hop_delay c)) (cd_delay d i))) [0..<length hops] = Inr records"
    "wrap_header P (cd_beta d) BALANCED alphas sub_keys records (arr TRAILER_LEN (cd_trailer d)) = Inr h"
    "pkt = header_encode h @ foldr (lioness_encrypt P) (map k_payload sub_keys) (pl @ replicate (MAX_PAYLOAD_SIZE - length pl) 0)"
    "kem_pubkey_bytes P (hops ! 0) = Inr epk"
  using assms
  by (auto simp: ship_path_def Let_def map_err_def split: sum.splits option.splits)

text \<open>A relay that neither its limiter nor its cache keeps from accepting a new packet.\<close>

definition ready :: "env \<Rightarrow> relay \<Rightarrow> bool" where
  "ready E r \<longleftrightarrow> fst (rate_check_at (e_rnd E) (rlimiter r) PACKET_SIZE (e_rate_now E)) = Allow
     \<and> (\<forall>g. fst (check_and_insert_at (replay_cache r) g (e_cache_now E)) = Fresh)"

text \<open>The relays of a path are in the network under their public keys.\<close>

definition present :: "prims \<Rightarrow> bytes list \<Rightarrow> (nat \<Rightarrow> relay) \<Rightarrow> (bytes, relay) hashmap \<Rightarrow> nat \<Rightarrow> bool" where
  "present P sks rel net i \<longleftrightarrow> (\<forall>j. i \<le> j \<longrightarrow> j < length sks \<longrightarrow>
     hm_get net (x25519 P (sks ! j) x25519_base) = Some (rel j) \<and> identity_sk (rel j) = sks ! j)"

lemma present_step:
  assumes "present P sks rel net i" "distinct (map (\<lambda>sk. x25519 P sk x25519_base) sks)" "i < length sks"
  shows "present P sks rel (hm_insert (x25519 P (sks ! i) x25519_base) r net) (Suc i)"
proof -
  have "x25519 P (sks ! j) x25519_base \<noteq> x25519 P (sks ! i) x25519_base" if "Suc i \<le> j" "j < length sks" for j
    using nth_eq_iff_index_eq [OF assms(2), of j i] that assms(3) by simp
  with assms(1) show ?thesis by (simp add: present_def hm_simps)
qed

lemma honest_step:
  fixes rs :: "routing_record list" and rng :: "nat \<Rightarrow> byte" and m :: byte
  assumes "length ks \<le> MAX_HOPS" "\<forall>i < length ks. wf_record (rs ! i)" "i < length ks" "length t = TRAILER_LEN"
    "length (as ! i) = ALPHA_LEN" "length region = PACKET_SIZE - HEADER_LEN"
    "derive_hop_subkeys P (x25519 P (identity_sk r) (as ! i)) = Inr (ks ! i)"
  defines "pkt \<equiv> header_encode (hop_view P rng m as ks rs t i (as ! i)) @ lioness_encrypt P (k_payload (ks ! i)) region"
  shows "(\<not> ready E r \<and> fst (process P E r pkt) \<in> {Drop DropRateLimited, Drop DropReplay})
    \<or> fst (process P E r pkt) = dispatch P E r pkt (ks ! i)
        \<lparr>out_record = (rs ! i)\<lparr>next_gamma := snd (wrap_stage P rng m as ks rs t (Suc i))\<rparr>,
         out_next_header = hop_view P rng m as ks rs t (Suc i) (blind_alpha P (as ! i) (k_blind (ks ! i)))\<rparr>"
    "lioness_decrypt P (k_payload (ks ! i)) (drop HEADER_LEN pkt) = region"
proof -
  let ?h = "hop_view P rng m as ks rs t i (as ! i)"
  have e: "length (header_encode ?h) = HEADER_LEN" using wf_hop_view [OF assms(1-5)] by (rule length_header_encode)
  have l: "length pkt = PACKET_SIZE" "take HEADER_LEN pkt = header_encode ?h"
    using e assms(6) by (simp_all add: pkt_def lioness_length PACKET_SIZE_def HEADER_LEN_def)
  have a: "halpha ?h = as ! i" "hversion ?h \<noteq> VERSION_LEGACY"
    by (simp_all add: hop_view_def seen_header_def VERSION_def VERSION_LEGACY_def)
  note v = process_verdict [OF l(1) _ a(2), unfolded l(2) a(1), OF hop_view_decodes [OF assms(1-5)] assms(7)
      unwrap_hop_view [OF assms(1-4), of P rng m as], of E]
  show "(\<not> ready E r \<and> fst (process P E r pkt) \<in> {Drop DropRateLimited, Drop DropReplay})
    \<or> fst (process P E r pkt) = dispatch P E r pkt (ks ! i)
        \<lparr>out_record = (rs ! i)\<lparr>next_gamma := snd (wrap_stage P rng m as ks rs t (Suc i))\<rparr>,
         out_next_header = hop_view P rng m as ks rs t (Suc i) (blind_alpha P (as ! i) (k_blind (ks ! i)))\<rparr>"
    unfolding v by (auto simp: ready_def)
  have "MIN_BLOCK \<le> length region" using assms(6) by (simp add: PACKET_SIZE_def HEADER_LEN_def MIN_BLOCK_def L_LEN_def)
  then show "lioness_decrypt P (k_payload (ks ! i)) (drop HEADER_LEN pkt) = region"
    using e by (simp add: pkt_def lio.dec_enc)
qed

text \<open>The packet of a route as it arrives at hop \<open>i\<close>.\<close>

definition packet_at :: "prims \<Rightarrow> (nat \<Rightarrow> byte) \<Rightarrow> byte \<Rightarrow> bytes list \<Rightarrow> hop_subkeys list \<Rightarrow> routing_record list
    \<Rightarrow> bytes \<Rightarrow> bytes \<Rightarrow> nat \<Rightarrow> bytes" where
  "packet_at P rng m as ks rs t body i = header_encode (hop_view P rng m as ks rs t i (as ! i))
     @ foldr (lioness_encrypt P) (map k_payload (drop i ks)) body"

definition route_ok :: "prims \<Rightarrow> bytes list \<Rightarrow> bytes list \<Rightarrow> hop_subkeys list \<Rightarrow> routing_record list \<Rightarrow> bool" where
  "route_ok P sks as ks rs \<longleftrightarrow> length ks = length sks \<and> length ks \<le> MAX_HOPS \<and> blind_chain P as ks
     \<and> distinct (map (\<lambda>sk. x25519 P sk x25519_base) sks)
     \<and> (\<forall>i < length ks. wf_record (rs ! i) \<and> length (as ! i) = ALPHA_LEN
          \<and> derive_hop_subkeys P (x25519 P (sks ! i) (as ! i)) = Inr (ks ! i)
          \<and> (is_last_hop (rs ! i) \<longleftrightarrow> Suc i = length ks)
          \<and> (Suc i < length ks \<longrightarrow> next_node_id (rs ! i) = x25519 P (sks ! Suc i) x25519_base))"

lemma is_last_hop_gamma [simp]: "is_last_hop (r\<lparr>next_gamma := g\<rparr>) = is_last_hop r"
  by (simp add: is_last_hop_def)

lemma packet_at_process:
  assumes "route_ok P sks as ks rs" "i < length ks" "length t = TRAILER_LEN" "length body = PACKET_SIZE - HEADER_LEN"
    "identity_sk r = sks ! i"
  shows "(\<not> ready E r \<and> fst (process P E r (packet_at P rng m as ks rs t body i)) \<in> {Drop DropRateLimited, Drop DropReplay})
    \<or> (Suc i = length ks \<and> (\<exists>d. fst (process P E r (packet_at P rng m as ks rs t body i)) = DeliverLocal d body))
    \<or> (Suc i < length ks \<and> (\<exists>a d via. fst (process P E r (packet_at P rng m as ks rs t body i))
          = Forward a (x25519 P (sks ! Suc i) x25519_base) d via (packet_at P rng m as ks rs t body (Suc i))))"
proof -
  let ?pkt = "packet_at P rng m as ks rs t body i" and ?reg = "foldr (lioness_encrypt P) (map k_payload (drop (Suc i) ks)) body"
  have w: "length ks \<le> MAX_HOPS" "\<forall>i < length ks. wf_record (rs ! i)" "length (as ! i) = ALPHA_LEN"
    "derive_hop_subkeys P (x25519 P (identity_sk r) (as ! i)) = Inr (ks ! i)"
    "is_last_hop (rs ! i) \<longleftrightarrow> Suc i = length ks"
    using assms(1,2,5) by (simp_all add: route_ok_def)
  have d: "drop i ks = ks ! i # drop (Suc i) ks" using assms(2) by (rule Cons_nth_drop_Suc [symmetric])
  have pkt: "?pkt = header_encode (hop_view P rng m as ks rs t i (as ! i)) @ lioness_encrypt P (k_payload (ks ! i)) ?reg"
    by (simp add: packet_at_def d)
  have reg: "length ?reg = PACKET_SIZE - HEADER_LEN" using assms(4) by (simp add: lio.length_layers)
  note st = honest_step [OF w(1,2) assms(2,3) w(3) reg w(4), where rng = rng and m = m, folded pkt]
  show ?thesis
  proof (cases "Suc i = length ks")
    case True
    then have "?reg = body" by simp
    with st(1) [of E] st(2) w(5) True show ?thesis
      by (auto simp: dispatch_def Let_def)
  next
    case False
    with assms(2) have s: "Suc i < length ks" by simp
    have bl: "blind_alpha P (as ! i) (k_blind (ks ! i)) = as ! Suc i" using assms(1) s by (simp add: route_ok_def blind_chain_def)
    have nn: "next_node_id (rs ! i) = x25519 P (sks ! Suc i) x25519_base" using assms(1,2) s by (simp add: route_ok_def)
    have "x25519 P (sks ! Suc i) x25519_base \<noteq> x25519 P (sks ! i) x25519_base"
      using assms(1) s nth_eq_iff_index_eq [of "map (\<lambda>sk. x25519 P sk x25519_base) sks" "Suc i" i]
      by (simp add: route_ok_def)
    then have ne: "x25519 P (sks ! Suc i) x25519_base \<noteq> identity_public_key P r"
      by (simp add: identity_public_key_def assms(5))
    have "packet_at P rng m as ks rs t body (Suc i)
        = header_encode (hop_view P rng m as ks rs t (Suc i) (as ! Suc i)) @ ?reg" by (simp add: packet_at_def)
    with st(1) [of E] st(2) w(5) False s bl nn ne show ?thesis
      by (auto simp: dispatch_def Let_def)
  qed
qed

lemma net_run_path:
  assumes "route_ok P sks as ks rs" "length t = TRAILER_LEN" "length body = PACKET_SIZE - HEADER_LEN"
    "i < length ks" "length ks - i \<le> fuel" "present P sks rel net i"
  shows "fst (net_run P Es fuel i net (x25519 P (sks ! i) x25519_base) (packet_at P rng m as ks rs t body i))
      = Delivered (x25519 P (last sks) x25519_base) body
    \<or> (\<exists>j reason. j < length ks \<and> \<not> ready (Es j) (rel j) \<and> reason \<in> {DropRateLimited, DropReplay}
        \<and> fst (net_run P Es fuel i net (x25519 P (sks ! i) x25519_base) (packet_at P rng m as ks rs t body i))
          = NetDropped (x25519 P (sks ! j) x25519_base) reason)"
  using assms(4-6)
proof (induction fuel arbitrary: i net)
  case 0
  then show ?case by simp
next
  case (Suc fuel)
  have len: "length ks = length sks" and dis: "distinct (map (\<lambda>sk. x25519 P sk x25519_base) sks)"
    using assms(1) by (simp_all add: route_ok_def)
  have r: "hm_get net (x25519 P (sks ! i) x25519_base) = Some (rel i)" "identity_sk (rel i) = sks ! i"
    using Suc.prems len by (simp_all add: present_def)
  obtain out r' where pr: "process P (Es i) (rel i) (packet_at P rng m as ks rs t body i) = (out, r')" by force
  from packet_at_process [OF assms(1) Suc.prems(1) assms(2,3) r(2), of "Es i" rng m] pr
  consider "\<not> ready (Es i) (rel i)" "out \<in> {Drop DropRateLimited, Drop DropReplay}"
    | d where "Suc i = length ks" "out = DeliverLocal d body"
    | a d via where "Suc i < length ks" "out = Forward a (x25519 P (sks ! Suc i) x25519_base) d via
        (packet_at P rng m as ks rs t body (Suc i))" by auto
  then show ?case
  proof cases
    case 1
    with pr r Suc.prems(1) show ?thesis by auto
  next
    case 2
    then have "last sks = sks ! i" using len by (metis diff_Suc_1 last_conv_nth list.size(3) nat.distinct(1))
    with 2 pr r show ?thesis by simp
  next
    case 3
    have p': "present P sks rel (hm_insert (x25519 P (sks ! i) x25519_base) r' net) (Suc i)"
      using present_step [OF Suc.prems(3) dis] Suc.prems(1) len by simp
    from Suc.IH [OF 3(1) _ p'] Suc.prems(2) show ?thesis using 3(2) pr r by simp
  qed
qed

lemma route_loop_alpha_length: "route_loop P C s A pks = Inr (as, ks) \<Longrightarrow> \<forall>a \<in> set as. length a = ALPHA_LEN"
proof (induction pks arbitrary: s A as ks)
  case Nil
  then show ?case by simp
next
  case (Cons pk pks)
  then show ?case by (auto simp: Let_def point_to_bytes_def split: if_splits sum.splits)
qed

lemma records_route:
  assumes "curve_ok P C" "\<forall>sk \<in> set sks. length sk = 32"
    "list_all2 (\<lambda>h sk. kem_pubkey_bytes P h = Inr (x25519 P sk x25519_base)) hops sks"
    "distinct (map (\<lambda>sk. x25519 P sk x25519_base) sks)"
    "mapM_result (kem_pubkey_bytes P) hops = Inr pks" "derive_route_secrets P C rng pks = Inr (as, ks)"
    "mapM_result recf [0..<length hops] = Inr records"
    "\<And>i rec. recf i = Inr rec \<Longrightarrow> wf_record rec \<and> (is_last_hop rec \<longleftrightarrow> \<not> Suc i < length hops)
       \<and> (Suc i < length hops \<longrightarrow> kem_pubkey_bytes P (hops ! Suc i) = Inr (next_node_id rec))"
  shows "route_ok P sks as ks records" "sks \<noteq> []"
proof -
  have len: "length hops = length sks" using assms(3) by (rule list_all2_lengthD)
  have "list_all2 (\<lambda>h k. kem_pubkey_bytes P h = Inr k) hops (map (\<lambda>sk. x25519 P sk x25519_base) sks)"
    using assms(3) by (simp add: list_all2_map2)
  then have pks: "pks = map (\<lambda>sk. x25519 P sk x25519_base) sks"
    using assms(5) unfolding mapM_result_Inr [symmetric] by simp
  have b: "length pks \<noteq> 0" "length pks \<le> MAX_HOPS"
      and rl: "route_loop P C (scalar_from_bytes_mod_order C (clamp_scalar (arr 32 rng)))
        (point_mul C (scalar_from_bytes_mod_order C (clamp_scalar (arr 32 rng))) (basepoint C)) pks = Inr (as, ks)"
    using assms(6) by (auto simp: derive_route_secrets_def Let_def split: if_splits)
  show "sks \<noteq> []" using b(1) pks by auto
  note sec = route_loop_secrets [OF assms(1,2) rl [unfolded pks]]
  have rec: "length records = length hops" "\<forall>i < length hops. recf i = Inr (records ! i)"
    using assms(7) by (auto simp: mapM_result_Inr list_all2_conv_all_nth)
  have kem: "\<forall>i < length hops. kem_pubkey_bytes P (hops ! i) = Inr (x25519 P (sks ! i) x25519_base)"
    using assms(3) by (simp add: list_all2_conv_all_nth)
  have "wf_record (records ! i) \<and> length (as ! i) = ALPHA_LEN
      \<and> derive_hop_subkeys P (x25519 P (sks ! i) (as ! i)) = Inr (ks ! i)
      \<and> (is_last_hop (records ! i) \<longleftrightarrow> Suc i = length ks)
      \<and> (Suc i < length ks \<longrightarrow> next_node_id (records ! i) = x25519 P (sks ! Suc i) x25519_base)" if "i < length ks" for i
  proof -
    have i: "i < length hops" "i < length as" using that sec len by simp_all
    note r = assms(8) [OF rec(2) [rule_format, OF i(1)]]
    have "length (as ! i) = ALPHA_LEN" using route_loop_alpha_length [OF rl] i(2) by simp
    moreover have "Suc i < length ks \<longrightarrow> next_node_id (records ! i) = x25519 P (sks ! Suc i) x25519_base"
      using r kem len sec by auto
    moreover have "is_last_hop (records ! i) \<longleftrightarrow> Suc i = length ks" using r that len sec by auto
    ultimately show ?thesis using r sec that len by simp
  qed
  then show "route_ok P sks as ks records"
    using sec b(2) assms(4) pks by (simp add: route_ok_def)
qed

text \<open>The relays of a route carry whatever is encrypted under its payload keys to the last one.\<close>

lemma wrapped_packet_runs:
  assumes "route_ok P sks as ks records" "sks \<noteq> []" "wrap_header P rng m as ks records t = Inr h"
    "length t = TRAILER_LEN" "length body = PACKET_SIZE - HEADER_LEN" "present P sks rel net 0"
  shows "let res = fst (net_run P Es (Suc MAX_HOPS) 0 net (x25519 P (sks ! 0) x25519_base)
             (header_encode h @ foldr (lioness_encrypt P) (map k_payload ks) body))
         in res = Delivered (x25519 P (last sks) x25519_base) body
          \<or> (\<exists>j reason. j < length sks \<and> \<not> ready (Es j) (rel j) \<and> reason \<in> {DropRateLimited, DropReplay}
               \<and> res = NetDropped (x25519 P (sks ! j) x25519_base) reason)"
proof -
  have lks: "length ks = length sks" "length ks \<le> MAX_HOPS" "\<forall>i < length ks. wf_record (records ! i)"
    using assms(1) by (simp_all add: route_ok_def)
  have "h = hop_view P rng m as ks records t 0 (as ! 0)"
    using wrap_header_eq(1) [OF assms(3)] hop_view_zero [OF lks(2,3) assms(4), of P rng m as "as ! 0"] by simp
  then have pkt: "header_encode h @ foldr (lioness_encrypt P) (map k_payload ks) body
      = packet_at P rng m as ks records t body 0" by (simp add: packet_at_def)
  from net_run_path [OF assms(1,4,5) _ _ assms(6), of "Suc MAX_HOPS" Es rng m]
  show ?thesis unfolding Let_def pkt using lks assms(2) by simp
qed

lemma shipped_packet:
  assumes "curve_ok P C" and "addr_ok P" and "length pl \<le> MAX_PAYLOAD_SIZE"
    and "list_all2 (\<lambda>h sk. kem_pubkey_bytes P h = Inr (x25519 P sk x25519_base)) hops sks"
    and "\<forall>sk \<in> set sks. length sk = 32" and "distinct (map (\<lambda>sk. x25519 P sk x25519_base) sks)"
    and "present P sks rel net 0"
    and "ship_path P C rnd lnf c d hops pl = Inr (entry_addr, entry_pk, pkt)"
  shows "let res = fst (net_run P Es (Suc MAX_HOPS) 0 net entry_pk pkt)
         in res = Delivered (x25519 P (last sks) x25519_base) (pl @ replicate (MAX_PAYLOAD_SIZE - length pl) 0)
          \<or> (\<exists>j reason. j < length sks \<and> \<not> ready (Es j) (rel j) \<and> reason \<in> {DropRateLimited, DropReplay}
               \<and> res = NetDropped (x25519 P (sks ! j) x25519_base) reason)"
proof -
  obtain pks as ks records h where p: "mapM_result (kem_pubkey_bytes P) hops = Inr pks"
    "derive_route_secrets P C (cd_route d) pks = Inr (as, ks)"
    "mapM_result (route_record P hops
       (\<lambda>i. sender_hop_delay_micros rnd lnf (scheduler_new rnd (mean_hop_delay c)) (cd_delay d i))) [0..<length hops] = Inr records"
    "wrap_header P (cd_beta d) BALANCED as ks records (arr TRAILER_LEN (cd_trailer d)) = Inr h"
    "pkt = header_encode h @ foldr (lioness_encrypt P) (map k_payload ks) (pl @ replicate (MAX_PAYLOAD_SIZE - length pl) 0)"
    "kem_pubkey_bytes P (hops ! 0) = Inr entry_pk"
    using assms(8) by (rule ship_path_parts)
  have r: "route_ok P sks as ks records" "sks \<noteq> []"
    using records_route [OF assms(1,5,4,6) p(1-3)] route_record_facts [OF assms(2)] by blast+
  have epk: "entry_pk = x25519 P (sks ! 0) x25519_base"
    using p(6) assms(4) r(2) by (auto simp: list_all2_conv_all_nth)
  have "length (pl @ replicate (MAX_PAYLOAD_SIZE - length pl) 0) = PACKET_SIZE - HEADER_LEN"
    using assms(3) by (simp add: MAX_PAYLOAD_SIZE_def)
  from wrapped_packet_runs [OF r p(4) _ this assms(7), of Es] show ?thesis unfolding p(5) epk by simp
qed

text \<open>
  End-to-end delivery. A packet the client builds for a path of relays with genuine and
  distinct keys is forwarded from relay to relay along that path and the last one delivers
  exactly the payload, padded with zeros to the size of the payload region. The only thing that
  can stop it on the way is a relay of the path that refuses it because of its rate limit or
  its replay cache; a relay that is ready for new packets never does.
\<close>

theorem packet_delivered:
  assumes "curve_ok P C" and "addr_ok P" and "length pl \<le> MAX_PAYLOAD_SIZE"
    and "list_all2 (\<lambda>h sk. kem_pubkey_bytes P h = Inr (x25519 P sk x25519_base)) hops sks"
    and "\<forall>sk \<in> set sks. length sk = 32" and "distinct (map (\<lambda>sk. x25519 P sk x25519_base) sks)"
    and "present P sks rel net 0"
    and "ship_path P C rnd lnf c d hops pl = Inr (entry_addr, entry_pk, pkt)"
  shows "let res = fst (net_run P Es (Suc MAX_HOPS) 0 net entry_pk pkt)
         in res = Delivered (x25519 P (last sks) x25519_base) (pl @ replicate (MAX_PAYLOAD_SIZE - length pl) 0)
          \<or> (\<exists>j reason. j < length sks \<and> \<not> ready (Es j) (rel j) \<and> reason \<in> {DropRateLimited, DropReplay}
               \<and> res = NetDropped (x25519 P (sks ! j) x25519_base) reason)"
  using assms by (rule shipped_packet)

definition demo_node :: "bytes \<times> relay_tier \<Rightarrow> descriptor" where
  "demo_node = (\<lambda>(sk, t). demo_desc (hex_encode demo_prims (x25519 demo_prims sk x25519_base)) t None False)"

definition demo_hops :: "descriptor list" where
  "demo_hops = map demo_node (zip demo_sks [Entry, Mix, Exit])"

definition demo_net :: "(bytes, relay) hashmap" where
  "demo_net = map (\<lambda>sk. (x25519 demo_prims sk x25519_base, demo_relay sk)) demo_sks"

definition demo_draws :: client_draws where
  "demo_draws = \<lparr>cd_path = (\<lambda>_. first_draws), cd_route = (\<lambda>i. word_of_nat i), cd_delay = (\<lambda>_. 1 / 2),
     cd_trailer = (\<lambda>_. 5), cd_beta = (\<lambda>i. word_of_nat i)\<rparr>"

lemma demo_addr_ok: "addr_ok demo_prims"
  by (auto simp: addr_ok_def demo_prims_def)

lemma demo_kem: "kem_pubkey_bytes demo_prims (demo_node (sk, t)) = Inr (x25519 demo_prims sk x25519_base)"
  using demo_hex_ok by (simp add: kem_pubkey_bytes_def decode32_def demo_desc_def demo_node_def hex_ok_def)

lemma length_demo_hops: "length demo_hops = 3"
  by (simp add: demo_hops_def length_demo_sks)

lemma demo_hops_kem:
  "list_all2 (\<lambda>h sk. kem_pubkey_bytes demo_prims h = Inr (x25519 demo_prims sk x25519_base)) demo_hops demo_sks"
  by (simp add: demo_hops_def demo_sks_def demo_kem)

lemma demo_ready: "ready E (demo_relay sk)"
  by (simp add: ready_def demo_relay_allows demo_relay_fresh)

lemma byte0_replicate: "0 < n \<Longrightarrow> byte0 (replicate n x) = x"
  by (cases n) simp_all

lemma demo_distinct: "distinct (map (\<lambda>sk. x25519 demo_prims sk x25519_base) demo_sks)"
  by (simp add: demo_sks_def demo_x25519 byte0_replicate)

lemma demo_present: "present demo_prims demo_sks (\<lambda>j. demo_relay (demo_sks ! j)) demo_net 0"
  by (auto simp: present_def demo_net_def demo_sks_def demo_x25519 hm_get_def demo_relay_def relay_new_def nth_Cons'
      byte0_replicate)

lemma demo_hop_addr: "rendezvous (demo_node n) = None" "\<exists>ip. ipv4_octets demo_prims (demo_node n) = Inr ip"
  "port demo_prims (demo_node n) = Inr 443"
  by (simp_all add: demo_node_def demo_desc_def ipv4_octets_def port_def demo_prims_def split: prod.split)

lemma demo_record: "\<exists>rec. route_record demo_prims demo_hops delays i = Inr rec"
proof (cases "Suc i < 3")
  case True
  then obtain n where n: "demo_hops ! Suc i = demo_node n" by (simp add: demo_hops_def length_demo_sks)
  then show ?thesis using demo_kem [of "fst n" "snd n"] demo_hop_addr [of n]
    by (auto simp: route_record_def Let_def)
qed (simp add: route_record_def length_demo_hops)

lemma demo_shipped:
  assumes "length pl \<le> MAX_PAYLOAD_SIZE"
  shows "\<exists>a epk pkt. ship_path demo_prims demo_curve (\<lambda>x. x) (\<lambda>x. x - 1) client_new demo_draws demo_hops pl = Inr (a, epk, pkt)"
proof -
  let ?delays = "\<lambda>i. sender_hop_delay_micros (\<lambda>x. x) (\<lambda>x. x - 1) (scheduler_new (\<lambda>x. x) (mean_hop_delay client_new)) (cd_delay demo_draws i)"
  have k: "mapM_result (kem_pubkey_bytes demo_prims) demo_hops = Inr (map (\<lambda>sk. x25519 demo_prims sk x25519_base) demo_sks)"
    using demo_hops_kem by (simp add: mapM_result_Inr list_all2_map2)
  obtain as ks where r: "derive_route_secrets demo_prims demo_curve (cd_route demo_draws)
      (map (\<lambda>sk. x25519 demo_prims sk x25519_base) demo_sks) = Inr (as, ks)" using demo_route by blast
  have s: "length as = 3" "length ks = 3"
    using route_loop_secrets [OF demo_curve_ok demo_sks_len] r
    by (auto simp: derive_route_secrets_def Let_def length_demo_sks split: if_splits)
  obtain g where "\<forall>i. route_record demo_prims demo_hops ?delays i = Inr (g i)" using demo_record by metis
  moreover define rs where "rs = map g [0..<length demo_hops]"
  ultimately have rs: "mapM_result (route_record demo_prims demo_hops ?delays) [0..<length demo_hops] = Inr rs"
    unfolding rs_def by (intro mapM_result_all) simp
  have "length rs = 3" by (simp add: rs_def length_demo_hops)
  then obtain h where "wrap_header demo_prims (cd_beta demo_draws) BALANCED as ks rs (arr TRAILER_LEN (cd_trailer demo_draws)) = Inr h"
    using wrap_header_total [of ks as rs] s by (force simp: record_lens)
  moreover obtain sa where "parse_sockaddr demo_prims (addr (demo_hops ! 0)) = Some sa" by (simp add: demo_prims_def)
  moreover have "kem_pubkey_bytes demo_prims (demo_hops ! 0) = Inr (x25519 demo_prims (demo_sks ! 0) x25519_base)"
    by (simp add: demo_hops_def demo_sks_def demo_kem)
  ultimately show ?thesis using k r rs by (auto simp: ship_path_def Let_def)
qed

theorem packet_delivered_witness:
  "\<exists>a epk pkt. ship_path demo_prims demo_curve (\<lambda>x. x) (\<lambda>x. x - 1) client_new demo_draws demo_hops [1, 2, 3] = Inr (a, epk, pkt)
    \<and> fst (net_run demo_prims (\<lambda>_. demo_env) (Suc MAX_HOPS) 0 demo_net epk pkt)
      = Delivered (x25519 demo_prims (replicate 32 24) x25519_base) ([1, 2, 3] @ replicate (MAX_PAYLOAD_SIZE - 3) 0)"
proof -
  have l: "length [1, 2, 3 :: byte] \<le> MAX_PAYLOAD_SIZE" by (simp add: MAX_PAYLOAD_SIZE_def PACKET_SIZE_def HEADER_LEN_def record_lens)
  obtain a epk pkt where sh: "ship_path demo_prims demo_curve (\<lambda>x. x) (\<lambda>x. x - 1) client_new demo_draws demo_hops [1, 2, 3] = Inr (a, epk, pkt)"
    using demo_shipped [OF l] by blast
  have "last demo_sks = replicate 32 24" by (simp add: demo_sks_def)
  with packet_delivered [OF demo_curve_ok demo_addr_ok l demo_hops_kem demo_sks_len demo_distinct demo_present sh, of "\<lambda>_. demo_env"] sh
  show ?thesis by (simp add: demo_ready Let_def)
qed

end
