(* ===== verification/End_To_End.thy ===== *)
theory End_To_End
  imports Network
begin

text \<open>
  The whole journey of a message: the client selects a path to an exit, seals and frames the
  body, wraps the packet; the relays of the path process it; the exit opens the envelope. Also
  the journey that cannot start: a selected path longer than a header has slots.
\<close>

section \<open>A sealed message arrives\<close>

lemma frame_Inr: "frame e = Inr framed \<longleftrightarrow> framed = be_bytes 4 (length e) @ e \<and> length framed \<le> MAX_PAYLOAD_SIZE"
  by (auto simp: frame_def Let_def)

text \<open>What the client frames, the delivery handler takes from the padded region.\<close>

lemma unseal_framed:
  assumes "frame e = Inr framed" "unseal P sk e = Inr res"
  shows "unseal_delivery P sk (framed @ replicate n 0) = Some res"
proof -
  have f: "framed = be_bytes 4 (length e) @ e" "length framed \<le> MAX_PAYLOAD_SIZE" using assms(1) unfolding frame_Inr by blast+
  then have "length e < 256 ^ 4" by (simp add: MAX_PAYLOAD_SIZE_def PACKET_SIZE_def HEADER_LEN_def)
  then have "be_val (take 4 (framed @ replicate n 0)) = length e" by (simp add: f(1) be_val_be_bytes)
  then show ?thesis using assms(2) by (simp add: unseal_delivery_def f(1) slice_def)
qed

text \<open>The relays a directory names run with the keys it publishes.\<close>

definition genuine :: "prims \<Rightarrow> (nat \<Rightarrow> env) \<Rightarrow> (bytes, relay) hashmap \<Rightarrow> (descriptor \<Rightarrow> bytes) \<Rightarrow> descriptor \<Rightarrow> bool" where
  "genuine P Es net sk_of d \<longleftrightarrow> length (sk_of d) = 32
     \<and> kem_pubkey_bytes P d = Inr (x25519 P (sk_of d) x25519_base)
     \<and> (\<exists>r. hm_get net (x25519 P (sk_of d) x25519_base) = Some r \<and> identity_sk r = sk_of d \<and> (\<forall>k. ready (Es k) r))"

lemma genuine_present:
  assumes "\<forall>d \<in> set path. genuine P Es net sk_of d"
  obtains rel where "present P (map sk_of path) rel net 0" "\<forall>j < length path. \<forall>k. ready (Es k) (rel j)"
proof
  let ?rel = "\<lambda>j. the (hm_get net (x25519 P (sk_of (path ! j)) x25519_base))"
  have "\<exists>r. hm_get net (x25519 P (sk_of (path ! j)) x25519_base) = Some r \<and> identity_sk r = sk_of (path ! j) \<and> (\<forall>k. ready (Es k) r)"
    if "j < length path" for j using assms that by (auto simp: genuine_def)
  then show "present P (map sk_of path) ?rel net 0" "\<forall>j < length path. \<forall>k. ready (Es k) (?rel j)"
    by (fastforce simp: present_def)+
qed

lemma genuine_path_delivers:
  assumes "curve_ok P C" "addr_ok P" "\<forall>d \<in> set path. genuine P Es net sk_of d" "path \<noteq> []"
    "distinct (map (\<lambda>d. x25519 P (sk_of d) x25519_base) path)"
    "length pl \<le> MAX_PAYLOAD_SIZE" "ship_path P C rnd lnf c d path pl = Inr (a, epk, pkt)"
  shows "fst (net_run P Es (Suc MAX_HOPS) 0 net epk pkt)
    = Delivered (x25519 P (sk_of (last path)) x25519_base) (pl @ replicate (MAX_PAYLOAD_SIZE - length pl) 0)"
proof -
  obtain rel where rel: "present P (map sk_of path) rel net 0" "\<forall>j < length path. \<forall>k. ready (Es k) (rel j)"
    using assms(3) by (rule genuine_present)
  have k: "list_all2 (\<lambda>h sk. kem_pubkey_bytes P h = Inr (x25519 P sk x25519_base)) path (map sk_of path)"
    using assms(3) by (simp add: list_all2_map2 list_all2_same genuine_def)
  have l: "\<forall>sk \<in> set (map sk_of path). length sk = 32" using assms(3) by (simp add: genuine_def)
  have d: "distinct (map (\<lambda>sk. x25519 P sk x25519_base) (map sk_of path))" using assms(5) by (simp add: comp_def)
  from shipped_packet [OF assms(1,2,6) k l d rel(1) assms(7), of Es] rel(2) assms(4)
  show ?thesis by (auto simp: Let_def last_map)
qed

text \<open>
  C1: a sealed message arrives. When the relays the client's directory names run with the keys
  it publishes and are ready for new packets, a body sent sealed to an exit, over whatever path
  the selector picks, is delivered by that exit after at most six processing steps, and the
  exit's delivery handler opens it to exactly the sender's key and the body.
\<close>

theorem sealed_message_arrives:
  assumes "curve_ok P C" and "addr_ok P" and "dh_ok P" and "aead_ok P"
    and "distinct (map id_pubkey_hex rs)" and "\<forall>k. draws_ok (cd_path d k)"
    and "\<forall>r \<in> insert exit (set rs). genuine P Es net sk_of r"
    and "\<forall>r \<in> insert exit (set rs). \<forall>r' \<in> insert exit (set rs).
           x25519 P (sk_of r) x25519_base = x25519 P (sk_of r') x25519_base \<longrightarrow> id_pubkey_hex r = id_pubkey_hex r'"
    and "length sender_pk = 32"
    and "send_sealed_to_exit P C rnd lnf c d rng_sk rng_nonce rs n_hops exit sender_pk body = Inr (a, epk, pkt)"
  shows "\<exists>region. fst (net_run P Es (Suc MAX_HOPS) 0 net epk pkt) = Delivered (x25519 P (sk_of exit) x25519_base) region
    \<and> unseal_delivery P (sk_of exit) region = Some (sender_pk, body)"
proof -
  have ek: "kem_pubkey_bytes P exit = Inr (x25519 P (sk_of exit) x25519_base)" using assms(7) by (simp add: genuine_def)
  obtain env framed path where s: "seal P rng_sk rng_nonce (x25519 P (sk_of exit) x25519_base) sender_pk body = Inr env"
    "frame env = Inr framed" "pick_to_exit P rs (entry_guards c) (cd_path d) n_hops exit = Inr path"
    "ship_path P C rnd lnf c d path framed = Inr (a, epk, pkt)"
    using assms(10) ek
    by (auto simp: send_sealed_to_exit_def frame_sealed_for_exit_def send_to_exit_def split: sum.splits if_splits)
  note pp = pick_to_exit_path [OF assms(5,6) s(3)]
  have hops: "3 \<le> n_hops" using s(3) by (auto simp: pick_to_exit_def split: if_splits)
  then have ne: "path \<noteq> []" using pp by auto
  then have sub: "set path \<subseteq> insert exit (set rs)" using pp append_butlast_last_id [of path]
    by (metis set_append Un_subset_iff list.set(1,2) insert_subset empty_subsetI insertI1 subset_insertI2)
  have ids: "distinct path" "inj_on id_pubkey_hex (set path)" using pp by (simp_all add: distinct_map)
  have "r = r'" if r: "r \<in> set path" "r' \<in> set path"
    and eq: "x25519 P (sk_of r) x25519_base = x25519 P (sk_of r') x25519_base" for r r'
  proof (rule inj_onD [OF ids(2) _ r])
    have "r \<in> insert exit (set rs)" "r' \<in> insert exit (set rs)" using sub r by (simp_all only: subsetD)
    with assms(8) eq show "id_pubkey_hex r = id_pubkey_hex r'" by blast
  qed
  then have "distinct (map (\<lambda>d. x25519 P (sk_of d) x25519_base) path)"
    using ids(1) unfolding distinct_map inj_on_def by simp
  note del = genuine_path_delivers [OF assms(1,2) _ ne this _ s(4)]
  have "\<forall>d \<in> set path. genuine P Es net sk_of d" using sub assms(7) by blast
  moreover have "length framed \<le> MAX_PAYLOAD_SIZE" using s(2) by (auto simp: frame_Inr)
  ultimately have "fst (net_run P Es (Suc MAX_HOPS) 0 net epk pkt)
      = Delivered (x25519 P (sk_of (last path)) x25519_base) (framed @ replicate (MAX_PAYLOAD_SIZE - length framed) 0)"
    by (rule del)
  also have "last path = exit" using pp by blast
  finally have "fst (net_run P Es (Suc MAX_HOPS) 0 net epk pkt)
      = Delivered (x25519 P (sk_of exit) x25519_base) (framed @ replicate (MAX_PAYLOAD_SIZE - length framed) 0)" .
  moreover have "unseal P (sk_of exit) env = Inr (sender_pk, body)"
    using sealed_opens [OF assms(3,4) _ s(1)] assms(9) by (simp add: SENDER_PK_LEN_def)
  ultimately show ?thesis using unseal_framed [OF s(2)] by blast
qed

lemma demo_exit_path:
  "pick_to_exit demo_prims demo_hops [] (\<lambda>_. first_draws) 3 (demo_hops ! 2) = Inr demo_hops"
  by code_simp

definition demo_sk_of :: "descriptor \<Rightarrow> bytes" where
  "demo_sk_of d = (case map_of (zip demo_hops demo_sks) d of Some sk \<Rightarrow> sk | None \<Rightarrow> [])"

lemma demo_hops_ids: "distinct (map id_pubkey_hex demo_hops)"
  by code_simp

lemma demo_sk_of_hops: "i < 3 \<Longrightarrow> demo_sk_of (demo_hops ! i) = demo_sks ! i"
  using demo_hops_ids by (simp add: demo_sk_of_def map_of_zip_nth length_demo_hops length_demo_sks distinct_map)

lemma demo_hop_cases: "r \<in> set demo_hops \<Longrightarrow> \<exists>i < 3. r = demo_hops ! i"
  by (auto simp: in_set_conv_nth length_demo_hops)

lemma demo_genuine: "r \<in> set demo_hops \<Longrightarrow> genuine demo_prims (\<lambda>_. demo_env) demo_net demo_sk_of r"
proof (drule demo_hop_cases, elim exE conjE)
  fix i :: nat assume i: "i < 3" "r = demo_hops ! i"
  have "hm_get demo_net (x25519 demo_prims (demo_sks ! i) x25519_base) = Some (demo_relay (demo_sks ! i))
      \<and> identity_sk (demo_relay (demo_sks ! i)) = demo_sks ! i"
    using demo_present i(1) by (simp add: present_def length_demo_sks)
  with i demo_hops_kem demo_sks_len show "genuine demo_prims (\<lambda>_. demo_env) demo_net demo_sk_of r"
    by (simp add: genuine_def demo_sk_of_hops list_all2_conv_all_nth length_demo_hops length_demo_sks demo_ready)
qed

lemma demo_keys_apart:
  assumes "r \<in> set demo_hops" "r' \<in> set demo_hops"
    "x25519 demo_prims (demo_sk_of r) x25519_base = x25519 demo_prims (demo_sk_of r') x25519_base"
  shows "r = r'"
proof -
  obtain i j where "i < 3" "r = demo_hops ! i" "j < 3" "r' = demo_hops ! j" using assms(1,2) demo_hop_cases by meson
  with assms(3) demo_distinct show ?thesis
    by (auto simp: demo_sk_of_hops distinct_conv_nth length_demo_sks)
qed

lemma demo_seals: "\<exists>env. seal demo_prims r1 r2 pk spk body = Inr env"
proof -
  have "x25519 demo_prims k u \<noteq> replicate 32 0" for k u by (simp add: demo_x25519 numeral_eq_Suc)
  then show ?thesis by (simp add: seal_def was_contributory_def seal_key_def Let_def demo_prims_def)
qed

lemma demo_sent:
  "\<exists>a epk pkt. send_sealed_to_exit demo_prims demo_curve (\<lambda>x. x) (\<lambda>x. x - 1) client_new demo_draws (\<lambda>_. 8) (\<lambda>_. 1)
     demo_hops 3 (demo_hops ! 2) (replicate 32 5) [1, 2, 3] = Inr (a, epk, pkt)"
proof -
  have k: "kem_pubkey_bytes demo_prims (demo_hops ! 2) = Inr (x25519 demo_prims (demo_sks ! 2) x25519_base)"
    using demo_hops_kem by (simp add: list_all2_conv_all_nth length_demo_hops)
  obtain env where e: "seal demo_prims (\<lambda>_. 8) (\<lambda>_. 1) (x25519 demo_prims (demo_sks ! 2) x25519_base) (replicate 32 5) [1, 2, 3] = Inr env"
    using demo_seals by blast
  have "length env = 95" using sealed_opens [OF demo_dh_ok demo_aead_ok _ e] by (simp add: sealed_consts)
  then obtain framed where f: "frame env = Inr framed" "length framed \<le> MAX_PAYLOAD_SIZE"
    by (simp add: frame_Inr MAX_PAYLOAD_SIZE_def PACKET_SIZE_def HEADER_LEN_def record_lens)
  have "pick_to_exit demo_prims demo_hops (entry_guards client_new) (cd_path demo_draws) 3 (demo_hops ! 2) = Inr demo_hops"
    using demo_exit_path by (simp add: client_new_def demo_draws_def)
  then show ?thesis using k e f demo_shipped [OF f(2)]
    by (simp add: send_sealed_to_exit_def frame_sealed_for_exit_def send_to_exit_def)
qed

theorem sealed_message_arrives_witness:
  "\<exists>a epk pkt region. send_sealed_to_exit demo_prims demo_curve (\<lambda>x. x) (\<lambda>x. x - 1) client_new demo_draws (\<lambda>_. 8) (\<lambda>_. 1)
     demo_hops 3 (demo_hops ! 2) (replicate 32 5) [1, 2, 3] = Inr (a, epk, pkt)
   \<and> fst (net_run demo_prims (\<lambda>_. demo_env) (Suc MAX_HOPS) 0 demo_net epk pkt)
       = Delivered (x25519 demo_prims (demo_sks ! 2) x25519_base) region
   \<and> unseal_delivery demo_prims (demo_sks ! 2) region = Some (replicate 32 5, [1, 2, 3])"
proof -
  obtain a epk pkt where s: "send_sealed_to_exit demo_prims demo_curve (\<lambda>x. x) (\<lambda>x. x - 1) client_new demo_draws (\<lambda>_. 8) (\<lambda>_. 1)
     demo_hops 3 (demo_hops ! 2) (replicate 32 5) [1, 2, 3] = Inr (a, epk, pkt)" using demo_sent by blast
  have i: "insert (demo_hops ! 2) (set demo_hops) = set demo_hops" by (simp add: insert_absorb length_demo_hops)
  have d: "\<forall>k. draws_ok (cd_path demo_draws k)" by (simp add: demo_draws_def first_draws_ok)
  have g: "\<forall>r \<in> insert (demo_hops ! 2) (set demo_hops). genuine demo_prims (\<lambda>_. demo_env) demo_net demo_sk_of r"
    unfolding i using demo_genuine by blast
  have inj: "\<forall>r \<in> insert (demo_hops ! 2) (set demo_hops). \<forall>r' \<in> insert (demo_hops ! 2) (set demo_hops).
      x25519 demo_prims (demo_sk_of r) x25519_base = x25519 demo_prims (demo_sk_of r') x25519_base \<longrightarrow> id_pubkey_hex r = id_pubkey_hex r'"
    unfolding i using demo_keys_apart by blast
  from sealed_message_arrives [OF demo_curve_ok demo_addr_ok demo_dh_ok demo_aead_ok demo_hops_ids d g inj _ s]
  show ?thesis using s by (simp add: demo_sk_of_hops del: net_run.simps)
qed

section \<open>Paths that do not fit a header\<close>

lemma long_path_refused:
  assumes "MAX_HOPS < length hops" "\<forall>h \<in> set hops. \<exists>k. kem_pubkey_bytes P h = Inr k"
  shows "ship_path P C rnd lnf c d hops pl = Inl ClientCrypto"
proof -
  obtain g where "\<forall>h \<in> set hops. kem_pubkey_bytes P h = Inr (g h)" using assms(2) by metis
  then have "mapM_result (kem_pubkey_bytes P) hops = Inr (map g hops)" by (rule mapM_result_all)
  then show ?thesis using assms(1) by (simp add: ship_path_def derive_route_secrets_def)
qed

text \<open>
  C40: a path through hosted mixes may be too long to send on. Each mix behind a rendezvous
  point adds its host to the path; the selector does not count the hosts against the slots of a
  header, so with enough of them the client selects a path and then fails to build the packet.
\<close>

theorem hosted_path_too_long:
  assumes "distinct (map id_pubkey_hex rs)" and "\<forall>k. draws_ok (cd_path d k)"
    and "pick P rs (entry_guards c) (cd_path d) n_hops = Inr path" and "MAX_HOPS < n_hops + hosted_count path"
    and "\<forall>r \<in> set rs. \<exists>k. kem_pubkey_bytes P r = Inr k" and "length pl \<le> MAX_PAYLOAD_SIZE"
  shows "client_send P C rnd lnf c d rs n_hops pl = Inl ClientCrypto"
proof -
  note pp = pick_path [OF assms(1-3)]
  have "ship_path P C rnd lnf c d path pl = Inl ClientCrypto"
    by (rule long_path_refused) (use pp assms(4,5) in auto)
  moreover have "3 \<le> n_hops \<and> n_hops \<le> 5" using assms(3) by (auto simp: pick_def split: if_splits)
  ultimately show ?thesis using assms(3,6) by (simp add: client_send_def)
qed

definition demo_hosted :: "descriptor list" where
  "demo_hosted = (let nm = (\<lambda>x y. x # replicate 31 y) in
     [demo_desc (nm CHR ''a'' CHR ''a'') Entry None False,
      demo_desc (nm CHR ''b'' CHR ''c'') Mix (Some (nm CHR ''b'' CHR ''b'')) False,
      demo_desc (nm CHR ''c'' CHR ''d'') Mix (Some (nm CHR ''c'' CHR ''c'')) False,
      demo_desc (nm CHR ''d'' CHR ''e'') Mix (Some (nm CHR ''d'' CHR ''d'')) False,
      demo_desc (nm CHR ''b'' CHR ''b'') Mix None True, demo_desc (nm CHR ''c'' CHR ''c'') Mix None True,
      demo_desc (nm CHR ''d'' CHR ''d'') Mix None True, demo_desc (nm CHR ''e'' CHR ''e'') Exit None False])"

lemma demo_hosted_path:
  "pick demo_prims demo_hosted [] (\<lambda>_. first_draws) 5 = Inr (map (nth demo_hosted) [0, 4, 1, 5, 2, 6, 3, 7])"
  by code_simp

theorem hosted_path_too_long_witness:
  "client_send demo_prims demo_curve (\<lambda>x. x) (\<lambda>x. x - 1) client_new demo_draws demo_hosted 5 [1] = Inl ClientCrypto"
proof (rule hosted_path_too_long)
  show "distinct (map id_pubkey_hex demo_hosted)" by code_simp
  show "\<forall>k. draws_ok (cd_path demo_draws k)" by (simp add: demo_draws_def first_draws_ok)
  show "pick demo_prims demo_hosted (entry_guards client_new) (cd_path demo_draws) 5
      = Inr (map (nth demo_hosted) [0, 4, 1, 5, 2, 6, 3, 7])"
    using demo_hosted_path by (simp add: client_new_def demo_draws_def)
  show "MAX_HOPS < 5 + hosted_count (map (nth demo_hosted) [0, 4, 1, 5, 2, 6, 3, 7])" by code_simp
  show "\<forall>r \<in> set demo_hosted. \<exists>k. kem_pubkey_bytes demo_prims r = Inr k"
    by (simp add: demo_hosted_def kem_pubkey_bytes_def decode32_def demo_desc_def demo_prims_def)
qed (simp add: MAX_PAYLOAD_SIZE_def PACKET_SIZE_def HEADER_LEN_def record_lens)

end
