(* ===== verification/Surb.thy ===== *)
theory Surb
  imports Network
begin

text \<open>
  Single-use reply blocks, crypto-gotham-relay/src/surb.rs: the creator builds a header for a
  path that ends at itself and keeps the payload keys; whoever holds the block can send one
  reply along it without learning the path; the creator opens what its last hop delivers.
  \<open>rmp_serde\<close>, which turns a block into bytes, is a parameter of the code that uses it.
\<close>

datatype surb_error = SurbBadHopCount | SurbBadDirectory | SurbHeader | SurbReplyTooLarge

record surb =
  surb_header :: bytes
  first_hop_ipv4 :: bytes
  first_hop_port :: "16 word"
  first_hop_node_id :: bytes
  surb_reply_key :: bytes

record surb_keys =
  payload_keys :: "bytes list"
  sk_reply_key :: bytes

record surb_draws =
  sd_route :: "nat \<Rightarrow> byte"
  sd_delay :: "nat \<Rightarrow> f64"
  sd_trailer :: "nat \<Rightarrow> byte"
  sd_beta :: "nat \<Rightarrow> byte"
  sd_reply :: "nat \<Rightarrow> byte"

definition reply_hop_delay_micros :: "(f64 \<Rightarrow> f64) \<Rightarrow> (f64 \<Rightarrow> f64) \<Rightarrow> cover_mode \<Rightarrow> f64 \<Rightarrow> 32 word" where
  "reply_hop_delay_micros rnd lnf m draw =
     (let sched = scheduler_new rnd (mean_hop_delay_micros m);
          micros = min (next_delay rnd lnf sched draw div 1000) (2 ^ 32 - 1)
      in word_of_nat (max micros 1))"

definition reply_record :: "prims \<Rightarrow> descriptor list \<Rightarrow> (nat \<Rightarrow> 32 word) \<Rightarrow> nat \<Rightarrow> surb_error + routing_record" where
  "reply_record P hops delays i =
     (if Suc i < length hops
      then let next = hops ! Suc i
           in case ipv4_octets P next of
                Inl _ \<Rightarrow> Inl SurbBadDirectory
              | Inr ip \<Rightarrow> (case port P next of
                    Inl _ \<Rightarrow> Inl SurbBadDirectory
                  | Inr p \<Rightarrow> (case kem_pubkey_bytes P next of
                        Inl _ \<Rightarrow> Inl SurbBadDirectory
                      | Inr nid \<Rightarrow> Inr (record_default\<lparr>next_ipv4 := ip, next_port := p, next_node_id := nid,
                                         delay_micros := delays i\<rparr>)))
      else Inr (record_default\<lparr>rflag := IS_LAST_HOP, delay_micros := delays i\<rparr>))"

definition build_surb_with_delay :: "prims \<Rightarrow> ('s, 'p) curve \<Rightarrow> (f64 \<Rightarrow> f64) \<Rightarrow> (f64 \<Rightarrow> f64) \<Rightarrow> surb_draws
    \<Rightarrow> descriptor list \<Rightarrow> cover_mode \<Rightarrow> surb_error + (surb \<times> surb_keys)" where
  "build_surb_with_delay P C rnd lnf d hops m =
     (if \<not> (2 \<le> length hops \<and> length hops \<le> MAX_HOPS) then Inl SurbBadHopCount
      else case mapM_result (kem_pubkey_bytes P) hops of
        Inl _ \<Rightarrow> Inl SurbBadDirectory
      | Inr recipient_pks \<Rightarrow>
          (case derive_route_secrets P C (sd_route d) recipient_pks of
             Inl _ \<Rightarrow> Inl SurbHeader
           | Inr (alphas, sub_keys) \<Rightarrow>
               (case mapM_result (reply_record P hops (\<lambda>i. reply_hop_delay_micros rnd lnf m (sd_delay d i))) [0..<length hops] of
                  Inl e \<Rightarrow> Inl e
                | Inr records \<Rightarrow>
                    (case wrap_header P (sd_beta d) BALANCED alphas sub_keys records (arr TRAILER_LEN (sd_trailer d)) of
                       Inl _ \<Rightarrow> Inl SurbHeader
                     | Inr h \<Rightarrow>
                         let reply_key = arr 32 (sd_reply d); first = hops ! 0
                         in case ipv4_octets P first of
                              Inl _ \<Rightarrow> Inl SurbBadDirectory
                            | Inr ip \<Rightarrow> (case port P first of
                                  Inl _ \<Rightarrow> Inl SurbBadDirectory
                                | Inr p \<Rightarrow> (case kem_pubkey_bytes P first of
                                      Inl _ \<Rightarrow> Inl SurbBadDirectory
                                    | Inr nid \<Rightarrow>
                                        Inr (\<lparr>surb_header = header_encode h, first_hop_ipv4 = ip, first_hop_port = p,
                                              first_hop_node_id = nid, surb_reply_key = reply_key\<rparr>,
                                             \<lparr>payload_keys = map k_payload sub_keys, sk_reply_key = reply_key\<rparr>)))))))"

definition build_surb :: "prims \<Rightarrow> ('s, 'p) curve \<Rightarrow> (f64 \<Rightarrow> f64) \<Rightarrow> (f64 \<Rightarrow> f64) \<Rightarrow> surb_draws
    \<Rightarrow> descriptor list \<Rightarrow> surb_error + (surb \<times> surb_keys)" where
  "build_surb P C rnd lnf d hops = build_surb_with_delay P C rnd lnf d hops CoverBalanced"

definition first_hop :: "surb \<Rightarrow> (bytes \<times> 16 word) \<times> bytes" where
  "first_hop s = ((first_hop_ipv4 s, first_hop_port s), first_hop_node_id s)"

definition seal_reply :: "prims \<Rightarrow> surb \<Rightarrow> bytes \<Rightarrow> surb_error + bytes" where
  "seal_reply P s reply =
     (if length (surb_header s) \<noteq> HEADER_LEN then Inl SurbHeader
      else if MAX_PAYLOAD_SIZE < length reply + 4 then Inl SurbReplyTooLarge
      else let region = be_bytes 4 (length reply) @ reply
                 @ replicate (PACKET_SIZE - HEADER_LEN - (4 + length reply)) 0
           in Inr (surb_header s @ lioness_encrypt P (surb_reply_key s) region))"

text \<open>The delivered region is longer than 33 bytes, so the four length bytes are there.\<close>

definition surb_open :: "prims \<Rightarrow> surb_keys \<Rightarrow> bytes \<Rightarrow> bytes option" where
  "surb_open P ks delivered_region =
     (if length delivered_region < PACKET_SIZE - HEADER_LEN then None
      else let buf = foldl (\<lambda>b k. lioness_encrypt P k b) delivered_region (rev (payload_keys ks));
               buf = lioness_decrypt P (sk_reply_key ks) buf;
               len = be_val (take 4 buf)
           in if length buf < 4 + len then None else Some (slice 4 (4 + len) buf))"

text \<open>What \<open>ship_surb_reply\<close> hands to the transport: the first hop and the packet.\<close>

definition ship_surb_reply :: "prims \<Rightarrow> surb \<Rightarrow> bytes \<Rightarrow> surb_error + (((bytes \<times> 16 word) \<times> bytes) \<times> bytes)" where
  "ship_surb_reply P s reply =
     (case seal_reply P s reply of
        Inl e \<Rightarrow> Inl e
      | Inr pkt \<Rightarrow> Inr (first_hop s, pkt))"

section \<open>A reply comes back\<close>

lemma reply_record_facts:
  assumes "addr_ok P" "reply_record P hops delays i = Inr rec"
  shows "wf_record rec \<and> (is_last_hop rec \<longleftrightarrow> \<not> Suc i < length hops)
    \<and> (Suc i < length hops \<longrightarrow> kem_pubkey_bytes P (hops ! Suc i) = Inr (next_node_id rec))"
  using assms kem_pubkey_length
  by (auto simp: reply_record_def Let_def addr_ok_def wf_record_def record_default_def record_lens is_last_hop_def
      IS_LAST_HOP_def ipv4_octets_def split: if_splits sum.splits option.splits ipaddr.splits)

lemma build_surb_parts:
  assumes "build_surb_with_delay P C rnd lnf d hops m = Inr (s, keys)"
  obtains pks as ks records h where "mapM_result (kem_pubkey_bytes P) hops = Inr pks"
    "derive_route_secrets P C (sd_route d) pks = Inr (as, ks)"
    "mapM_result (reply_record P hops (\<lambda>i. reply_hop_delay_micros rnd lnf m (sd_delay d i))) [0..<length hops] = Inr records"
    "wrap_header P (sd_beta d) BALANCED as ks records (arr TRAILER_LEN (sd_trailer d)) = Inr h"
    "surb_header s = header_encode h" "kem_pubkey_bytes P (hops ! 0) = Inr (first_hop_node_id s)"
    "payload_keys keys = map k_payload ks" "sk_reply_key keys = surb_reply_key s"
  using assms
  by (auto simp: build_surb_with_delay_def Let_def split: sum.splits if_splits)

lemma foldl_rev_foldr: "foldl (\<lambda>b k. f k b) b (rev ks) = foldr f ks b"
  by (simp add: foldl_conv_foldr)

text \<open>The region the last hop delivers is the sealed one, peeled by every hop.\<close>

lemma surb_open_peeled:
  assumes "length reply + 4 \<le> MAX_PAYLOAD_SIZE"
  defines "region \<equiv> be_bytes 4 (length reply) @ reply @ replicate (PACKET_SIZE - HEADER_LEN - (4 + length reply)) 0"
  shows "surb_open P keys (foldl (\<lambda>b k. lioness_decrypt P k b) (lioness_encrypt P (sk_reply_key keys) region) (payload_keys keys))
    = Some reply"
proof -
  have len: "length region = PACKET_SIZE - HEADER_LEN"
    using assms(1) by (simp add: region_def MAX_PAYLOAD_SIZE_def)
  have min: "MIN_BLOCK \<le> length region" unfolding len by (simp add: PACKET_SIZE_def HEADER_LEN_def MIN_BLOCK_def L_LEN_def)
  have "length reply < 256 ^ 4" using assms(1) by (simp add: MAX_PAYLOAD_SIZE_def PACKET_SIZE_def)
  then have v: "be_val (take 4 region) = length reply" by (simp add: region_def be_val_be_bytes)
  have "foldr (lioness_encrypt P) (payload_keys keys)
      (foldl (\<lambda>b k. lioness_decrypt P k b) (lioness_encrypt P (sk_reply_key keys) region) (payload_keys keys))
      = lioness_encrypt P (sk_reply_key keys) region"
    using min by (intro lio.restore_peeled) (simp add: lioness_length)
  moreover have "lioness_decrypt P (sk_reply_key keys) (lioness_encrypt P (sk_reply_key keys) region) = region"
    using min by (rule lio.dec_enc)
  ultimately show ?thesis using v len
    by (simp add: surb_open_def foldl_rev_foldr lio.length_peeled lioness_length) (simp add: region_def slice_def)
qed

text \<open>
  C13: a reply comes back. What the holder of a reply block seals and ships is carried along the
  path of the block to the creator's own relay, whose delivery the creator's keys open to
  exactly the reply, provided the relays of the path run with the keys of their descriptors and
  are ready for new packets.
\<close>

theorem surb_reply_returns:
  assumes "curve_ok P C" and "addr_ok P"
    and "list_all2 (\<lambda>h sk. kem_pubkey_bytes P h = Inr (x25519 P sk x25519_base)) hops sks"
    and "\<forall>sk \<in> set sks. length sk = 32" and "distinct (map (\<lambda>sk. x25519 P sk x25519_base) sks)"
    and "present P sks rel net 0" and "\<forall>j < length sks. ready (Es j) (rel j)"
    and "build_surb_with_delay P C rnd lnf d hops m = Inr (s, keys)"
    and "ship_surb_reply P s reply = Inr ((addr0, nid), pkt)"
  shows "\<exists>region. fst (net_run P Es (Suc MAX_HOPS) 0 net nid pkt) = Delivered (x25519 P (last sks) x25519_base) region
    \<and> surb_open P keys region = Some reply"
proof -
  obtain pks as ks records h where p: "mapM_result (kem_pubkey_bytes P) hops = Inr pks"
    "derive_route_secrets P C (sd_route d) pks = Inr (as, ks)"
    "mapM_result (reply_record P hops (\<lambda>i. reply_hop_delay_micros rnd lnf m (sd_delay d i))) [0..<length hops] = Inr records"
    "wrap_header P (sd_beta d) BALANCED as ks records (arr TRAILER_LEN (sd_trailer d)) = Inr h"
    "surb_header s = header_encode h" "kem_pubkey_bytes P (hops ! 0) = Inr (first_hop_node_id s)"
    "payload_keys keys = map k_payload ks" "sk_reply_key keys = surb_reply_key s"
    using assms(8) by (rule build_surb_parts)
  have r: "route_ok P sks as ks records" "sks \<noteq> []"
    using records_route [OF assms(1,4,3,5) p(1-3)] reply_record_facts [OF assms(2)] by blast+
  define region where "region = be_bytes 4 (length reply) @ reply @ replicate (PACKET_SIZE - HEADER_LEN - (4 + length reply)) 0"
  let ?sealed = "lioness_encrypt P (surb_reply_key s) region"
  let ?body = "foldl (\<lambda>b k. lioness_decrypt P k b) ?sealed (map k_payload ks)"
  have sr: "length reply + 4 \<le> MAX_PAYLOAD_SIZE" "pkt = header_encode h @ ?sealed" "nid = first_hop_node_id s"
    using assms(9) p(5)
    by (auto simp: ship_surb_reply_def seal_reply_def first_hop_def Let_def region_def split: if_splits)
  have len: "length region = PACKET_SIZE - HEADER_LEN" using sr(1) by (simp add: region_def MAX_PAYLOAD_SIZE_def)
  then have "MIN_BLOCK \<le> length ?sealed"
    by (simp add: lioness_length PACKET_SIZE_def HEADER_LEN_def MIN_BLOCK_def L_LEN_def)
  then have pkt: "pkt = header_encode h @ foldr (lioness_encrypt P) (map k_payload ks) ?body"
    unfolding sr(2) by (subst lio.restore_peeled) simp_all
  have lb: "length ?body = PACKET_SIZE - HEADER_LEN" using len by (simp add: lio.length_peeled lioness_length)
  have nid: "nid = x25519 P (sks ! 0) x25519_base"
    using p(6) sr(3) assms(3) r(2) by (auto simp: list_all2_conv_all_nth)
  have "fst (net_run P Es (Suc MAX_HOPS) 0 net nid pkt) = Delivered (x25519 P (last sks) x25519_base) ?body"
    using wrapped_packet_runs [OF r p(4) _ lb assms(6), of Es] assms(7) unfolding pkt nid Let_def by auto
  moreover have "surb_open P keys ?body = Some reply"
    using surb_open_peeled [OF sr(1), of P keys] by (simp add: p(7,8) region_def)
  ultimately show ?thesis by blast
qed

subsection \<open>A concrete reply\<close>

definition demo_surb_draws :: surb_draws where
  "demo_surb_draws = \<lparr>sd_route = (\<lambda>i. word_of_nat i), sd_delay = (\<lambda>_. 1 / 2), sd_trailer = (\<lambda>_. 5),
     sd_beta = (\<lambda>i. word_of_nat i), sd_reply = (\<lambda>_. 3)\<rparr>"

lemma demo_reply_record: "\<exists>rec. reply_record demo_prims demo_hops delays i = Inr rec"
proof (cases "Suc i < 3")
  case True
  then obtain n where n: "demo_hops ! Suc i = demo_node n" by (simp add: demo_hops_def length_demo_sks)
  then show ?thesis using demo_kem [of "fst n" "snd n"] demo_hop_addr [of n]
    by (auto simp: reply_record_def Let_def)
qed (simp add: reply_record_def length_demo_hops)

lemma demo_surb_built: "\<exists>s keys. build_surb_with_delay demo_prims demo_curve (\<lambda>x. x) (\<lambda>x. x - 1) demo_surb_draws demo_hops CoverBalanced = Inr (s, keys)
    \<and> length (surb_header s) = HEADER_LEN"
proof -
  let ?delays = "\<lambda>i. reply_hop_delay_micros (\<lambda>x. x) (\<lambda>x. x - 1) CoverBalanced (sd_delay demo_surb_draws i)"
  have k: "mapM_result (kem_pubkey_bytes demo_prims) demo_hops = Inr (map (\<lambda>sk. x25519 demo_prims sk x25519_base) demo_sks)"
    using demo_hops_kem by (simp add: mapM_result_Inr list_all2_map2)
  obtain as ks where r: "derive_route_secrets demo_prims demo_curve (sd_route demo_surb_draws)
      (map (\<lambda>sk. x25519 demo_prims sk x25519_base) demo_sks) = Inr (as, ks)" using demo_route by blast
  obtain g where g: "\<forall>i. reply_record demo_prims demo_hops ?delays i = Inr (g i)" using demo_reply_record by metis
  let ?rs = "map g [0..<length demo_hops]"
  have rs: "mapM_result (reply_record demo_prims demo_hops ?delays) [0..<length demo_hops] = Inr ?rs"
    using g by (intro mapM_result_all) simp
  have ok: "route_ok demo_prims demo_sks as ks ?rs"
    using records_route [OF demo_curve_ok demo_sks_len demo_hops_kem demo_distinct k r rs]
      reply_record_facts [OF demo_addr_ok] by blast
  have s: "length as = 3" "length ks = 3"
    using route_loop_secrets [OF demo_curve_ok demo_sks_len] r
    by (auto simp: derive_route_secrets_def Let_def length_demo_sks split: if_splits)
  then obtain h where h: "wrap_header demo_prims (sd_beta demo_surb_draws) BALANCED as ks ?rs (arr TRAILER_LEN (sd_trailer demo_surb_draws)) = Inr h"
    using wrap_header_total [of ks as ?rs] by (force simp: record_lens length_demo_hops)
  have w: "length ks \<le> MAX_HOPS" "\<forall>i < length ks. wf_record (?rs ! i)" "length (as ! 0) = ALPHA_LEN" "0 < length ks"
    using ok s by (auto simp: route_ok_def)
  have "wf_header h"
    using wrap_header_eq(1) [OF h] hop_view_zero [OF w(1,2) length_arr] wf_hop_view [OF w(1,2,4) length_arr w(3)] by simp
  then have "length (header_encode h) = HEADER_LEN" by (rule length_header_encode)
  moreover obtain n where "demo_hops ! 0 = demo_node n" by (simp add: demo_hops_def length_demo_sks)
  moreover note demo_hop_addr [of n] demo_kem [of "fst n" "snd n"]
  ultimately show ?thesis using k r rs h
    by (auto simp: build_surb_with_delay_def Let_def length_demo_hops record_lens)
qed

theorem surb_reply_returns_witness:
  "\<exists>s keys nid pkt region. build_surb_with_delay demo_prims demo_curve (\<lambda>x. x) (\<lambda>x. x - 1) demo_surb_draws demo_hops CoverBalanced = Inr (s, keys)
    \<and> fst (net_run demo_prims (\<lambda>_. demo_env) (Suc MAX_HOPS) 0 demo_net nid pkt)
        = Delivered (x25519 demo_prims (replicate 32 24) x25519_base) region
    \<and> surb_open demo_prims keys region = Some [7, 8]"
proof -
  obtain s keys where b: "build_surb_with_delay demo_prims demo_curve (\<lambda>x. x) (\<lambda>x. x - 1) demo_surb_draws demo_hops CoverBalanced = Inr (s, keys)"
    "length (surb_header s) = HEADER_LEN" using demo_surb_built by blast
  then obtain addr0 nid pkt where sh: "ship_surb_reply demo_prims s [7, 8] = Inr ((addr0, nid), pkt)"
    by (simp add: ship_surb_reply_def seal_reply_def first_hop_def MAX_PAYLOAD_SIZE_def PACKET_SIZE_def HEADER_LEN_def record_lens)
  have "last demo_sks = replicate 32 24" by (simp add: demo_sks_def)
  with surb_reply_returns [OF demo_curve_ok demo_addr_ok demo_hops_kem demo_sks_len demo_distinct demo_present _ b(1) sh, of "\<lambda>_. demo_env"] b
  show ?thesis by (auto simp: demo_ready simp del: net_run.simps)
qed

end
