(* ===== verification/Hybrid.thy ===== *)
theory Hybrid
  imports Primitives
begin

text \<open>
  The hybrid key encapsulation, crypto-gotham/src/hybrid.rs: an X25519 exchange next to ML-KEM-768,
  both shared secrets together being the input of the key derivation. ML-KEM (\<open>ml_kem\<close>) is a
  parameter; its keys and ciphertexts are byte strings of fixed length.
\<close>

section \<open>Keys, ciphertexts and their encodings\<close>

definition X25519_PUBKEY_LEN :: nat where "X25519_PUBKEY_LEN = 32"
definition MLKEM_CT_LEN :: nat where "MLKEM_CT_LEN = 1088"
definition MLKEM_EK_LEN :: nat where "MLKEM_EK_LEN = 1184"
definition MLKEM_DK_LEN :: nat where "MLKEM_DK_LEN = 2400"
definition MLKEM_SS_LEN :: nat where "MLKEM_SS_LEN = 32"
definition X25519_SS_LEN :: nat where "X25519_SS_LEN = 32"
definition HYBRID_SS_LEN :: nat where "HYBRID_SS_LEN = X25519_SS_LEN + MLKEM_SS_LEN"
definition ALPHA_STAR_LEN :: nat where "ALPHA_STAR_LEN = 32"

record hybrid_public_key =
  pk_x25519 :: bytes
  pk_mlkem :: bytes

record hybrid_secret_key =
  sk_x25519 :: bytes
  sk_mlkem :: bytes

record hybrid_ciphertext =
  ct_alpha :: bytes
  ct_alpha_prime :: bytes

definition alpha_star :: "prims \<Rightarrow> hybrid_ciphertext \<Rightarrow> bytes" where
  "alpha_star P ct = arr ALPHA_STAR_LEN (blake3_hash P (ct_alpha_prime ct))"

definition pk_to_bytes :: "hybrid_public_key \<Rightarrow> bytes" where
  "pk_to_bytes k = pk_x25519 k @ pk_mlkem k"

definition pk_from_bytes :: "bytes \<Rightarrow> gerror + hybrid_public_key" where
  "pk_from_bytes b =
     (if length b \<noteq> X25519_PUBKEY_LEN + MLKEM_EK_LEN then Inl (Crypto ''hybrid public key wrong length'')
      else Inr \<lparr>pk_x25519 = take X25519_PUBKEY_LEN b, pk_mlkem = drop X25519_PUBKEY_LEN b\<rparr>)"

definition sk_to_bytes :: "hybrid_secret_key \<Rightarrow> bytes" where
  "sk_to_bytes k = sk_x25519 k @ sk_mlkem k"

definition sk_from_bytes :: "bytes \<Rightarrow> gerror + hybrid_secret_key" where
  "sk_from_bytes b =
     (if length b \<noteq> X25519_PUBKEY_LEN + MLKEM_DK_LEN then Inl (Crypto ''hybrid secret key wrong length'')
      else Inr \<lparr>sk_x25519 = take X25519_PUBKEY_LEN b, sk_mlkem = drop X25519_PUBKEY_LEN b\<rparr>)"

definition ct_to_bytes :: "hybrid_ciphertext \<Rightarrow> bytes" where
  "ct_to_bytes c = ct_alpha c @ ct_alpha_prime c"

definition ct_from_bytes :: "bytes \<Rightarrow> gerror + hybrid_ciphertext" where
  "ct_from_bytes b =
     (if length b \<noteq> X25519_PUBKEY_LEN + MLKEM_CT_LEN then Inl (Crypto ''hybrid ciphertext wrong length'')
      else Inr \<lparr>ct_alpha = take X25519_PUBKEY_LEN b, ct_alpha_prime = drop X25519_PUBKEY_LEN b\<rparr>)"

text \<open>The lengths that the Rust array types fix.\<close>

definition wf_pk :: "hybrid_public_key \<Rightarrow> bool" where
  "wf_pk k \<longleftrightarrow> length (pk_x25519 k) = X25519_PUBKEY_LEN \<and> length (pk_mlkem k) = MLKEM_EK_LEN"

definition wf_sk :: "hybrid_secret_key \<Rightarrow> bool" where
  "wf_sk k \<longleftrightarrow> length (sk_x25519 k) = X25519_PUBKEY_LEN \<and> length (sk_mlkem k) = MLKEM_DK_LEN"

definition wf_ct :: "hybrid_ciphertext \<Rightarrow> bool" where
  "wf_ct c \<longleftrightarrow> length (ct_alpha c) = X25519_PUBKEY_LEN \<and> length (ct_alpha_prime c) = MLKEM_CT_LEN"

text \<open>
  The contract of an encoding of fixed length: it is a bijection between the values of the type and
  the byte strings of that length, and nothing else decodes.
\<close>

locale fixed_codec =
  fixes enc :: "'a \<Rightarrow> bytes"
    and dec :: "bytes \<Rightarrow> gerror + 'a"
    and wf :: "'a \<Rightarrow> bool"
    and size :: nat
  assumes dec_enc: "wf x \<Longrightarrow> dec (enc x) = Inr x"
    and dec_wf: "dec b = Inr x \<Longrightarrow> wf x \<and> enc x = b"
    and dec_iff: "(\<exists>x. dec b = Inr x) \<longleftrightarrow> length b = size"
begin

lemma enc_length: "wf x \<Longrightarrow> length (enc x) = size"
  using dec_enc dec_iff by blast

lemma enc_inj: "wf x \<Longrightarrow> wf y \<Longrightarrow> enc x = enc y \<Longrightarrow> x = y"
  by (metis dec_enc sum.inject(2))

lemma enc_bij: "bij_betw enc {x. wf x} {b. length b = size}"
proof (rule bij_betwI')
  fix b :: bytes assume "b \<in> {b. length b = size}"
  then obtain x where "dec b = Inr x" using dec_iff by auto
  then show "\<exists>x \<in> {x. wf x}. b = enc x" using dec_wf by auto
qed (auto simp: enc_length dest: enc_inj)

end

interpretation pk_codec: fixed_codec pk_to_bytes pk_from_bytes wf_pk "X25519_PUBKEY_LEN + MLKEM_EK_LEN"
  by unfold_locales (auto simp: pk_to_bytes_def pk_from_bytes_def wf_pk_def split: if_splits)

interpretation sk_codec: fixed_codec sk_to_bytes sk_from_bytes wf_sk "X25519_PUBKEY_LEN + MLKEM_DK_LEN"
  by unfold_locales (auto simp: sk_to_bytes_def sk_from_bytes_def wf_sk_def split: if_splits)

interpretation ct_codec: fixed_codec ct_to_bytes ct_from_bytes wf_ct "X25519_PUBKEY_LEN + MLKEM_CT_LEN"
  by unfold_locales (auto simp: ct_to_bytes_def ct_from_bytes_def wf_ct_def split: if_splits)

section \<open>Encapsulation\<close>

record mlkem =
  mlkem_generate :: "(nat \<Rightarrow> byte) \<Rightarrow> bytes \<times> bytes"
  mlkem_encaps :: "bytes \<Rightarrow> (nat \<Rightarrow> byte) \<Rightarrow> (bytes \<times> bytes) option"
  mlkem_decaps :: "bytes \<Rightarrow> bytes \<Rightarrow> bytes option"

text \<open>
  What ML-KEM promises: the lengths of FIPS 203, and that the holder of the decapsulation key
  recovers the secret from a ciphertext made for its encapsulation key.
\<close>

definition mlkem_ok :: "mlkem \<Rightarrow> bool" where
  "mlkem_ok K \<longleftrightarrow> (\<forall>r dk ek. mlkem_generate K r = (dk, ek) \<longrightarrow> length dk = MLKEM_DK_LEN \<and> length ek = MLKEM_EK_LEN
     \<and> (\<forall>r' ct ss. mlkem_encaps K ek r' = Some (ct, ss) \<longrightarrow>
          length ct = MLKEM_CT_LEN \<and> length ss = MLKEM_SS_LEN \<and> mlkem_decaps K dk ct = Some ss))"

definition generate_keypair :: "prims \<Rightarrow> mlkem \<Rightarrow> (nat \<Rightarrow> byte) \<Rightarrow> (nat \<Rightarrow> byte) \<Rightarrow> hybrid_public_key \<times> hybrid_secret_key" where
  "generate_keypair P K draw_x draw_k =
     (let x_sk = arr 32 draw_x; (dk, ek) = mlkem_generate K draw_k
      in (\<lparr>pk_x25519 = x25519 P x_sk x25519_base, pk_mlkem = ek\<rparr>, \<lparr>sk_x25519 = x_sk, sk_mlkem = dk\<rparr>))"

definition encapsulate :: "prims \<Rightarrow> mlkem \<Rightarrow> (nat \<Rightarrow> byte) \<Rightarrow> (nat \<Rightarrow> byte) \<Rightarrow> hybrid_public_key \<Rightarrow> gerror + (hybrid_ciphertext \<times> bytes)" where
  "encapsulate P K draw_x draw_k recipient =
     (let ephem_sk = arr 32 draw_x; alpha = x25519 P ephem_sk x25519_base;
          ss_x = x25519 P ephem_sk (pk_x25519 recipient)
      in if length (pk_mlkem recipient) \<noteq> MLKEM_EK_LEN then Inl (Crypto ''ml-kem ek length mismatch'')
         else case mlkem_encaps K (pk_mlkem recipient) draw_k of
           None \<Rightarrow> Inl (Crypto ''ml-kem encapsulate failed'')
         | Some (ct, ss) \<Rightarrow> Inr (\<lparr>ct_alpha = alpha, ct_alpha_prime = ct\<rparr>, ss_x @ ss))"

definition decapsulate :: "prims \<Rightarrow> mlkem \<Rightarrow> hybrid_secret_key \<Rightarrow> hybrid_ciphertext \<Rightarrow> gerror + bytes" where
  "decapsulate P K sk ct =
     (let ss_x = x25519 P (sk_x25519 sk) (ct_alpha ct)
      in if length (sk_mlkem sk) \<noteq> MLKEM_DK_LEN then Inl (Crypto ''ml-kem dk length mismatch'')
         else if length (ct_alpha_prime ct) \<noteq> MLKEM_CT_LEN then Inl (Crypto ''ml-kem ct length mismatch'')
         else case mlkem_decaps K (sk_mlkem sk) (ct_alpha_prime ct) of
           None \<Rightarrow> Inl (Crypto ''ml-kem decapsulate failed'')
         | Some ss \<Rightarrow> Inr (ss_x @ ss))"

record sub_keys =
  sub_k_mac :: bytes
  sub_k_header :: bytes
  sub_k_payload :: bytes
  sub_k_blind :: bytes

definition HKDF_SALT :: bytes where "HKDF_SALT = ascii ''gotham-hop-v1''"

definition expand :: "prims \<Rightarrow> bytes \<Rightarrow> string \<Rightarrow> string \<Rightarrow> gerror + bytes" where
  "expand P ikm info what =
     (case hkdf_sha256 P HKDF_SALT ikm (ascii info) of
        None \<Rightarrow> Inl (Crypto what)
      | Some f \<Rightarrow> Inr (arr 32 f))"

definition derive_subkeys :: "prims \<Rightarrow> bytes \<Rightarrow> gerror + sub_keys" where
  "derive_subkeys P shared =
     (case expand P shared ''gotham:k_mac'' ''HKDF expand k_mac'' of
        Inl e \<Rightarrow> Inl e
      | Inr m \<Rightarrow> (case expand P shared ''gotham:k_header'' ''HKDF expand k_header'' of
        Inl e \<Rightarrow> Inl e
      | Inr h \<Rightarrow> (case expand P shared ''gotham:k_payload'' ''HKDF expand k_payload'' of
        Inl e \<Rightarrow> Inl e
      | Inr p \<Rightarrow> (case expand P shared ''gotham:k_blind'' ''HKDF expand k_blind'' of
        Inl e \<Rightarrow> Inl e
      | Inr b \<Rightarrow> Inr \<lparr>sub_k_mac = m, sub_k_header = h, sub_k_payload = p, sub_k_blind = b\<rparr>))))"


definition demo_mlkem :: mlkem where
  "demo_mlkem = \<lparr>mlkem_generate = (\<lambda>r. (replicate 2400 (r 0), replicate 1184 (r 0))),
     mlkem_encaps = (\<lambda>ek r. Some (replicate 1088 (r 1), replicate 32 (r 1))),
     mlkem_decaps = (\<lambda>dk ct. Some (take 32 ct))\<rparr>"

lemma demo_mlkem_ok: "mlkem_ok demo_mlkem"
  by (simp add: mlkem_ok_def demo_mlkem_def MLKEM_DK_LEN_def MLKEM_EK_LEN_def MLKEM_CT_LEN_def MLKEM_SS_LEN_def)


end
