(* ===== verification/Enroll.thy ===== *)
theory Enroll
  imports Directory_Correct "HOL-Library.Product_Lexorder"
begin

text \<open>
  Enrolment of relays, crypto-gotham/src/enroll.rs: the enrolment a relay sends with its proof
  of possession, what is checked of it, and the registry of an authority from which directories
  and admissions are built; with the relay's side of crypto-gotham-relay/src/enroll_client.rs.
\<close>

section \<open>Enrolments\<close>

definition ENROLL_VERSION :: byte where "ENROLL_VERSION = 1"
definition ENROLL_STALE_AFTER_SECS :: nat where "ENROLL_STALE_AFTER_SECS = 1800"
definition ATTEST_EPOCH_BUCKET_SECS :: nat where "ATTEST_EPOCH_BUCKET_SECS = 86400"

definition current_attest_epoch :: "nat \<Rightarrow> nat" where
  "current_attest_epoch now = (now div ATTEST_EPOCH_BUCKET_SECS) * ATTEST_EPOCH_BUCKET_SECS"

record enrollment =
  en_version :: byte
  en_kem_hex :: string
  en_addr :: string
  en_tier :: relay_tier
  en_country :: "string option"
  en_operator :: "string option"
  en_seq :: nat
  en_rendezvous :: "string option"
  en_rendezvous_capable :: bool
  en_pop_proof :: "string option"
  en_attest_epoch :: "nat option"
  en_mailbox :: bool

definition enrollment_new :: "string \<Rightarrow> string \<Rightarrow> relay_tier \<Rightarrow> string option \<Rightarrow> string option \<Rightarrow> nat \<Rightarrow> enrollment" where
  "enrollment_new kem_hex address t cty op sq =
     \<lparr>en_version = ENROLL_VERSION, en_kem_hex = kem_hex, en_addr = address, en_tier = t, en_country = cty,
      en_operator = op, en_seq = sq, en_rendezvous = None, en_rendezvous_capable = False, en_pop_proof = None,
      en_attest_epoch = None, en_mailbox = False\<rparr>"

definition pop_tag :: "prims \<Rightarrow> bytes \<Rightarrow> bytes \<Rightarrow> nat \<Rightarrow> bytes" where
  "pop_tag P shared kem_pubkey sq =
     arr 32 (blake3_keyed P (arr 32 (blake3_derive_key P ''gotham-rendezvous-pop-v1'' shared)) (kem_pubkey @ le_bytes 8 sq))"

definition put_str :: "string \<Rightarrow> bytes" where
  "put_str s = le_bytes 4 (length s) @ ascii s"

definition put_opt_str :: "string option \<Rightarrow> bytes" where
  "put_opt_str s = (case s of Some v \<Rightarrow> 1 # put_str v | None \<Rightarrow> [0])"

definition tier_byte :: "relay_tier \<Rightarrow> byte" where
  "tier_byte t = (case t of Entry \<Rightarrow> 0 | Mix \<Rightarrow> 1 | Exit \<Rightarrow> 2)"

definition bool_byte :: "bool \<Rightarrow> byte" where
  "bool_byte b = (if b then 1 else 0)"

text \<open>What \<open>binding_hash\<close> feeds to the hash, in order.\<close>

definition binding_message :: "enrollment \<Rightarrow> bytes" where
  "binding_message e =
     ascii ''gotham-enroll-binding-v1'' @ [en_version e] @ put_str (en_kem_hex e) @ put_str (en_addr e)
     @ [tier_byte (en_tier e)] @ put_opt_str (en_country e) @ put_opt_str (en_operator e) @ le_bytes 8 (en_seq e)
     @ put_opt_str (en_rendezvous e) @ [bool_byte (en_rendezvous_capable e)]
     @ (case en_attest_epoch e of Some ep \<Rightarrow> 1 # le_bytes 8 ep | None \<Rightarrow> [0])
     @ [bool_byte (en_mailbox e)]"

definition binding_hash :: "prims \<Rightarrow> enrollment \<Rightarrow> bytes" where
  "binding_hash P e = arr 32 (blake3_hash P (binding_message e))"

definition pop_tag_v2 :: "prims \<Rightarrow> bytes \<Rightarrow> bytes \<Rightarrow> bytes" where
  "pop_tag_v2 P shared binding =
     arr 32 (blake3_keyed P (arr 32 (blake3_derive_key P ''gotham-enroll-pop-v2'' shared)) binding)"

text \<open>\<open>hex::decode(..).ok().and_then(|v| <[u8; 32]>::try_from(v).ok())\<close>.\<close>

definition hex32 :: "prims \<Rightarrow> string \<Rightarrow> bytes option" where
  "hex32 P s = (case hex_decode P s of Some v \<Rightarrow> if length v = 32 then Some v else None | None \<Rightarrow> None)"

definition verify_pop_v2 :: "prims \<Rightarrow> enrollment \<Rightarrow> bytes \<Rightarrow> bool" where
  "verify_pop_v2 P e shared =
     (case en_pop_proof e of
        None \<Rightarrow> False
      | Some hexstr \<Rightarrow> (case hex32 P hexstr of
            None \<Rightarrow> False
          | Some provided \<Rightarrow> ct_diff provided (pop_tag_v2 P shared (binding_hash P e)) = 0))"

definition verify_pop :: "prims \<Rightarrow> enrollment \<Rightarrow> bytes \<Rightarrow> bool" where
  "verify_pop P e shared =
     (case en_pop_proof e of
        None \<Rightarrow> False
      | Some hexstr \<Rightarrow> (case hex32 P (en_kem_hex e) of
            None \<Rightarrow> False
          | Some kem \<Rightarrow> (case hex32 P hexstr of
                None \<Rightarrow> False
              | Some provided \<Rightarrow> ct_diff provided (pop_tag P shared kem (en_seq e)) = 0)))"

definition is_unspecified_ip :: "ipaddr \<Rightarrow> bool" where
  "is_unspecified_ip ip = (case ip of V4 b \<Rightarrow> list_all (\<lambda>x. x = 0) b | V6 b \<Rightarrow> list_all (\<lambda>x. x = 0) b)"

definition is_loopback :: "ipaddr \<Rightarrow> bool" where
  "is_loopback ip = (case ip of V4 b \<Rightarrow> take 1 b = [127] | V6 b \<Rightarrow> b = replicate 15 0 @ [1])"

definition validate :: "prims \<Rightarrow> enrollment \<Rightarrow> gerror + sockaddr option" where
  "validate P e =
     (if en_version e \<noteq> ENROLL_VERSION then Inl (Directory ''unsupported enrollment version'')
      else case hex_decode P (en_kem_hex e) of
        None \<Rightarrow> Inl (Directory ''bad kem_pubkey hex'')
      | Some key \<Rightarrow>
          if length key \<noteq> 32 then Inl (Directory ''kem_pubkey wrong length'')
          else case en_rendezvous e of
            Some r \<Rightarrow>
              if en_rendezvous_capable e
              then Inl (Directory ''a rendezvous-hosted relay cannot also be rendezvous_capable'')
              else (case hex_decode P r of
                      None \<Rightarrow> Inl (Directory ''bad rendezvous hex'')
                    | Some rb \<Rightarrow> if length rb \<noteq> 32 then Inl (Directory ''rendezvous key wrong length'') else Inr None)
          | None \<Rightarrow>
              (case parse_sockaddr P (en_addr e) of
                 None \<Rightarrow> Inl (Directory ''addr is not a numeric socket address'')
               | Some sa \<Rightarrow>
                   if is_unspecified_ip (sa_ip sa) then Inl (Directory ''addr must not be the unspecified address'')
                   else if is_loopback (sa_ip sa) then Inl (Directory ''addr must not be a loopback address'')
                   else if sa_port sa = 0 then Inl (Directory ''addr port must not be zero'')
                   else Inr (Some sa)))"

definition to_descriptor :: "enrollment \<Rightarrow> descriptor" where
  "to_descriptor e =
     \<lparr>id_pubkey_hex = en_kem_hex e, kem_pubkey_hex = en_kem_hex e, addr = en_addr e, tier = en_tier e,
      country = en_country e, asn = None, operator = en_operator e, uptime_pct = None, has_mailbox = en_mailbox e,
      rendezvous = en_rendezvous e, rendezvous_capable = en_rendezvous_capable e\<rparr>"

definition derive_authority_pop_sk :: "prims \<Rightarrow> bytes \<Rightarrow> bytes" where
  "derive_authority_pop_sk P seed = arr 32 (blake3_derive_key P ''gotham-authority-pop-x25519-v1'' seed)"

section \<open>The registry\<close>

record reg_entry =
  reg_enrollment :: enrollment
  last_seen :: nat
  first_seen :: nat

type_synonym registry = "(string, reg_entry) hashmap"

definition enroll_at :: "prims \<Rightarrow> registry \<Rightarrow> enrollment \<Rightarrow> nat \<Rightarrow> gerror + registry" where
  "enroll_at P reg e now =
     (case validate P e of
        Inl err \<Rightarrow> Inl err
      | Inr _ \<Rightarrow>
          let stored = hm_get reg (en_kem_hex e);
              first = (case stored of Some x \<Rightarrow> first_seen x | None \<Rightarrow> now);
              reg' = hm_insert (en_kem_hex e) \<lparr>reg_enrollment = e, last_seen = now, first_seen = first\<rparr> reg
          in case stored of
               Some x \<Rightarrow>
                 if en_seq e \<le> en_seq (reg_enrollment x)
                 then Inl (Directory ''enrollment seq not increasing (replay)'') else Inr reg'
             | None \<Rightarrow> Inr reg')"

definition reg_prune_at :: "registry \<Rightarrow> nat \<Rightarrow> registry \<times> nat" where
  "reg_prune_at reg now =
     (let cutoff = sat_sub now ENROLL_STALE_AFTER_SECS;
          reg' = hm_retain (\<lambda>_ v. cutoff \<le> last_seen v) reg
      in (reg', length reg - length reg'))"

definition rendezvous_point :: "prims \<Rightarrow> registry \<Rightarrow> string \<Rightarrow> (sockaddr \<times> bytes) option" where
  "rendezvous_point P reg kem_hex =
     (case hm_get reg kem_hex of
        None \<Rightarrow> None
      | Some x \<Rightarrow>
          let e = reg_enrollment x
          in if en_rendezvous e \<noteq> None \<or> \<not> en_rendezvous_capable e then None
             else case parse_sockaddr P (en_addr e) of
               None \<Rightarrow> None
             | Some sa \<Rightarrow> (case hex32 P (en_kem_hex e) of None \<Rightarrow> None | Some pk \<Rightarrow> Some (sa, pk)))"

definition order_for_diversity_caps :: "prims \<Rightarrow> registry \<Rightarrow> descriptor list \<Rightarrow> descriptor list" where
  "order_for_diversity_caps P reg ds =
     sort_key (\<lambda>d. (case hm_get reg (kem_pubkey_hex d) of Some x \<Rightarrow> first_seen x | None \<Rightarrow> u64_max,
                    arr 32 (blake3_hash P (ascii (id_pubkey_hex d))))) ds"

definition reg_descriptors :: "prims \<Rightarrow> registry \<Rightarrow> descriptor list" where
  "reg_descriptors P reg =
     apply_diversity_caps P (order_for_diversity_caps P reg (map (\<lambda>(_, v). to_descriptor (reg_enrollment v)) reg))"

definition admission_inputs :: "prims \<Rightarrow> registry \<Rightarrow> (string \<times> nat \<times> string option) list" where
  "admission_inputs P reg =
     List.map_filter (\<lambda>d. case hm_get reg (kem_pubkey_hex d) of
         None \<Rightarrow> None
       | Some x \<Rightarrow> let e = reg_enrollment x
                   in map_option (\<lambda>ep. (en_kem_hex e, ep, en_operator e)) (en_attest_epoch e))
       (reg_descriptors P reg)"

definition tier_coverage :: "registry \<Rightarrow> nat" where
  "tier_coverage reg =
     length (filter (\<lambda>t. list_ex (\<lambda>(_, v). en_tier (reg_enrollment v) = t) reg) [Entry, Mix, Exit])"

definition build_signed :: "prims \<Rightarrow> json \<Rightarrow> registry \<Rightarrow> bytes \<Rightarrow> nat \<Rightarrow> nat option \<Rightarrow> gerror + signed_directory" where
  "build_signed P J reg authority valid_secs clock =
     (case doc_new (reg_descriptors P reg) valid_secs clock of
        Inl e \<Rightarrow> Inl e
      | Inr d \<Rightarrow> directory_sign P J d authority)"

section \<open>The relay's side\<close>

record enroll_config =
  cfg_advertise_addr :: string
  cfg_kem_hex :: string
  cfg_tier :: relay_tier
  cfg_country :: "string option"
  cfg_operator :: "string option"
  cfg_rendezvous :: "string option"
  cfg_rendezvous_capable :: bool
  cfg_mailbox :: bool
  cfg_relay_sk :: bytes

definition with_mailbox :: "bool \<Rightarrow> enrollment \<Rightarrow> enrollment" where
  [simp]: "with_mailbox yes e = e\<lparr>en_mailbox := yes\<rparr>"

definition with_attest_epoch :: "nat \<Rightarrow> enrollment \<Rightarrow> enrollment" where
  [simp]: "with_attest_epoch epoch e = e\<lparr>en_attest_epoch := Some epoch\<rparr>"

definition with_rendezvous :: "string \<Rightarrow> enrollment \<Rightarrow> enrollment" where
  [simp]: "with_rendezvous r_kem_hex e = e\<lparr>en_rendezvous := Some r_kem_hex\<rparr>"

definition with_rendezvous_capable :: "bool \<Rightarrow> enrollment \<Rightarrow> enrollment" where
  [simp]: "with_rendezvous_capable yes e = e\<lparr>en_rendezvous_capable := yes\<rparr>"

definition base_enrollment :: "enroll_config \<Rightarrow> nat \<Rightarrow> nat \<Rightarrow> enrollment" where
  "base_enrollment cfg sq ep =
     (let advertise = (if cfg_rendezvous cfg \<noteq> None then [] else cfg_advertise_addr cfg);
          e = with_attest_epoch ep (enrollment_new (cfg_kem_hex cfg) advertise (cfg_tier cfg) (cfg_country cfg) (cfg_operator cfg) sq);
          e = (case cfg_rendezvous cfg of Some r \<Rightarrow> with_rendezvous r e | None \<Rightarrow> e);
          e = (if cfg_rendezvous_capable cfg then with_rendezvous_capable True e else e)
      in if cfg_mailbox cfg then with_mailbox True e else e)"

definition attach_pop_proof :: "prims \<Rightarrow> enrollment \<Rightarrow> enroll_config \<Rightarrow> bytes \<Rightarrow> enrollment" where
  "attach_pop_proof P e cfg pop_pk =
     (if hex32 P (cfg_kem_hex cfg) = None then e
      else let shared = x25519 P (cfg_relay_sk cfg) pop_pk
           in e\<lparr>en_pop_proof := Some (hex_encode P (pop_tag_v2 P shared (binding_hash P e)))\<rparr>)"

definition is_space :: "char \<Rightarrow> bool" where
  "is_space c \<longleftrightarrow> (of_char c :: nat) = 32 \<or> 9 \<le> (of_char c :: nat) \<and> (of_char c :: nat) \<le> 13"

definition trim :: "string \<Rightarrow> string" where
  "trim s = rev (dropWhile is_space (rev (dropWhile is_space s)))"

definition parse_tier :: "string \<Rightarrow> string + relay_tier" where
  "parse_tier s =
     (let t = map to_ascii_lower (trim s)
      in if t = ''entry'' then Inr Entry else if t = ''mix'' \<or> t = [] then Inr Mix
         else if t = ''exit'' then Inr Exit else Inl t)"

section \<open>The proof of possession binds the whole enrolment\<close>

lemma put_str_inj:
  assumes "length s < 2 ^ 32" "length t < 2 ^ 32"
  shows "put_str s @ a = put_str t @ b \<longleftrightarrow> s = t \<and> a = b"
proof
  assume eq: "put_str s @ a = put_str t @ b"
  then have "le_bytes 4 (length s) = le_bytes 4 (length t)" "ascii s @ a = ascii t @ b"
    by (simp_all add: put_str_def append_eq_append_conv)
  then have "length s = length t" using assms by (intro le_bytes_inj [of 4]) simp_all
  with \<open>ascii s @ a = ascii t @ b\<close> show "s = t \<and> a = b" by (simp add: append_eq_append_conv ascii_inj)
qed simp

lemma put_opt_str_inj:
  assumes "\<forall>v. s = Some v \<longrightarrow> length v < 2 ^ 32" "\<forall>v. t = Some v \<longrightarrow> length v < 2 ^ 32"
  shows "put_opt_str s @ a = put_opt_str t @ b \<longleftrightarrow> s = t \<and> a = b"
  using assms put_str_inj by (auto simp: put_opt_str_def split: option.splits)

lemma le8_inj: "x < 2 ^ 64 \<Longrightarrow> y < 2 ^ 64 \<Longrightarrow> le_bytes 8 x @ a = le_bytes 8 y @ b \<longleftrightarrow> x = y \<and> a = b"
  using le_bytes_inj [of 8 x y] by (auto simp: append_eq_append_conv)

text \<open>Strings of a serialised enrolment are shorter than 4 GiB and its numbers are of 64 bits.\<close>

definition enrollment_sized :: "enrollment \<Rightarrow> bool" where
  "enrollment_sized e \<longleftrightarrow> length (en_kem_hex e) < 2 ^ 32 \<and> length (en_addr e) < 2 ^ 32
     \<and> (\<forall>v. en_country e = Some v \<longrightarrow> length v < 2 ^ 32) \<and> (\<forall>v. en_operator e = Some v \<longrightarrow> length v < 2 ^ 32)
     \<and> (\<forall>v. en_rendezvous e = Some v \<longrightarrow> length v < 2 ^ 32)
     \<and> en_seq e < 2 ^ 64 \<and> (\<forall>ep. en_attest_epoch e = Some ep \<longrightarrow> ep < 2 ^ 64)"

lemma bool_byte_inj: "bool_byte a = bool_byte b \<longleftrightarrow> a = b"
  by (simp add: bool_byte_def)

lemma tier_byte_inj: "tier_byte a = tier_byte b \<longleftrightarrow> a = b"
  by (cases a; cases b) (simp_all add: tier_byte_def)

lemma epoch_inj:
  assumes "\<forall>x. s = Some x \<longrightarrow> x < 2 ^ 64" "\<forall>x. t = Some x \<longrightarrow> x < 2 ^ 64"
  shows "(case s of Some x \<Rightarrow> (1 :: byte) # le_bytes 8 x | None \<Rightarrow> [0]) @ a = (case t of Some x \<Rightarrow> 1 # le_bytes 8 x | None \<Rightarrow> [0]) @ b
    \<longleftrightarrow> s = t \<and> a = b"
  using assms le8_inj by (auto split: option.splits)

lemma binding_message_inj:
  assumes "enrollment_sized e" "enrollment_sized e'"
  shows "binding_message e = binding_message e' \<longleftrightarrow> e\<lparr>en_pop_proof := None\<rparr> = e'\<lparr>en_pop_proof := None\<rparr>"
proof -
  note s = assms [unfolded enrollment_sized_def]
  have "binding_message e = binding_message e' \<longleftrightarrow>
      en_version e = en_version e' \<and> en_kem_hex e = en_kem_hex e' \<and> en_addr e = en_addr e' \<and> en_tier e = en_tier e'
      \<and> en_country e = en_country e' \<and> en_operator e = en_operator e' \<and> en_seq e = en_seq e'
      \<and> en_rendezvous e = en_rendezvous e' \<and> en_rendezvous_capable e = en_rendezvous_capable e'
      \<and> en_attest_epoch e = en_attest_epoch e' \<and> en_mailbox e = en_mailbox e'"
    unfolding binding_message_def using s
    by (simp add: put_str_inj put_opt_str_inj le8_inj le8_inj [where a = "[]" and b = "[]", simplified]
        epoch_inj [where a = "[]" and b = "[]", simplified] bool_byte_inj tier_byte_inj)
  also have "\<dots> \<longleftrightarrow> e\<lparr>en_pop_proof := None\<rparr> = e'\<lparr>en_pop_proof := None\<rparr>"
    by (cases e; cases e') auto
  finally show ?thesis .
qed

text \<open>
  C37: the possession proof covers everything a relay enrols with. Two enrolments feed the same
  bytes to the binding hash only when they agree on every field but the proof itself: version,
  key, address, tier, country, operator, sequence number, rendezvous settings, epoch and
  mailbox. No field can be changed, moved into a neighbour or dropped under the same proof.
\<close>

theorem enrollment_binding:
  assumes "enrollment_sized e" and "enrollment_sized e'"
  shows "binding_message e = binding_message e' \<longleftrightarrow> e\<lparr>en_pop_proof := None\<rparr> = e'\<lparr>en_pop_proof := None\<rparr>"
  using assms by (rule binding_message_inj)

definition demo_enrollment :: enrollment where
  "demo_enrollment = (enrollment_new ''ab'' ''cd'' Mix None (Some ''op'') 7)\<lparr>en_attest_epoch := Some 86400\<rparr>"

theorem enrollment_binding_witness:
  "binding_message demo_enrollment \<noteq> binding_message (demo_enrollment\<lparr>en_kem_hex := ''abc'', en_addr := ''d''\<rparr>)"
  using enrollment_binding [of demo_enrollment "demo_enrollment\<lparr>en_kem_hex := ''abc'', en_addr := ''d''\<rparr>"]
  by (simp add: enrollment_sized_def demo_enrollment_def enrollment_new_def)

lemma pop_proof_verifies:
  assumes "dh_ok P" "hex_ok P" "hex32 P (cfg_kem_hex cfg) = Some (x25519 P (cfg_relay_sk cfg) x25519_base)"
  shows "verify_pop_v2 P (attach_pop_proof P e cfg (x25519 P pop_sk x25519_base))
    (x25519 P pop_sk (x25519 P (cfg_relay_sk cfg) x25519_base))"
proof -
  have "binding_hash P (e\<lparr>en_pop_proof := p\<rparr>) = binding_hash P e" for p by (simp add: binding_hash_def binding_message_def)
  moreover have "x25519 P pop_sk (x25519 P (cfg_relay_sk cfg) x25519_base) = x25519 P (cfg_relay_sk cfg) (x25519 P pop_sk x25519_base)"
    using assms(1) by (simp add: dh_ok_def)
  ultimately show ?thesis using assms(2,3)
    by (simp add: attach_pop_proof_def verify_pop_v2_def Let_def hex32_def hex_ok_def pop_tag_v2_def ct_diff_eq)
qed

section \<open>The registry only moves forward\<close>

lemma enroll_at_Inr:
  "enroll_at P reg e now = Inr reg' \<longleftrightarrow> (\<exists>a. validate P e = Inr a)
     \<and> (\<forall>x. hm_get reg (en_kem_hex e) = Some x \<longrightarrow> en_seq (reg_enrollment x) < en_seq e)
     \<and> reg' = hm_insert (en_kem_hex e) \<lparr>reg_enrollment = e, last_seen = now,
         first_seen = (case hm_get reg (en_kem_hex e) of Some x \<Rightarrow> first_seen x | None \<Rightarrow> now)\<rparr> reg"
  by (auto simp: enroll_at_def Let_def not_le split: sum.splits option.splits)

text \<open>What a registry that only ever enrols and prunes holds.\<close>

definition registry_ok :: "prims \<Rightarrow> registry \<Rightarrow> bool" where
  "registry_ok P reg \<longleftrightarrow> hm_wf reg \<and> (\<forall>k x. hm_get reg k = Some x \<longrightarrow> en_kem_hex (reg_enrollment x) = k
     \<and> (\<exists>a. validate P (reg_enrollment x) = Inr a))"

lemma registry_ok_enroll: "registry_ok P reg \<Longrightarrow> enroll_at P reg e now = Inr reg' \<Longrightarrow> registry_ok P reg'"
  by (auto simp: registry_ok_def enroll_at_Inr hm_simps)

lemma registry_ok_prune: "registry_ok P reg \<Longrightarrow> registry_ok P (fst (reg_prune_at reg now))"
  by (auto simp: registry_ok_def reg_prune_at_def Let_def hm_simps split: option.splits if_splits)

end
