(* ===== verification/Admission.thy ===== *)
theory Admission
  imports Directory
begin

text \<open>
  Admission by a quorum of authorities, crypto-gotham-directory/src/attestation.rs: the set of
  authorities with its threshold, the message an authority signs to admit a relay, the
  certificate with its attestations, and the count of the authorities that vouch for it.
  Lower-casing is that of ASCII: the strings compared are hexadecimal. A \<open>BTreeSet\<close> is a list
  with \<open>List.insert\<close>.
\<close>

text \<open>crypto-gotham-directory/src/error.rs.\<close>

datatype directory_error =
    DIo
  | DJson
  | DBadSignature
  | DStaleSeq nat nat
  | DWireVersionMismatch byte
  | DHex
  | DInsufficientQuorum nat nat
  | DIdentityMismatch
  | DAdmissionExpired
  | DOther string

definition lower :: "string \<Rightarrow> string" where
  "lower s = map to_ascii_lower s"

text \<open>\<open>u64::to_string\<close>.\<close>

fun dec_string :: "nat \<Rightarrow> string" where
  "dec_string n = (if n < 10 then [char_of (48 + n)] else dec_string (n div 10) @ [char_of (48 + n mod 10)])"

declare dec_string.simps [simp del]

definition ADMISSION_DOMAIN :: bytes where "ADMISSION_DOMAIN = ascii ''gotham-admission-v1|''"
definition MAX_ADMISSION_AGE_SECS :: nat where "MAX_ADMISSION_AGE_SECS = 30 * 24 * 3600"
definition ADMISSION_CLOCK_SKEW_SECS :: nat where "ADMISSION_CLOCK_SKEW_SECS = 3600"

record authority_set =
  authorities_hex :: "string list"
  threshold :: nat

definition authority_set_new :: "prims \<Rightarrow> bytes list \<Rightarrow> nat \<Rightarrow> directory_error + authority_set" where
  "authority_set_new P authorities th =
     (if authorities = [] then Inl (DOther ''authority set is empty'')
      else if th = 0 \<or> length authorities < th then Inl (DOther ''threshold out of range'')
      else let hexes = map (hex_encode P) authorities
           in if length (remdups hexes) \<noteq> length hexes then Inl (DOther ''duplicate authority key'')
              else Inr \<lparr>authorities_hex = hexes, threshold = th\<rparr>)"

definition authority_contains :: "authority_set \<Rightarrow> string \<Rightarrow> bool" where
  "authority_contains S pk_hex = list_ex (\<lambda>a. eq_ignore_ascii_case a pk_hex) (authorities_hex S)"

record attestation =
  authority_pk_hex :: string
  att_signature_hex :: string

record admission_cert =
  cert_identity_hex :: string
  cert_epoch :: nat
  cert_operator :: "string option"
  attestations :: "attestation list"

definition admission_bytes :: "string \<Rightarrow> nat \<Rightarrow> string option \<Rightarrow> bytes" where
  "admission_bytes identity_hex ep op =
     (let o' = (case op of None \<Rightarrow> '''' | Some s \<Rightarrow> s)
      in ADMISSION_DOMAIN @ ascii identity_hex @ ascii ''|'' @ ascii (dec_string ep) @ ascii ''|'' @ ascii o')"

definition attest :: "prims \<Rightarrow> bytes \<Rightarrow> string \<Rightarrow> nat \<Rightarrow> string option \<Rightarrow> attestation" where
  "attest P sk identity_hex ep op =
     \<lparr>authority_pk_hex = hex_encode P (arr 32 (ed_public P sk)),
      att_signature_hex = hex_encode P (arr 64 (ed_sign P sk (admission_bytes identity_hex ep op)))\<rparr>"

definition assemble :: "string \<Rightarrow> nat \<Rightarrow> string option \<Rightarrow> attestation list \<Rightarrow> admission_cert" where
  "assemble identity_hex ep op atts =
     \<lparr>cert_identity_hex = identity_hex, cert_epoch = ep, cert_operator = op, attestations = atts\<rparr>"

definition is_fresh :: "admission_cert \<Rightarrow> nat \<Rightarrow> bool" where
  "is_fresh c now \<longleftrightarrow> cert_epoch c \<le> sat_add now ADMISSION_CLOCK_SKEW_SECS
     \<and> sat_sub now (cert_epoch c) \<le> MAX_ADMISSION_AGE_SECS"

definition verify_att :: "prims \<Rightarrow> string \<Rightarrow> string \<Rightarrow> bytes \<Rightarrow> directory_error + unit" where
  "verify_att P pk_hex sig_hex msg =
     (case hex_decode P pk_hex of
        None \<Rightarrow> Inl DHex
      | Some pk \<Rightarrow>
          if length pk \<noteq> 32 then Inl (DOther ''authority pk wrong length'')
          else if \<not> ed_key_ok P pk then Inl DBadSignature
          else case hex_decode P sig_hex of
            None \<Rightarrow> Inl DHex
          | Some sig \<Rightarrow>
              if length sig \<noteq> 64 then Inl (DOther ''signature wrong length'')
              else if ed_verify P pk msg sig then Inr () else Inl DBadSignature)"

text \<open>The loop of \<open>verify\<close>: \<open>attempted\<close> and \<open>counted\<close>.\<close>

fun count_attestations :: "prims \<Rightarrow> authority_set \<Rightarrow> bytes \<Rightarrow> string list \<Rightarrow> string list \<Rightarrow> attestation list \<Rightarrow> string list" where
  "count_attestations P S msg attempted counted [] = counted"
| "count_attestations P S msg attempted counted (att # atts) =
     (let pk_hex = lower (authority_pk_hex att)
      in if \<not> authority_contains S pk_hex \<or> pk_hex \<in> set attempted
         then count_attestations P S msg attempted counted atts
         else count_attestations P S msg (List.insert pk_hex attempted)
                (case verify_att P pk_hex (att_signature_hex att) msg of
                   Inr _ \<Rightarrow> List.insert pk_hex counted
                 | Inl _ \<Rightarrow> counted) atts)"

definition cert_verify :: "prims \<Rightarrow> admission_cert \<Rightarrow> authority_set \<Rightarrow> directory_error + nat" where
  "cert_verify P c S =
     (let msg = admission_bytes (cert_identity_hex c) (cert_epoch c) (cert_operator c);
          counted = count_attestations P S msg [] [] (attestations c)
      in if threshold S \<le> length counted then Inr (length counted)
         else Inl (DInsufficientQuorum (length counted) (threshold S)))"

section \<open>Exactly the authorities that vouch are counted\<close>

text \<open>The first attestation in the name of a key decides whether that key vouches.\<close>

definition vouches :: "prims \<Rightarrow> authority_set \<Rightarrow> bytes \<Rightarrow> attestation list \<Rightarrow> string \<Rightarrow> bool" where
  "vouches P S msg atts k \<longleftrightarrow> authority_contains S k
     \<and> (case find (\<lambda>a. lower (authority_pk_hex a) = k) atts of
          None \<Rightarrow> False
        | Some a \<Rightarrow> verify_att P k (att_signature_hex a) msg = Inr ())"

lemma vouches_Cons:
  "vouches P S msg (a # atts) k \<longleftrightarrow>
     (if lower (authority_pk_hex a) = k
      then authority_contains S k \<and> verify_att P k (att_signature_hex a) msg = Inr ()
      else vouches P S msg atts k)"
  by (simp add: vouches_def)

lemma count_attestations_spec:
  assumes "distinct counted" "set counted \<subseteq> set attempted"
  shows "distinct (count_attestations P S msg attempted counted atts)
    \<and> set (count_attestations P S msg attempted counted atts)
      = set counted \<union> {k. k \<notin> set attempted \<and> vouches P S msg atts k}"
  using assms
proof (induction atts arbitrary: attempted counted)
  case Nil
  then show ?case by (simp add: vouches_def)
next
  case (Cons a atts)
  let ?k = "lower (authority_pk_hex a)"
  show ?case
  proof (cases "\<not> authority_contains S ?k \<or> ?k \<in> set attempted")
    case True
    then have "vouches P S msg (a # atts) k \<longleftrightarrow> vouches P S msg atts k" if "k \<notin> set attempted" for k
      using that by (auto simp: vouches_Cons vouches_def)
    with True Cons.IH [OF Cons.prems] show ?thesis by (auto simp: Let_def)
  next
    case False
    then have new: "authority_contains S ?k" "?k \<notin> set attempted" by simp_all
    define counted' where "counted' = (case verify_att P ?k (att_signature_hex a) msg of
        Inr _ \<Rightarrow> List.insert ?k counted | Inl _ \<Rightarrow> counted)"
    have c': "distinct counted'" "set counted' \<subseteq> set (List.insert ?k attempted)"
      "set counted' = set counted \<union> {k. k = ?k \<and> verify_att P k (att_signature_hex a) msg = Inr ()}"
      using Cons.prems by (auto simp: counted'_def split: sum.splits)
    have "count_attestations P S msg attempted counted (a # atts)
        = count_attestations P S msg (List.insert ?k attempted) counted' atts"
      using new by (simp add: Let_def counted'_def)
    with Cons.IH [OF c'(1,2)] c'(3) new show ?thesis by (auto simp: vouches_Cons)
  qed
qed

lemma finite_vouches: "finite {k. vouches P S msg atts k}"
  by (rule finite_subset [of _ "(\<lambda>a. lower (authority_pk_hex a)) ` set atts"])
    (auto simp: vouches_def find_Some_iff split: option.splits)

lemma count_card: "length (count_attestations P S msg [] [] atts) = card {k. vouches P S msg atts k}"
  using count_attestations_spec [of "[]" "[]" P S msg atts] distinct_card by fastforce

text \<open>A signing key in the set whose attestation comes first in its own name vouches.\<close>

definition hex_lower :: "prims \<Rightarrow> bool" where
  "hex_lower P \<longleftrightarrow> (\<forall>b. lower (hex_encode P b) = hex_encode P b)"

lemma hex_encode_inj: "hex_ok P \<Longrightarrow> hex_encode P a = hex_encode P b \<longleftrightarrow> a = b"
  by (metis hex_ok_def option.inject)

lemma verify_attested:
  assumes "hex_ok P" "ed_ok P"
  shows "verify_att P (hex_encode P (arr 32 (ed_public P sk))) (att_signature_hex (attest P sk i e op)) (admission_bytes i e op) = Inr ()"
  using assms by (simp add: verify_att_def attest_def hex_ok_def ed_ok_def)

lemma vouches_attested:
  assumes "hex_ok P" "ed_ok P" "hex_lower P" "distinct (map (\<lambda>sk. arr 32 (ed_public P sk)) sks)"
    "\<forall>sk \<in> set sks. authority_contains S (hex_encode P (arr 32 (ed_public P sk)))"
  shows "{k. vouches P S (admission_bytes i e op) (map (\<lambda>sk. attest P sk i e op) sks) k}
    = (\<lambda>sk. hex_encode P (arr 32 (ed_public P sk))) ` set sks"
  using assms(4,5)
proof (induction sks)
  case Nil
  then show ?case by (simp add: vouches_def)
next
  case (Cons sk sks)
  let ?h = "\<lambda>sk. hex_encode P (arr 32 (ed_public P sk))"
  have "lower (authority_pk_hex (attest P sk i e op)) = ?h sk" using assms(3) by (simp add: attest_def hex_lower_def)
  then have "vouches P S (admission_bytes i e op) (map (\<lambda>sk. attest P sk i e op) (sk # sks)) k
      \<longleftrightarrow> k = ?h sk \<or> vouches P S (admission_bytes i e op) (map (\<lambda>sk. attest P sk i e op) sks) k" for k
    using Cons.prems(2) verify_attested [OF assms(1,2), of sk i e op] by (auto simp: vouches_Cons)
  with Cons show ?case by auto
qed

lemma quorum_attested:
  assumes "hex_ok P" and "ed_ok P" and "hex_lower P" and "distinct (map (\<lambda>sk. arr 32 (ed_public P sk)) sks)"
    and "\<forall>sk \<in> set sks. authority_contains S (hex_encode P (arr 32 (ed_public P sk)))" and "threshold S \<le> length sks"
  shows "cert_verify P (assemble i e op (map (\<lambda>sk. attest P sk i e op) sks)) S = Inr (length sks)"
proof -
  have "inj_on (\<lambda>sk. hex_encode P (arr 32 (ed_public P sk))) (set sks)"
    using assms(4) by (auto simp: hex_encode_inj [OF assms(1)] distinct_map inj_on_def)
  moreover have "distinct sks" using assms(4) by (simp add: distinct_map)
  ultimately have "card {k. vouches P S (admission_bytes i e op) (map (\<lambda>sk. attest P sk i e op) sks) k} = length sks"
    unfolding vouches_attested [OF assms(1-5)] by (simp add: card_image distinct_card)
  with assms(6) show ?thesis by (simp add: cert_verify_def Let_def count_card assemble_def)
qed

text \<open>
  C27: admission is by quorum. A certificate is accepted exactly when the number of distinct
  authorities of the set whose first attestation in it verifies over the certificate's
  identity, epoch and operator reaches the threshold, and that number is the result: repeated
  or foreign attestations, in whatever capitalisation, never count. Attestations made by at
  least a threshold of the authorities assemble to a certificate that is accepted.
\<close>

theorem quorum_exact:
  "(\<forall>n. cert_verify P c S = Inr n \<longleftrightarrow> threshold S \<le> n
       \<and> n = card {k. vouches P S (admission_bytes (cert_identity_hex c) (cert_epoch c) (cert_operator c)) (attestations c) k})
   \<and> (hex_ok P \<longrightarrow> ed_ok P \<longrightarrow> hex_lower P \<longrightarrow>
      (\<forall>sks i e op. distinct (map (\<lambda>sk. arr 32 (ed_public P sk)) sks)
         \<longrightarrow> (\<forall>sk \<in> set sks. authority_contains S (hex_encode P (arr 32 (ed_public P sk))))
         \<longrightarrow> threshold S \<le> length sks
         \<longrightarrow> cert_verify P (assemble i e op (map (\<lambda>sk. attest P sk i e op) sks)) S = Inr (length sks)))"
proof (intro conjI allI impI)
  show ex: "cert_verify P c S = Inr n \<longleftrightarrow> threshold S \<le> n
       \<and> n = card {k. vouches P S (admission_bytes (cert_identity_hex c) (cert_epoch c) (cert_operator c)) (attestations c) k}" for n
    by (auto simp: cert_verify_def Let_def count_card)
qed (rule quorum_attested)

subsection \<open>A concrete quorum\<close>

text \<open>The primitives of the witnesses with hexadecimal digits as in the \<open>hex\<close> crate.\<close>

definition nib :: "nat \<Rightarrow> char" where
  "nib n = (if n < 10 then char_of (48 + n) else char_of (87 + n))"

definition unnib :: "char \<Rightarrow> nat option" where
  "unnib c = (let n = of_char c in if 48 \<le> n \<and> n \<le> 57 then Some (n - 48) else if 97 \<le> n \<and> n \<le> 102 then Some (n - 87)
     else if 65 \<le> n \<and> n \<le> 70 then Some (n - 55) else None)"

fun to_hex :: "bytes \<Rightarrow> string" where
  "to_hex [] = []"
| "to_hex (x # xs) = nib (unat x div 16) # nib (unat x mod 16) # to_hex xs"

fun of_hex :: "string \<Rightarrow> bytes option" where
  "of_hex [] = Some []"
| "of_hex [c] = None"
| "of_hex (c # d # s) =
     (case unnib c of None \<Rightarrow> None
      | Some h \<Rightarrow> (case unnib d of None \<Rightarrow> None
          | Some l \<Rightarrow> (case of_hex s of None \<Rightarrow> None | Some r \<Rightarrow> Some (word_of_nat (16 * h + l) # r))))"

definition hex_prims :: prims where
  "hex_prims = demo_prims\<lparr>hex_encode := to_hex, hex_decode := of_hex\<rparr>"

lemma unnib_nib: "n < 16 \<Longrightarrow> unnib (nib n) = Some n"
  by (simp add: unnib_def nib_def Let_def)

lemma lower_nib: "n < 16 \<Longrightarrow> to_ascii_lower (nib n) = nib n"
  by (simp add: to_ascii_lower_def nib_def Let_def)

lemma nibs_bound: "unat (x :: byte) div 16 < 16" "unat x mod 16 < 16"
  using unsigned_less [of x, where 'a = nat] by simp_all

lemma of_hex_to_hex: "of_hex (to_hex b) = Some b"
proof (induction b)
  case (Cons x b)
  have "word_of_nat (16 * (unat x div 16) + unat x mod 16) = x" by simp
  with Cons show ?case by (simp add: unnib_nib nibs_bound)
qed simp

lemma hex_prims_laws: "hex_ok hex_prims" "ed_ok hex_prims" "hex_lower hex_prims"
proof -
  show "hex_ok hex_prims" by (simp add: hex_ok_def hex_prims_def of_hex_to_hex)
  show "ed_ok hex_prims" using demo_ed_ok by (simp add: ed_ok_def hex_prims_def)
  have "map to_ascii_lower (to_hex b) = to_hex b" for b
    by (induction b) (simp_all add: lower_nib nibs_bound)
  then show "hex_lower hex_prims" by (simp add: hex_lower_def lower_def hex_prims_def)
qed

definition demo_authorities :: authority_set where
  "demo_authorities = \<lparr>authorities_hex = map (\<lambda>sk. hex_encode hex_prims (arr 32 (ed_public hex_prims sk))) [[1], [2], [3]], threshold = 2\<rparr>"

lemma demo_authority: "sk \<in> {[1], [2], [3]} \<Longrightarrow>
    authority_contains demo_authorities (hex_encode hex_prims (arr 32 (ed_public hex_prims sk)))"
  by (auto simp: authority_contains_def demo_authorities_def eq_ignore_ascii_case_def)

lemma demo_keys_distinct: "distinct (map (\<lambda>sk. arr 32 (ed_public hex_prims sk)) [[1], [2], [3]])"
proof -
  have "arr 32 (ed_public hex_prims [x]) ! 0 = x" for x by (simp add: arr_def hex_prims_def demo_prims_def)
  then have "arr 32 (ed_public hex_prims [x]) = arr 32 (ed_public hex_prims [y]) \<longleftrightarrow> x = y" for x y by metis
  then show ?thesis by simp
qed

theorem quorum_exact_witness:
  "cert_verify hex_prims (assemble ''ab'' 1000 None (map (\<lambda>sk. attest hex_prims sk ''ab'' 1000 None) [[1], [3]])) demo_authorities = Inr 2"
proof -
  have "threshold demo_authorities \<le> length [[1 :: byte], [3]]" by (simp add: demo_authorities_def)
  moreover have "distinct (map (\<lambda>sk. arr 32 (ed_public hex_prims sk)) [[1], [3]])" using demo_keys_distinct by simp
  moreover have "\<forall>sk \<in> set [[1], [3]]. authority_contains demo_authorities (hex_encode hex_prims (arr 32 (ed_public hex_prims sk)))"
    using demo_authority by simp
  ultimately show ?thesis
    using quorum_exact [of hex_prims _ demo_authorities, THEN conjunct2, rule_format, OF hex_prims_laws, of "[[1], [3]]" "''ab''" 1000 None]
    by (auto simp: numeral_2_eq_2)
qed

section \<open>What an authority signs\<close>

lemma of_char_digit: "n < 10 \<Longrightarrow> (of_char (char_of (48 + n) :: char) :: nat) = 48 + n"
  by simp

lemma dec_string_digits: "c \<in> set (dec_string n) \<Longrightarrow> 48 \<le> (of_char c :: nat) \<and> (of_char c :: nat) \<le> 57"
proof (induction n rule: dec_string.induct)
  case (1 n)
  show ?case
  proof (cases "n < 10")
    case True
    with "1.prems" show ?thesis by (simp add: dec_string.simps [of n])
  next
    case False
    with "1.prems" have "c \<in> set (dec_string (n div 10)) \<or> c = char_of (48 + n mod 10)"
      by (auto simp: dec_string.simps [of n])
    then show ?thesis
    proof
      assume "c \<in> set (dec_string (n div 10))"
      with "1.IH" False show ?thesis by simp
    qed simp
  qed
qed

text \<open>Reading the digits back.\<close>

definition dec_value :: "string \<Rightarrow> nat" where
  "dec_value s = foldl (\<lambda>a c. 10 * a + (of_char c - 48)) 0 s"

lemma dec_value_dec_string: "dec_value (dec_string n) = n"
proof (induction n rule: dec_string.induct)
  case (1 n)
  show ?case
  proof (cases "n < 10")
    case True
    then show ?thesis by (simp add: dec_string.simps [of n] dec_value_def)
  next
    case False
    have "dec_value (xs @ [c]) = 10 * dec_value xs + (of_char c - 48)" for xs c by (simp add: dec_value_def)
    then have "dec_value (dec_string n) = 10 * (n div 10) + n mod 10"
      using False "1.IH" by (simp add: dec_string.simps [of n])
    then show ?thesis by simp
  qed
qed

lemma inj_dec_string: "inj dec_string"
  by (rule inj_on_inverseI [where g = dec_value]) (rule dec_value_dec_string)

lemma split_at_bar:
  assumes "CHR ''|'' \<notin> set a" "CHR ''|'' \<notin> set b"
  shows "a @ CHR ''|'' # r = b @ CHR ''|'' # s \<longleftrightarrow> a = b \<and> r = s"
  using assms
proof (induction a arbitrary: b)
  case Nil
  then show ?case by (cases b) auto
next
  case (Cons x a)
  then show ?case by (cases b) auto
qed

text \<open>
  What an authority signs determines what it admits. The messages of two admissions are
  equal only when identity (with no bar in it, as in every hexadecimal key), epoch and operator
  are equal, an absent operator counting as the empty one: a signature for one relay, epoch or
  operator is not a signature for another.
\<close>

theorem admission_message_binds:
  assumes "CHR ''|'' \<notin> set i" and "CHR ''|'' \<notin> set i'"
  shows "admission_bytes i e op = admission_bytes i' e' op' \<longleftrightarrow>
    i = i' \<and> e = e' \<and> (case op of None \<Rightarrow> '''' | Some s \<Rightarrow> s) = (case op' of None \<Rightarrow> '''' | Some s \<Rightarrow> s)"
proof -
  have bar: "CHR ''|'' \<notin> set (dec_string n)" for n using dec_string_digits [of "CHR ''|''" n] by auto
  have msg: "admission_bytes j n p = ADMISSION_DOMAIN @ ascii (j @ CHR ''|'' # dec_string n @ CHR ''|'' # (case p of None \<Rightarrow> '''' | Some s \<Rightarrow> s))"
    for j n p by (simp add: admission_bytes_def Let_def ascii_def)
  have "admission_bytes i e op = admission_bytes i' e' op' \<longleftrightarrow>
      i @ CHR ''|'' # dec_string e @ CHR ''|'' # (case op of None \<Rightarrow> '''' | Some s \<Rightarrow> s)
      = i' @ CHR ''|'' # dec_string e' @ CHR ''|'' # (case op' of None \<Rightarrow> '''' | Some s \<Rightarrow> s)"
    unfolding msg by (simp only: same_append_eq ascii_inj)
  also have "\<dots> \<longleftrightarrow> i = i' \<and> dec_string e = dec_string e'
      \<and> (case op of None \<Rightarrow> '''' | Some s \<Rightarrow> s) = (case op' of None \<Rightarrow> '''' | Some s \<Rightarrow> s)"
    unfolding split_at_bar [OF assms] split_at_bar [OF bar bar] by (rule refl)
  also have "dec_string e = dec_string e' \<longleftrightarrow> e = e'" by (rule inj_eq [OF inj_dec_string])
  finally show ?thesis .
qed

theorem admission_message_binds_witness:
  "admission_bytes ''ab'' 12 None \<noteq> admission_bytes ''ab'' 1 (Some ''2|'')"
  using admission_message_binds [of "''ab''" "''ab''" 12 None 1 "Some ''2|''"] by simp

end
