(* ===== verification/Roster.thy ===== *)
theory Roster
  imports Admission
begin

text \<open>
  Gossiped advertisements and the roster, crypto-gotham-directory/src/advertisement.rs and
  roster.rs, with the exchange of rosters of crypto-gotham-relay/src/gossip.rs and
  \<open>serve_gossip_connection\<close>. The JSON form of an advertisement is a parameter, clock readings
  are arguments. Saving and loading the roster file is I/O.
\<close>

section \<open>Advertisements\<close>

definition WIRE_VERSION :: byte where "WIRE_VERSION = 3"

datatype capabilities = CapAll | CapEntry | CapMix | CapExit | CapNone

definition can_entry :: "capabilities \<Rightarrow> bool" where "can_entry c = (c = CapAll \<or> c = CapEntry)"
definition can_mix :: "capabilities \<Rightarrow> bool" where "can_mix c = (c = CapAll \<or> c = CapMix)"
definition can_exit :: "capabilities \<Rightarrow> bool" where "can_exit c = (c = CapAll \<or> c = CapExit)"

text \<open>The fields that are signed, and the advertisement with its signature.\<close>

record ad_canonical =
  ad_wire_version :: byte
  ad_identity_hex :: string
  ad_kem_hex :: string
  ad_address :: string
  ad_capabilities :: capabilities
  ad_seq :: nat
  ad_signed_at :: nat
  ad_rendezvous :: "string option"
  ad_rendezvous_capable :: bool

record advertisement = ad_canonical +
  ad_signature_hex :: string

type_synonym ad_json = "ad_canonical \<Rightarrow> bytes option"

definition ad_canonical_bytes :: "ad_json \<Rightarrow> advertisement \<Rightarrow> directory_error + bytes" where
  "ad_canonical_bytes J ad = (case J (ad_canonical.truncate ad) of None \<Rightarrow> Inl DJson | Some b \<Rightarrow> Inr b)"

definition sign_full :: "prims \<Rightarrow> ad_json \<Rightarrow> nat option \<Rightarrow> bytes \<Rightarrow> string \<Rightarrow> string \<Rightarrow> capabilities \<Rightarrow> nat
    \<Rightarrow> string option \<Rightarrow> bool \<Rightarrow> directory_error + advertisement" where
  "sign_full P J clock sk kem_hex address caps sq rdv capable =
     (case clock of
        None \<Rightarrow> Inl (DOther ''system clock before epoch'')
      | Some now \<Rightarrow>
          let ad = \<lparr>ad_wire_version = WIRE_VERSION, ad_identity_hex = hex_encode P (arr 32 (ed_public P sk)),
                    ad_kem_hex = kem_hex, ad_address = address, ad_capabilities = caps, ad_seq = sq,
                    ad_signed_at = now, ad_rendezvous = rdv, ad_rendezvous_capable = capable,
                    ad_signature_hex = []\<rparr>
          in case ad_canonical_bytes J ad of
               Inl e \<Rightarrow> Inl e
             | Inr canonical \<Rightarrow> Inr (ad\<lparr>ad_signature_hex := hex_encode P (arr 64 (ed_sign P sk canonical))\<rparr>))"

definition ad_sign :: "prims \<Rightarrow> ad_json \<Rightarrow> nat option \<Rightarrow> bytes \<Rightarrow> string \<Rightarrow> string \<Rightarrow> capabilities \<Rightarrow> nat
    \<Rightarrow> directory_error + advertisement" where
  "ad_sign P J clock sk kem_hex address caps sq = sign_full P J clock sk kem_hex address caps sq None False"

definition ad_kem_pubkey_bytes :: "prims \<Rightarrow> advertisement \<Rightarrow> directory_error + bytes" where
  "ad_kem_pubkey_bytes P ad =
     (case hex_decode P (ad_kem_hex ad) of
        None \<Rightarrow> Inl DHex
      | Some v \<Rightarrow> if length v \<noteq> 32 then Inl (DOther ''kem_pubkey_hex wrong length'') else Inr v)"

definition is_unspecified :: "ipaddr \<Rightarrow> bool" where
  "is_unspecified ip = (case ip of V4 b \<Rightarrow> list_all (\<lambda>x. x = 0) b | V6 b \<Rightarrow> list_all (\<lambda>x. x = 0) b)"

definition ad_verify :: "prims \<Rightarrow> ad_json \<Rightarrow> advertisement \<Rightarrow> directory_error + unit" where
  "ad_verify P J ad =
     (if ad_wire_version ad \<noteq> WIRE_VERSION then Inl (DWireVersionMismatch (ad_wire_version ad))
      else case hex_decode P (ad_identity_hex ad) of
        None \<Rightarrow> Inl DHex
      | Some pk \<Rightarrow>
          if length pk \<noteq> 32 then Inl (DOther ''identity_pk_hex wrong length'')
          else if \<not> ed_key_ok P pk then Inl DBadSignature
          else case hex_decode P (ad_signature_hex ad) of
            None \<Rightarrow> Inl DHex
          | Some sig \<Rightarrow>
              if length sig \<noteq> 64 then Inl (DOther ''signature_hex wrong length'')
              else case ad_canonical_bytes J ad of
                Inl e \<Rightarrow> Inl e
              | Inr canonical \<Rightarrow>
                  if \<not> ed_verify P pk canonical sig then Inl DBadSignature
                  else let kem = (case ad_kem_pubkey_bytes P ad of Inl e \<Rightarrow> Inl e | Inr _ \<Rightarrow> Inr ())
                       in case ad_rendezvous ad of
                         Some r \<Rightarrow>
                           if ad_rendezvous_capable ad
                           then Inl (DOther ''a rendezvous-hosted relay cannot also be rendezvous_capable'')
                           else (case hex_decode P r of
                                   None \<Rightarrow> Inl (DOther ''rendezvous id not hex'')
                                 | Some rb \<Rightarrow> if length rb \<noteq> 32 then Inl (DOther ''rendezvous id wrong length'') else kem)
                       | None \<Rightarrow>
                           (case parse_sockaddr P (ad_address ad) of
                              None \<Rightarrow> Inl (DOther ''advertisement addr not a socket address'')
                            | Some sa \<Rightarrow>
                                if is_unspecified (sa_ip sa) \<or> sa_port sa = 0
                                then Inl (DOther ''advertisement addr must not be unspecified / port 0'')
                                else kem))"

definition beacon_tier_byte :: "prims \<Rightarrow> bytes \<Rightarrow> nat \<Rightarrow> byte" where
  "beacon_tier_byte P ident now =
     blake3_hash P (ascii ''gotham-gossip-tier-v1'' @ ident @ le_bytes 8 (now div 86400)) 0"

definition to_relay_descriptor :: "prims \<Rightarrow> advertisement \<Rightarrow> nat \<Rightarrow> descriptor option" where
  "to_relay_descriptor P ad now =
     (case hex_decode P (ad_identity_hex ad) of
        None \<Rightarrow> None
      | Some ident \<Rightarrow>
          if ident = [] then None
          else case ad_kem_pubkey_bytes P ad of
            Inl _ \<Rightarrow> None
          | Inr _ \<Rightarrow>
              let mk = (\<lambda>t. Some \<lparr>id_pubkey_hex = ad_identity_hex ad, kem_pubkey_hex = ad_kem_hex ad, addr = ad_address ad,
                     tier = t, country = None, asn = None, operator = None, uptime_pct = None, has_mailbox = False,
                     rendezvous = ad_rendezvous ad, rendezvous_capable = ad_rendezvous_capable ad\<rparr>)
              in case ad_capabilities ad of
                   CapEntry \<Rightarrow> mk Entry
                 | CapMix \<Rightarrow> mk Mix
                 | CapExit \<Rightarrow> mk Exit
                 | CapAll \<Rightarrow> (let b = unat (beacon_tier_byte P ident now) mod 3
                              in mk (if b = 0 then Entry else if b = 1 then Mix else Exit))
                 | CapNone \<Rightarrow> None)"

section \<open>The roster\<close>

definition STALE_AFTER_SECS :: nat where "STALE_AFTER_SECS = 3600"
definition MAX_GOSSIP_ENTRIES :: nat where "MAX_GOSSIP_ENTRIES = 4096"

record roster =
  entries :: "(string, advertisement) hashmap"
  admissions :: "(string, admission_cert) hashmap"

definition roster_new :: roster where "roster_new = \<lparr>entries = [], admissions = []\<rparr>"

definition roster_insert :: "prims \<Rightarrow> ad_json \<Rightarrow> roster \<Rightarrow> advertisement \<Rightarrow> directory_error + roster" where
  "roster_insert P J r ad =
     (case ad_verify P J ad of
        Inl e \<Rightarrow> Inl e
      | Inr _ \<Rightarrow>
          let key = lower (ad_identity_hex ad)
          in case hm_get (entries r) key of
               Some existing \<Rightarrow>
                 if ad_seq ad \<le> ad_seq existing then Inl (DStaleSeq (ad_seq ad) (ad_seq existing))
                 else Inr (r\<lparr>entries := hm_insert key ad (entries r)\<rparr>)
             | None \<Rightarrow> Inr (r\<lparr>entries := hm_insert key ad (entries r)\<rparr>))"

definition insert_admitted :: "prims \<Rightarrow> ad_json \<Rightarrow> authority_set \<Rightarrow> roster \<Rightarrow> advertisement \<Rightarrow> admission_cert \<Rightarrow> nat
    \<Rightarrow> directory_error + roster" where
  "insert_admitted P J S r ad cert now =
     (case ad_verify P J ad of
        Inl e \<Rightarrow> Inl e
      | Inr _ \<Rightarrow>
          if \<not> eq_ignore_ascii_case (cert_identity_hex cert) (ad_identity_hex ad) then Inl DIdentityMismatch
          else case cert_verify P cert S of
            Inl e \<Rightarrow> Inl e
          | Inr _ \<Rightarrow>
              if \<not> is_fresh cert now then Inl DAdmissionExpired
              else let key = lower (ad_identity_hex ad);
                       r' = r\<lparr>admissions := hm_insert key cert (admissions r), entries := hm_insert key ad (entries r)\<rparr>;
                       admit = (case hm_get (admissions r) key of
                                  Some prev \<Rightarrow> if cert_epoch cert < cert_epoch prev then Inl DAdmissionExpired else Inr r'
                                | None \<Rightarrow> Inr r')
                   in case hm_get (entries r) key of
                        Some existing \<Rightarrow>
                          if ad_seq ad \<le> ad_seq existing then Inl (DStaleSeq (ad_seq ad) (ad_seq existing)) else admit
                      | None \<Rightarrow> admit)"

text \<open>
  The checks \<open>merge_admitted\<close> and \<open>verify_incoming\<close> make of an entry a peer sent under
  \<open>peer_key\<close>: the key to file it under and its certificate.
\<close>

definition vet_entry :: "prims \<Rightarrow> ad_json \<Rightarrow> authority_set \<Rightarrow> nat \<Rightarrow> roster \<Rightarrow> string \<Rightarrow> advertisement
    \<Rightarrow> (string \<times> admission_cert) option" where
  "vet_entry P J S now other peer_key ad =
     (if STALE_AFTER_SECS < sat_sub now (ad_signed_at ad) then None
      else case ad_verify P J ad of
        Inl _ \<Rightarrow> None
      | Inr _ \<Rightarrow>
          let key = lower (ad_identity_hex ad)
          in case (case hm_get (admissions other) peer_key of Some c \<Rightarrow> Some c | None \<Rightarrow> hm_get (admissions other) key) of
               None \<Rightarrow> None
             | Some cert \<Rightarrow>
                 if \<not> eq_ignore_ascii_case (cert_identity_hex cert) key
                    \<or> (case cert_verify P cert S of Inl _ \<Rightarrow> True | Inr _ \<Rightarrow> False)
                    \<or> \<not> is_fresh cert now
                 then None else Some (key, cert))"

text \<open>The step both merges end with: take the entry when it is newer.\<close>

definition take_newer :: "string \<Rightarrow> advertisement \<Rightarrow> admission_cert \<Rightarrow> roster \<times> nat \<Rightarrow> roster \<times> nat" where
  "take_newer key ad cert rd =
     (let (r, delta) = rd;
          r' = r\<lparr>admissions := hm_insert key cert (admissions r), entries := hm_insert key ad (entries r)\<rparr>;
          admit = (case hm_get (admissions r) key of
                     Some prev \<Rightarrow> if cert_epoch cert < cert_epoch prev then (r, delta) else (r', delta + 1)
                   | None \<Rightarrow> (r', delta + 1))
      in case hm_get (entries r) key of
           Some existing \<Rightarrow> if ad_seq ad \<le> ad_seq existing then (r, delta) else admit
         | None \<Rightarrow> admit)"

definition merge_admitted :: "prims \<Rightarrow> ad_json \<Rightarrow> authority_set \<Rightarrow> roster \<Rightarrow> roster \<Rightarrow> nat \<Rightarrow> roster \<times> nat" where
  "merge_admitted P J S r other now =
     fold (\<lambda>(peer_key, ad) rd. case vet_entry P J S now other peer_key ad of
             None \<Rightarrow> rd | Some (key, cert) \<Rightarrow> take_newer key ad cert rd) (entries other) (r, 0)"

definition roster_merge :: "prims \<Rightarrow> ad_json \<Rightarrow> roster \<Rightarrow> roster \<Rightarrow> nat \<Rightarrow> roster \<times> nat" where
  "roster_merge P J r other now =
     fold (\<lambda>(_, ad) (r, delta).
             if STALE_AFTER_SECS < sat_sub now (ad_signed_at ad) then (r, delta)
             else case ad_verify P J ad of
               Inl _ \<Rightarrow> (r, delta)
             | Inr _ \<Rightarrow>
                 let key = lower (ad_identity_hex ad); r' = (r\<lparr>entries := hm_insert key ad (entries r)\<rparr>, delta + 1)
                 in case hm_get (entries r) key of
                      Some existing \<Rightarrow> if ad_seq ad \<le> ad_seq existing then (r, delta) else r'
                    | None \<Rightarrow> r') (entries other) (r, 0)"

definition prune_stale :: "roster \<Rightarrow> nat \<Rightarrow> roster \<times> nat" where
  "prune_stale r now =
     (let cutoff = sat_sub now STALE_AFTER_SECS;
          es = hm_retain (\<lambda>_ ad. cutoff \<le> ad_signed_at ad) (entries r);
          adm = hm_retain (\<lambda>ident _. hm_contains es ident) (admissions r)
      in (\<lparr>entries = es, admissions = adm\<rparr>, length (entries r) - length es))"

definition verify_incoming :: "prims \<Rightarrow> ad_json \<Rightarrow> authority_set \<Rightarrow> roster \<Rightarrow> nat \<Rightarrow> roster" where
  "verify_incoming P J S other now =
     fold (\<lambda>(peer_key, ad) out. case vet_entry P J S now other peer_key ad of
             None \<Rightarrow> out
           | Some (key, cert) \<Rightarrow> out\<lparr>entries := hm_insert key ad (entries out), admissions := hm_insert key cert (admissions out)\<rparr>)
       (take MAX_GOSSIP_ENTRIES (entries other)) roster_new"

definition splice_verified :: "roster \<Rightarrow> roster \<Rightarrow> roster \<times> nat" where
  "splice_verified r verified =
     fold (\<lambda>(key, ad) rd. case hm_get (admissions verified) key of
             None \<Rightarrow> rd | Some cert \<Rightarrow> take_newer key ad cert rd) (entries verified) (r, 0)"

definition to_relay_descriptors :: "prims \<Rightarrow> ad_json \<Rightarrow> authority_set \<Rightarrow> roster \<Rightarrow> nat \<Rightarrow> descriptor list" where
  "to_relay_descriptors P J S r now =
     List.map_filter (\<lambda>(key, ad).
       if STALE_AFTER_SECS < sat_sub now (ad_signed_at ad) then None
       else case ad_verify P J ad of
         Inl _ \<Rightarrow> None
       | Inr _ \<Rightarrow>
           (case hm_get (admissions r) key of
              None \<Rightarrow> None
            | Some cert \<Rightarrow>
                if \<not> eq_ignore_ascii_case (cert_identity_hex cert) key
                   \<or> (case cert_verify P cert S of Inl _ \<Rightarrow> True | Inr _ \<Rightarrow> False)
                   \<or> \<not> is_fresh cert now
                then None
                else map_option (\<lambda>rd. if cert_operator cert \<noteq> None then rd\<lparr>operator := cert_operator cert\<rparr> else rd)
                       (to_relay_descriptor P ad now))) (entries r)"

section \<open>Gossip\<close>

definition GOSSIP_FANOUT :: nat where "GOSSIP_FANOUT = 3"

text \<open>What either side does with the roster it receives.\<close>

definition gossip_receive :: "prims \<Rightarrow> ad_json \<Rightarrow> authority_set \<Rightarrow> nat \<Rightarrow> roster \<Rightarrow> roster \<Rightarrow> roster \<times> nat" where
  "gossip_receive P J S now r peer = splice_verified r (verify_incoming P J S peer now)"

text \<open>
  A round of \<open>gossip_round_client\<close> with \<open>serve_gossip_connection\<close>: the initiator sends its
  roster, the responder merges it and answers with the result, which the initiator merges.
\<close>

definition gossip_exchange :: "prims \<Rightarrow> ad_json \<Rightarrow> authority_set \<Rightarrow> nat \<Rightarrow> roster \<Rightarrow> roster \<Rightarrow> roster \<times> roster" where
  "gossip_exchange P J S now initiator responder =
     (let responder' = fst (gossip_receive P J S now responder initiator)
      in (fst (gossip_receive P J S now initiator responder'), responder'))"

definition pick_peers :: "prims \<Rightarrow> ((sockaddr \<times> bytes) list \<Rightarrow> (sockaddr \<times> bytes) list) \<Rightarrow> string \<Rightarrow> roster \<Rightarrow> nat
    \<Rightarrow> (sockaddr \<times> bytes) list" where
  "pick_peers P shuffle identity_hex r now =
     (let me = lower identity_hex;
          cands = List.map_filter (\<lambda>(key, ad).
            if key \<noteq> me \<and> sat_sub now (ad_signed_at ad) \<le> STALE_AFTER_SECS \<and> hm_contains (admissions r) key
            then case parse_sockaddr P (ad_address ad) of
                   None \<Rightarrow> None
                 | Some sa \<Rightarrow> (case ad_kem_pubkey_bytes P ad of Inl _ \<Rightarrow> None | Inr kem \<Rightarrow> Some (sa, kem))
            else None) (entries r)
      in take GOSSIP_FANOUT (shuffle cands))"

end
