(* ===== verification/Authority.thy ===== *)
theory Authority
  imports Enroll Roster
begin

text \<open>
  The directory authority, crypto-gotham-authority/src/main.rs: its state, the checks in front
  of the enrolment handler, the handler itself, and the handlers that publish the directory and
  the admissions. The network probes are parameters: whether a relay answered at an address
  with a key, and whether a rendezvous point says it hosts a key. Each clock reading of a
  handler is an argument. A cached reply holds what was serialised.
\<close>

definition RATE_MAP_MAX :: nat where "RATE_MAP_MAX = 100000"
definition ADMISSIONS_CACHE_TTL_SECS :: nat where "ADMISSIONS_CACHE_TTL_SECS = 5"
definition DIRECTORY_CACHE_TTL_SECS :: nat where "DIRECTORY_CACHE_TTL_SECS = 5"
definition ATTEST_ACCEPT_PAST_SECS :: nat where "ATTEST_ACCEPT_PAST_SECS = 2 * ATTEST_EPOCH_BUCKET_SECS"

definition epoch_acceptable :: "nat \<Rightarrow> nat \<Rightarrow> bool" where
  "epoch_acceptable ep now \<longleftrightarrow> ep \<le> sat_add now ADMISSION_CLOCK_SKEW_SECS \<and> now \<le> sat_add ep ATTEST_ACCEPT_PAST_SECS"

text \<open>crypto-gotham-directory/src/wire.rs.\<close>

record admission_entry =
  ae_identity_hex :: string
  ae_epoch :: nat
  ae_operator :: "string option"
  ae_attestation :: attestation

record app_state =
  st_registry :: registry
  st_authority :: bytes
  st_enroll_token :: "string option"
  st_valid_secs :: nat
  st_rate_per_min :: nat
  st_rate :: "(ipaddr, nat \<times> nat) hashmap"
  st_require_liveness :: bool
  st_pop_sk :: bytes
  st_accept_legacy_pop :: bool
  st_admissions_cache :: "(nat \<times> admission_entry list) option"
  st_directory_cache :: "(nat \<times> signed_directory) option"

definition ct_eq :: "bytes \<Rightarrow> bytes \<Rightarrow> bool" where
  "ct_eq a b = (if length a \<noteq> length b then False else ct_diff a b = 0)"

text \<open>The \<open>Authorization\<close> header as text, absent when missing or not text.\<close>

definition token_ok :: "app_state \<Rightarrow> string option \<Rightarrow> bool" where
  "token_ok st auth_header =
     (case st_enroll_token st of
        None \<Rightarrow> True
      | Some expected \<Rightarrow>
          let presented = (case auth_header of
                Some s \<Rightarrow> if take 7 s = ''Bearer '' then drop 7 s else []
              | None \<Rightarrow> [])
          in ct_eq (ascii presented) (ascii expected))"

definition rate_ok :: "app_state \<Rightarrow> ipaddr \<Rightarrow> nat \<Rightarrow> bool \<times> app_state" where
  "rate_ok st ip now =
     (let window = now div 60;
          full = RATE_MAP_MAX \<le> length (st_rate st);
          m = (if full then hm_retain (\<lambda>_ (w, _). w = window) (st_rate st) else st_rate st)
      in if full \<and> RATE_MAP_MAX \<le> length m \<and> \<not> hm_contains m ip then (False, st\<lparr>st_rate := m\<rparr>)
         else let entry = (case hm_get m ip of None \<Rightarrow> (window, 0) | Some e \<Rightarrow> e);
                  entry = (if fst entry \<noteq> window then (window, 0) else entry)
              in if st_rate_per_min st \<le> snd entry then (False, st\<lparr>st_rate := hm_insert ip entry m\<rparr>)
                 else (True, st\<lparr>st_rate := hm_insert ip (fst entry, snd entry + 1) m\<rparr>))"

definition pop_handler :: "prims \<Rightarrow> app_state \<Rightarrow> string" where
  "pop_handler P st = hex_encode P (x25519 P (st_pop_sk st) x25519_base)"

datatype enroll_reply =
    Unauthorized
  | TooManyRequests
  | BadRequest string
  | ServiceUnavailable
  | EnrollOk "attestation option" "nat option"

record probes =
  probe_relay_liveness :: "sockaddr \<Rightarrow> bytes \<Rightarrow> bool"
  probe_rendezvous_hosting :: "sockaddr \<Rightarrow> bytes \<Rightarrow> bytes \<Rightarrow> bool option"
  probe_permit :: bool

text \<open>The part of \<open>enroll\<close> under \<open>require_liveness\<close>: the reply it returns early with.\<close>

definition liveness_check :: "prims \<Rightarrow> probes \<Rightarrow> app_state \<Rightarrow> enrollment \<Rightarrow> sockaddr option \<Rightarrow> enroll_reply option" where
  "liveness_check P Q st e address =
     (case hex32 P (en_kem_hex e) of
        None \<Rightarrow> Some (BadRequest ''rejected: bad kem_pubkey'')
      | Some n_pk \<Rightarrow>
          let shared = x25519 P (st_pop_sk st) n_pk
          in if \<not> (verify_pop_v2 P e shared \<or> (st_accept_legacy_pop st \<and> verify_pop P e shared))
             then Some (BadRequest ''rejected: missing or invalid possession proof (pop_proof)'')
             else if \<not> probe_permit Q then Some ServiceUnavailable
             else case address of
               Some sa \<Rightarrow>
                 if probe_relay_liveness Q sa n_pk then None
                 else Some (BadRequest ''liveness/proof-of-possession probe failed'')
             | None \<Rightarrow>
                 let r_kem = (case en_rendezvous e of Some r \<Rightarrow> r | None \<Rightarrow> [])
                 in case rendezvous_point P (st_registry st) r_kem of
                      None \<Rightarrow> Some (BadRequest ''rejected: rendezvous relay not found or not rendezvous-capable'')
                    | Some (r_addr, r_pk) \<Rightarrow>
                        (case probe_rendezvous_hosting Q r_addr r_pk n_pk of
                           Some True \<Rightarrow> None
                         | Some False \<Rightarrow> Some (BadRequest ''rejected: rendezvous relay does not host this relay'')
                         | None \<Rightarrow> Some (BadRequest ''rendezvous liveness query failed'')))"

definition enroll_handler :: "prims \<Rightarrow> probes \<Rightarrow> app_state \<Rightarrow> ipaddr \<Rightarrow> string option \<Rightarrow> enrollment \<Rightarrow> nat \<Rightarrow> nat \<Rightarrow> nat
    \<Rightarrow> enroll_reply \<times> app_state" where
  "enroll_handler P Q st ip auth_header e now_rate now_enroll now_attest =
     (if \<not> token_ok st auth_header then (Unauthorized, st)
      else let (allowed, st) = rate_ok st ip now_rate
           in if \<not> allowed then (TooManyRequests, st)
              else case validate P e of
                Inl _ \<Rightarrow> (BadRequest ''rejected'', st)
              | Inr address \<Rightarrow>
                  (case (if st_require_liveness st then liveness_check P Q st e address else None) of
                     Some reply \<Rightarrow> (reply, st)
                   | None \<Rightarrow>
                       (case enroll_at P (st_registry st) e now_enroll of
                          Inl _ \<Rightarrow> (BadRequest ''rejected'', st)
                        | Inr reg \<Rightarrow>
                            (case en_attest_epoch e of
                               Some ep \<Rightarrow>
                                 if epoch_acceptable ep now_attest
                                 then (EnrollOk (Some (attest P (st_authority st) (en_kem_hex e) ep (en_operator e))) (Some ep),
                                       st\<lparr>st_registry := reg\<rparr>)
                                 else (EnrollOk None None, st\<lparr>st_registry := reg\<rparr>)
                             | None \<Rightarrow> (EnrollOk None None, st\<lparr>st_registry := reg\<rparr>)))))"

definition admissions_handler :: "prims \<Rightarrow> app_state \<Rightarrow> nat \<Rightarrow> admission_entry list \<times> app_state" where
  "admissions_handler P st now =
     (let cached = (case st_admissions_cache st of
            Some (built, body) \<Rightarrow> if sat_sub now built < ADMISSIONS_CACHE_TTL_SECS then Some body else None
          | None \<Rightarrow> None)
      in case cached of
           Some body \<Rightarrow> (body, st)
         | None \<Rightarrow>
             let reg = fst (reg_prune_at (st_registry st) now);
                 body = map (\<lambda>(identity, ep, op). \<lparr>ae_identity_hex = identity, ae_epoch = ep, ae_operator = op,
                            ae_attestation = attest P (st_authority st) identity ep op\<rparr>)
                          (filter (\<lambda>(_, ep, _). epoch_acceptable ep now) (admission_inputs P reg))
             in (body, st\<lparr>st_registry := reg, st_admissions_cache := Some (now, body)\<rparr>))"

definition directory_handler :: "prims \<Rightarrow> json \<Rightarrow> app_state \<Rightarrow> nat \<Rightarrow> nat option \<Rightarrow> (gerror + signed_directory) \<times> app_state" where
  "directory_handler P J st now clock =
     (let cached = (case st_directory_cache st of
            Some (built, body) \<Rightarrow> if sat_sub now built < DIRECTORY_CACHE_TTL_SECS then Some body else None
          | None \<Rightarrow> None)
      in case cached of
           Some body \<Rightarrow> (Inr body, st)
         | None \<Rightarrow>
             let reg = fst (reg_prune_at (st_registry st) now)
             in case build_signed P J reg (st_authority st) (st_valid_secs st) clock of
                  Inl e \<Rightarrow> (Inl e, st\<lparr>st_registry := reg\<rparr>)
                | Inr s \<Rightarrow> (Inr s, st\<lparr>st_registry := reg, st_directory_cache := Some (now, s)\<rparr>))"

text \<open>The bytes a TURN reply signs, with \<open>body\<close> the JSON of the servers.\<close>

definition turn_signed_bytes :: "bytes \<Rightarrow> nat \<Rightarrow> bytes" where
  "turn_signed_bytes body expires_at =
     ascii ''gotham-turn-v1'' @ le_bytes 8 expires_at @ le_bytes 8 (length body) @ body"

text \<open>The contents of the key file.\<close>

definition read_ed25519_seed :: "prims \<Rightarrow> string \<Rightarrow> bytes option" where
  "read_ed25519_seed P raw =
     (let hexy = list_all (\<lambda>c. is_space c \<or> (let n = of_char c :: nat in 48 \<le> n \<and> n \<le> 57 \<or> 65 \<le> n \<and> n \<le> 70 \<or> 97 \<le> n \<and> n \<le> 102)) raw;
          bytes = (if hexy then hex_decode P (trim raw) else Some (ascii raw))
      in case bytes of Some b \<Rightarrow> if length b = 32 then Some b else None | None \<Rightarrow> None)"

section \<open>Who gets into the registry\<close>

lemma rate_ok_state: "snd (rate_ok st ip now) = st\<lparr>st_rate := st_rate (snd (rate_ok st ip now))\<rparr>"
  by (simp add: rate_ok_def Let_def)

lemma rate_ok_keeps [simp]:
  "st_registry (snd (rate_ok st ip now)) = st_registry st" "st_require_liveness (snd (rate_ok st ip now)) = st_require_liveness st"
  "st_pop_sk (snd (rate_ok st ip now)) = st_pop_sk st" "st_accept_legacy_pop (snd (rate_ok st ip now)) = st_accept_legacy_pop st"
  "st_authority (snd (rate_ok st ip now)) = st_authority st" "st_rate_per_min (snd (rate_ok st ip now)) = st_rate_per_min st"
  by (subst rate_ok_state, simp)+

lemma liveness_keeps: "liveness_check P Q (snd (rate_ok st ip now)) e a = liveness_check P Q st e a"
  unfolding liveness_check_def rate_ok_keeps by (rule refl)

lemma liveness_reply: "liveness_check P Q st e a = Some reply \<Longrightarrow> reply \<noteq> EnrollOk att ep"
  by (auto simp: liveness_check_def Let_def split: option.splits if_splits bool.splits)

text \<open>What a request must satisfy to be enrolled.\<close>

definition entitled :: "prims \<Rightarrow> probes \<Rightarrow> app_state \<Rightarrow> ipaddr \<Rightarrow> string option \<Rightarrow> enrollment \<Rightarrow> nat \<Rightarrow> bool" where
  "entitled P Q st ip auth_header e now_rate \<longleftrightarrow>
     token_ok st auth_header \<and> fst (rate_ok st ip now_rate)
     \<and> (\<exists>a. validate P e = Inr a \<and> (st_require_liveness st \<longrightarrow> liveness_check P Q st e a = None))
     \<and> (\<forall>x. hm_get (st_registry st) (en_kem_hex e) = Some x \<longrightarrow> en_seq (reg_enrollment x) < en_seq e)"

lemma enroll_handler_cases:
  "(entitled P Q st ip ah e t1 \<longrightarrow>
      enroll_handler P Q st ip ah e t1 t2 t3 =
        (let ok = (case en_attest_epoch e of Some ep \<Rightarrow> if epoch_acceptable ep t3 then Some ep else None | None \<Rightarrow> None)
         in EnrollOk (map_option (\<lambda>ep. attest P (st_authority st) (en_kem_hex e) ep (en_operator e)) ok) ok,
         (snd (rate_ok st ip t1))\<lparr>st_registry := hm_insert (en_kem_hex e) \<lparr>reg_enrollment = e, last_seen = t2,
            first_seen = (case hm_get (st_registry st) (en_kem_hex e) of Some x \<Rightarrow> first_seen x | None \<Rightarrow> t2)\<rparr> (st_registry st)\<rparr>))
   \<and> (\<not> entitled P Q st ip ah e t1 \<longrightarrow>
      (\<forall>att ep. fst (enroll_handler P Q st ip ah e t1 t2 t3) \<noteq> EnrollOk att ep)
      \<and> st_registry (snd (enroll_handler P Q st ip ah e t1 t2 t3)) = st_registry st)"
proof (intro conjI impI)
  assume ent: "entitled P Q st ip ah e t1"
  then obtain a where a: "validate P e = Inr a" "st_require_liveness st \<longrightarrow> liveness_check P Q st e a = None"
    by (auto simp: entitled_def)
  obtain reg where reg: "enroll_at P (st_registry st) e t2 = Inr reg"
    using ent a(1) by (auto simp: entitled_def enroll_at_Inr)
  obtain al st' where r: "rate_ok st ip t1 = (al, st')" by force
  have st': "st_registry st' = st_registry st" "st_require_liveness st' = st_require_liveness st" "st_authority st' = st_authority st"
    "liveness_check P Q st' e a = liveness_check P Q st e a"
    using rate_ok_keeps [of st ip t1] liveness_keeps [of P Q st ip t1 e a] r by simp_all
  show "enroll_handler P Q st ip ah e t1 t2 t3 =
        (let ok = (case en_attest_epoch e of Some ep \<Rightarrow> if epoch_acceptable ep t3 then Some ep else None | None \<Rightarrow> None)
         in EnrollOk (map_option (\<lambda>ep. attest P (st_authority st) (en_kem_hex e) ep (en_operator e)) ok) ok,
         (snd (rate_ok st ip t1))\<lparr>st_registry := hm_insert (en_kem_hex e) \<lparr>reg_enrollment = e, last_seen = t2,
            first_seen = (case hm_get (st_registry st) (en_kem_hex e) of Some x \<Rightarrow> first_seen x | None \<Rightarrow> t2)\<rparr> (st_registry st)\<rparr>)"
  proof -
    have ok: "token_ok st ah" "al" using ent r by (simp_all add: entitled_def)
    have "reg = hm_insert (en_kem_hex e) \<lparr>reg_enrollment = e, last_seen = t2,
        first_seen = (case hm_get (st_registry st) (en_kem_hex e) of Some x \<Rightarrow> first_seen x | None \<Rightarrow> t2)\<rparr> (st_registry st)"
      using reg by (simp add: enroll_at_Inr)
    then show ?thesis using a(2)
      by (cases "st_require_liveness st") (simp_all add: enroll_handler_def r st' a(1) ok reg Let_def split: option.split)
  qed
next
  assume ne: "\<not> entitled P Q st ip ah e t1"
  obtain al st' where r: "rate_ok st ip t1 = (al, st')" by force
  have st': "st_registry st' = st_registry st" "st_require_liveness st' = st_require_liveness st"
    "\<And>a. liveness_check P Q st' e a = liveness_check P Q st e a"
    using rate_ok_keeps [of st ip t1] liveness_keeps [of P Q st ip t1 e] r by simp_all
  define live where "live a = (if st_require_liveness st then liveness_check P Q st e a else None)" for a
  have h: "enroll_handler P Q st ip ah e t1 t2 t3 =
      (if \<not> token_ok st ah then (Unauthorized, st) else if \<not> al then (TooManyRequests, st')
       else case validate P e of Inl _ \<Rightarrow> (BadRequest ''rejected'', st')
         | Inr a \<Rightarrow> (case live a of Some reply \<Rightarrow> (reply, st') | None \<Rightarrow> (BadRequest ''rejected'', st')))"
  proof (cases "validate P e")
    case (Inr a)
    have "\<exists>x. enroll_at P (st_registry st) e t2 = Inl x" if "token_ok st ah" "al" "live a = None"
      using ne r that Inr by (cases "enroll_at P (st_registry st) e t2") (auto simp: entitled_def enroll_at_Inr live_def split: if_splits)
    moreover have "(if st_require_liveness st' then liveness_check P Q st' e a else None) = live a" by (simp add: live_def st')
    ultimately show ?thesis using Inr unfolding enroll_handler_def r by (auto simp: st'(1) split: option.split)
  qed (simp add: enroll_handler_def r)
  have "live a = Some reply \<Longrightarrow> reply \<noteq> EnrollOk att ep" for a reply att ep
    using liveness_reply by (auto simp: live_def split: if_splits)
  then have "(\<forall>att ep. fst (enroll_handler P Q st ip ah e t1 t2 t3) \<noteq> EnrollOk att ep)
      \<and> st_registry (snd (enroll_handler P Q st ip ah e t1 t2 t3)) = st_registry st"
    unfolding h by (auto simp: st' split: sum.split option.split)
  then show "\<forall>att ep. fst (enroll_handler P Q st ip ah e t1 t2 t3) \<noteq> EnrollOk att ep"
    "st_registry (snd (enroll_handler P Q st ip ah e t1 t2 t3)) = st_registry st" by blast+
qed

section \<open>What an authority publishes\<close>

text \<open>The enrolling relay knew the secret of its key: it computed the shared secret with the authority.\<close>

definition possession :: "prims \<Rightarrow> bytes \<Rightarrow> bool \<Rightarrow> enrollment \<Rightarrow> bool" where
  "possession P pop_sk legacy e \<longleftrightarrow> (\<exists>pk. hex32 P (en_kem_hex e) = Some pk
     \<and> (verify_pop_v2 P e (x25519 P pop_sk pk) \<or> (legacy \<and> verify_pop P e (x25519 P pop_sk pk))))"

lemma liveness_possession:
  "liveness_check P Q st e a = None \<Longrightarrow> possession P (st_pop_sk st) (st_accept_legacy_pop st) e"
  by (auto simp: liveness_check_def possession_def Let_def split: option.splits if_splits)

definition proven :: "prims \<Rightarrow> app_state \<Rightarrow> enrollment \<Rightarrow> bool" where
  "proven P st e \<longleftrightarrow> (\<exists>a. validate P e = Inr a)
     \<and> (st_require_liveness st \<longrightarrow> possession P (st_pop_sk st) (st_accept_legacy_pop st) e)"

definition published_ok :: "prims \<Rightarrow> json \<Rightarrow> app_state \<Rightarrow> signed_directory \<Rightarrow> bool" where
  "published_ok P J st sd \<longleftrightarrow>
     (\<forall>d \<in> set (relays (doc sd)). \<exists>e. d = to_descriptor e \<and> proven P st e)
     \<and> (\<forall>now. valid_after (doc sd) \<le> now \<longrightarrow> now \<le> valid_until (doc sd) \<longrightarrow>
          directory_verify P J sd (arr 32 (ed_public P (st_authority st))) (Some now) = Inr ())"

definition auth_inv :: "prims \<Rightarrow> json \<Rightarrow> app_state \<Rightarrow> bool" where
  "auth_inv P J st \<longleftrightarrow> hm_wf (st_registry st)
     \<and> (\<forall>k x. hm_get (st_registry st) k = Some x \<longrightarrow> proven P st (reg_enrollment x))
     \<and> (\<forall>t sd. st_directory_cache st = Some (t, sd) \<longrightarrow> published_ok P J st sd)"

datatype auth_event =
    EvEnroll probes ipaddr "string option" enrollment nat nat nat
  | EvAdmissions nat
  | EvDirectory nat "nat option"

fun auth_step :: "prims \<Rightarrow> json \<Rightarrow> app_state \<Rightarrow> auth_event \<Rightarrow> app_state" where
  "auth_step P J st (EvEnroll Q ip h e t1 t2 t3) = snd (enroll_handler P Q st ip h e t1 t2 t3)"
| "auth_step P J st (EvAdmissions now) = snd (admissions_handler P st now)"
| "auth_step P J st (EvDirectory now clock) = snd (directory_handler P J st now clock)"

text \<open>The settings of the authority never change.\<close>

definition same_config :: "app_state \<Rightarrow> app_state \<Rightarrow> bool" where
  "same_config st st' \<longleftrightarrow> st_require_liveness st' = st_require_liveness st \<and> st_pop_sk st' = st_pop_sk st
     \<and> st_accept_legacy_pop st' = st_accept_legacy_pop st \<and> st_authority st' = st_authority st"

lemma same_config_facts:
  assumes "same_config st st'"
  shows "proven P st' e = proven P st e" "published_ok P J st' sd = published_ok P J st sd"
  using assms by (simp_all add: same_config_def proven_def published_ok_def)

lemma auth_invI:
  assumes "auth_inv P J st" "same_config st st'" "hm_wf (st_registry st')"
    "\<And>k x. hm_get (st_registry st') k = Some x \<Longrightarrow> hm_get (st_registry st) k = Some x \<or> proven P st (reg_enrollment x)"
    "\<And>t sd. st_directory_cache st' = Some (t, sd) \<Longrightarrow> st_directory_cache st = Some (t, sd) \<or> published_ok P J st sd"
  shows "auth_inv P J st'"
  using assms by (fastforce simp: auth_inv_def same_config_facts)

lemma prune_entries:
  assumes "hm_wf reg"
  shows "hm_wf (fst (reg_prune_at reg now))" "hm_get (fst (reg_prune_at reg now)) k = Some x \<Longrightarrow> hm_get reg k = Some x"
  using assms by (auto simp: reg_prune_at_def Let_def hm_simps split: option.splits if_splits)

lemma auth_inv_enroll:
  assumes "auth_inv P J st"
  shows "auth_inv P J (snd (enroll_handler P Q st ip ah e t1 t2 t3))"
    "same_config st (snd (enroll_handler P Q st ip ah e t1 t2 t3))"
proof -
  note c = enroll_handler_cases [of P Q st ip ah e t1 t2 t3]
  have cfg: "same_config st (snd (rate_ok st ip t1))" "st_directory_cache (snd (rate_ok st ip t1)) = st_directory_cache st"
    by (simp_all add: same_config_def) (simp add: rate_ok_def Let_def)
  have dc: "same_config st (snd (enroll_handler P Q st ip ah e t1 t2 t3))
      \<and> st_directory_cache (snd (enroll_handler P Q st ip ah e t1 t2 t3)) = st_directory_cache st"
    using cfg by (auto simp: enroll_handler_def same_config_def Let_def case_prod_beta split: sum.split option.split)
  then show "same_config st (snd (enroll_handler P Q st ip ah e t1 t2 t3))" by blast
  show "auth_inv P J (snd (enroll_handler P Q st ip ah e t1 t2 t3))"
  proof (cases "entitled P Q st ip ah e t1")
    case True
    then have "proven P st e" using liveness_possession by (auto simp: entitled_def proven_def)
    moreover have "hm_wf (st_registry st)" using assms by (simp add: auth_inv_def)
    ultimately show ?thesis using True c dc
      by (intro auth_invI [OF assms]) (auto simp: hm_simps split: if_splits)
  next
    case False
    then show ?thesis using c dc assms by (intro auth_invI [OF assms]) (auto simp: auth_inv_def)
  qed
qed

lemma set_subseq: "subseq xs ys \<Longrightarrow> set xs \<subseteq> set ys"
  by (induction rule: list_emb.induct) auto

lemma reg_descriptors_from:
  assumes "d \<in> set (reg_descriptors P reg)"
  shows "\<exists>k x. (k, x) \<in> set reg \<and> d = to_descriptor (reg_enrollment x)"
proof -
  have "set (apply_diversity_caps P ds) \<subseteq> set ds" for ds
    unfolding apply_diversity_caps_def by (rule set_subseq [OF caps_loop_subseq])
  with assms show ?thesis unfolding reg_descriptors_def order_for_diversity_caps_def by fastforce
qed

lemma signed_published:
  assumes "hex_ok P" "ed_ok P" "auth_inv P J st" "build_signed P J (fst (reg_prune_at (st_registry st) now)) (st_authority st) valid clock = Inr sd"
  shows "published_ok P J st sd"
proof -
  have wf: "hm_wf (st_registry st)" using assms(3) by (simp add: auth_inv_def)
  obtain d where d: "doc_new (reg_descriptors P (fst (reg_prune_at (st_registry st) now))) valid clock = Inr d"
    "directory_sign P J d (st_authority st) = Inr sd"
    using assms(4) by (auto simp: build_signed_def split: sum.splits)
  have "\<exists>e. r = to_descriptor e \<and> proven P st e" if r: "r \<in> set (relays (doc sd))" for r
  proof -
    have "r \<in> set (reg_descriptors P (fst (reg_prune_at (st_registry st) now)))"
      using r d by (auto simp: doc_new_def directory_sign_def split: option.splits sum.splits)
    then obtain k x where x: "(k, x) \<in> set (fst (reg_prune_at (st_registry st) now))" "r = to_descriptor (reg_enrollment x)"
      using reg_descriptors_from by blast
    then have "hm_get (st_registry st) k = Some x" using prune_entries [OF wf] by (metis hm_get_in)
    with assms(3) x(2) show ?thesis by (auto simp: auth_inv_def)
  qed
  moreover have "directory_verify P J sd (arr 32 (ed_public P (st_authority st))) (Some t) = Inr ()"
    if "valid_after (doc sd) \<le> t" "t \<le> valid_until (doc sd)" for t
    using assms(1,2) d that
    by (auto simp: doc_new_def directory_sign_def directory_verify_def canonical_bytes_def hex_ok_def ed_ok_def
        split: option.splits if_splits)
  ultimately show ?thesis by (simp add: published_ok_def)
qed

lemma directory_handler_ok:
  assumes "hex_ok P" "ed_ok P" "auth_inv P J st"
  shows "auth_inv P J (snd (directory_handler P J st now clock))" "same_config st (snd (directory_handler P J st now clock))"
    "fst (directory_handler P J st now clock) = Inr sd \<Longrightarrow> published_ok P J st sd"
proof -
  have wf: "hm_wf (st_registry st)" and c: "st_directory_cache st = Some (t, sd) \<Longrightarrow> published_ok P J st sd" for t sd
    using assms(3) by (auto simp: auth_inv_def)
  let ?reg = "fst (reg_prune_at (st_registry st) now)"
  note pe = prune_entries [OF wf, of now] and sp = signed_published [OF assms, of now "st_valid_secs st" clock]
  show "same_config st (snd (directory_handler P J st now clock))"
    by (auto simp: directory_handler_def same_config_def Let_def split: option.split sum.split)
  show "fst (directory_handler P J st now clock) = Inr sd \<Longrightarrow> published_ok P J st sd"
    using c sp by (auto simp: directory_handler_def Let_def split: option.splits sum.splits if_splits)
  have "snd (directory_handler P J st now clock) = st \<or> snd (directory_handler P J st now clock) = st\<lparr>st_registry := ?reg\<rparr>
      \<or> (\<exists>s. build_signed P J ?reg (st_authority st) (st_valid_secs st) clock = Inr s
          \<and> snd (directory_handler P J st now clock) = st\<lparr>st_registry := ?reg, st_directory_cache := Some (now, s)\<rparr>)"
    by (cases "case st_directory_cache st of Some (built, body) \<Rightarrow> if sat_sub now built < DIRECTORY_CACHE_TTL_SECS then Some body else None
          | None \<Rightarrow> None"; cases "build_signed P J ?reg (st_authority st) (st_valid_secs st) clock")
      (simp_all add: directory_handler_def Let_def)
  then show "auth_inv P J (snd (directory_handler P J st now clock))"
  proof (elim disjE exE conjE)
    fix s assume "build_signed P J ?reg (st_authority st) (st_valid_secs st) clock = Inr s"
      and eq: "snd (directory_handler P J st now clock) = st\<lparr>st_registry := ?reg, st_directory_cache := Some (now, s)\<rparr>"
    then have "published_ok P J st s" by (intro sp)
    then show ?thesis unfolding eq using pe by (intro auth_invI [OF assms(3)]) (auto simp: same_config_def)
  next
    assume eq: "snd (directory_handler P J st now clock) = st\<lparr>st_registry := ?reg\<rparr>"
    show ?thesis unfolding eq using pe by (intro auth_invI [OF assms(3)]) (auto simp: same_config_def)
  qed (use assms(3) in simp)
qed

lemma auth_inv_admissions:
  assumes "auth_inv P J st"
  shows "auth_inv P J (snd (admissions_handler P st now))" "same_config st (snd (admissions_handler P st now))"
proof -
  have wf: "hm_wf (st_registry st)" using assms by (simp add: auth_inv_def)
  have "snd (admissions_handler P st now) = st
      \<or> (\<exists>c. snd (admissions_handler P st now) = st\<lparr>st_registry := fst (reg_prune_at (st_registry st) now), st_admissions_cache := c\<rparr>)"
    by (auto simp: admissions_handler_def Let_def split: option.split)
  then show "auth_inv P J (snd (admissions_handler P st now))" "same_config st (snd (admissions_handler P st now))"
    using assms wf prune_entries [OF wf, of now] by (auto intro!: auth_invI [OF assms] simp: same_config_def)
qed

lemma auth_run_inv:
  assumes "hex_ok P" "ed_ok P" "auth_inv P J st"
  shows "auth_inv P J (foldl (auth_step P J) st evs) \<and> same_config st (foldl (auth_step P J) st evs)"
  using assms(3)
proof (induction evs arbitrary: st)
  case Nil
  then show ?case by (simp add: same_config_def)
next
  case (Cons ev evs)
  have "auth_inv P J (auth_step P J st ev) \<and> same_config st (auth_step P J st ev)"
    using auth_inv_enroll [OF Cons.prems] auth_inv_admissions [OF Cons.prems] directory_handler_ok(1,2) [OF assms(1,2) Cons.prems]
    by (cases ev) simp_all
  with Cons.IH [of "auth_step P J st ev"] show ?case by (auto simp: same_config_def)
qed

text \<open>
  What an authority publishes. Starting with an empty registry, after any sequence of
  requests to its handlers, every directory it serves is accepted by a client that pins its key
  throughout the validity window, and lists only relays from enrolments that passed validation
  and, unless the probe is switched off, proved possession of the secret of the key they list.
\<close>

theorem authority_publishes_proven:
  assumes "hex_ok P" and "ed_ok P" and "st_registry st = []" and "st_directory_cache st = None"
    and "fst (directory_handler P J (foldl (auth_step P J) st evs) now clock) = Inr sd"
  shows "(\<forall>d \<in> set (relays (doc sd)). \<exists>e. d = to_descriptor e \<and> proven P st e)
    \<and> (\<forall>t. valid_after (doc sd) \<le> t \<longrightarrow> t \<le> valid_until (doc sd) \<longrightarrow>
         directory_verify P J sd (arr 32 (ed_public P (st_authority st))) (Some t) = Inr ())"
proof -
  have "auth_inv P J st" using assms(3,4) by (simp add: auth_inv_def hm_simps)
  note r = auth_run_inv [OF assms(1,2) this, of evs]
  from directory_handler_ok(3) [OF assms(1,2) conjunct1 [OF r] assms(5)]
  have "published_ok P J st sd" using same_config_facts(2) [OF conjunct2 [OF r]] by blast
  then show ?thesis by (simp add: published_ok_def)
qed

subsection \<open>A concrete authority\<close>

definition demo_cfg :: enroll_config where
  "demo_cfg = \<lparr>cfg_advertise_addr = ''abcd'', cfg_kem_hex = hex_encode demo_prims (x25519 demo_prims (replicate 32 8) x25519_base),
     cfg_tier = Mix, cfg_country = None, cfg_operator = Some ''op'', cfg_rendezvous = None, cfg_rendezvous_capable = False,
     cfg_mailbox = False, cfg_relay_sk = replicate 32 8\<rparr>"

definition demo_app :: app_state where
  "demo_app = \<lparr>st_registry = [], st_authority = [1, 2], st_enroll_token = None, st_valid_secs = 3600, st_rate_per_min = 30,
     st_rate = [], st_require_liveness = True, st_pop_sk = replicate 32 16, st_accept_legacy_pop = False,
     st_admissions_cache = None, st_directory_cache = None\<rparr>"

definition demo_probes :: probes where
  "demo_probes = \<lparr>probe_relay_liveness = (\<lambda>_ _. True), probe_rendezvous_hosting = (\<lambda>_ _ _. None), probe_permit = True\<rparr>"

definition demo_request :: enrollment where
  "demo_request = attach_pop_proof demo_prims (base_enrollment demo_cfg 7 86400) demo_cfg (x25519 demo_prims (replicate 32 16) x25519_base)"

lemma demo_kem32: "hex32 demo_prims (cfg_kem_hex demo_cfg) = Some (x25519 demo_prims (replicate 32 8) x25519_base)"
  using demo_hex_ok by (simp add: hex32_def demo_cfg_def hex_ok_def)

lemma demo_request_fields: "en_kem_hex demo_request = cfg_kem_hex demo_cfg" "en_addr demo_request = ''abcd''"
    "en_rendezvous demo_request = None" "en_version demo_request = ENROLL_VERSION" "en_seq demo_request = 7"
    "en_operator demo_request = Some ''op''"
  by (simp_all add: demo_request_def attach_pop_proof_def base_enrollment_def enrollment_new_def Let_def demo_cfg_def)

lemma demo_validates: "\<exists>sa. validate demo_prims demo_request = Inr (Some sa)"
proof -
  have "hex_decode demo_prims (cfg_kem_hex demo_cfg) = Some (x25519 demo_prims (replicate 32 8) x25519_base)"
    using demo_hex_ok by (simp add: demo_cfg_def hex_ok_def)
  moreover have "parse_sockaddr demo_prims ''abcd'' = Some \<lparr>sa_ip = V4 [97, 98, 99, 100], sa_port = 443\<rparr>"
    by (simp add: demo_prims_def ascii_byte_def)
  ultimately show ?thesis by (simp add: validate_def demo_request_fields is_unspecified_ip_def is_loopback_def)
qed

lemma demo_entitled: "entitled demo_prims demo_probes demo_app (V4 [1, 2, 3, 4]) None demo_request 1000"
proof -
  obtain sa where sa: "validate demo_prims demo_request = Inr (Some sa)" using demo_validates by blast
  have "verify_pop_v2 demo_prims demo_request (x25519 demo_prims (replicate 32 16) (x25519 demo_prims (replicate 32 8) x25519_base))"
    using pop_proof_verifies [OF demo_dh_ok demo_hex_ok, of demo_cfg "base_enrollment demo_cfg 7 86400" "replicate 32 16"] demo_kem32
    by (simp add: demo_request_def demo_cfg_def)
  then have "liveness_check demo_prims demo_probes demo_app demo_request (Some sa) = None"
    by (simp add: liveness_check_def demo_request_fields demo_kem32 demo_app_def demo_probes_def)
  moreover have "fst (rate_ok demo_app (V4 [1, 2, 3, 4]) 1000)"
    by (simp add: rate_ok_def demo_app_def RATE_MAP_MAX_def hm_simps)
  ultimately show ?thesis using sa by (auto simp: entitled_def token_ok_def demo_app_def hm_simps)
qed

lemma demo_registered:
  "st_registry (foldl (auth_step demo_prims demo_json) demo_app [EvEnroll demo_probes (V4 [1, 2, 3, 4]) None demo_request 1000 1000 1000])
     = [(cfg_kem_hex demo_cfg, \<lparr>reg_enrollment = demo_request, last_seen = 1000, first_seen = 1000\<rparr>)]"
  using enroll_handler_cases [of demo_prims demo_probes demo_app "V4 [1, 2, 3, 4]" None demo_request 1000 1000 1000] demo_entitled
  by (simp add: demo_request_fields) (simp add: demo_app_def hm_insert_def hm_simps)

lemma single_capped: "rendezvous d = None \<Longrightarrow> apply_diversity_caps P [d] = [d]"
  unfolding apply_diversity_caps_def
  by (intro caps_loop_all) (auto simp: counter_of_def hm_simps MAX_RELAYS_PER_24_def MAX_RELAYS_PER_16_def
      MAX_RELAYS_PER_48_def MAX_RELAYS_PER_OPERATOR_def)

theorem authority_publishes_proven_witness:
  "\<exists>sd. fst (directory_handler demo_prims demo_json (foldl (auth_step demo_prims demo_json) demo_app
       [EvEnroll demo_probes (V4 [1, 2, 3, 4]) None demo_request 1000 1000 1000]) 1500 (Some 1500)) = Inr sd
     \<and> relays (doc sd) = [to_descriptor demo_request]
     \<and> directory_verify demo_prims demo_json sd (arr 32 (ed_public demo_prims [1, 2])) (Some 2000) = Inr ()"
proof -
  define st where "st = foldl (auth_step demo_prims demo_json) demo_app [EvEnroll demo_probes (V4 [1, 2, 3, 4]) None demo_request 1000 1000 1000]"
  have reg: "st_registry st = [(cfg_kem_hex demo_cfg, \<lparr>reg_enrollment = demo_request, last_seen = 1000, first_seen = 1000\<rparr>)]"
    unfolding st_def by (rule demo_registered)
  have "same_config demo_app st \<and> st_directory_cache st = None \<and> st_valid_secs st = 3600"
    using enroll_handler_cases [of demo_prims demo_probes demo_app "V4 [1, 2, 3, 4]" None demo_request 1000 1000 1000] demo_entitled
    by (simp add: st_def same_config_def) (simp add: rate_ok_def Let_def demo_app_def)
  then have st: "st_authority st = [1, 2]" "st_directory_cache st = None" "st_valid_secs st = 3600"
    by (simp_all add: same_config_def) (simp add: demo_app_def)
  have "rendezvous (to_descriptor demo_request) = None" by (simp add: to_descriptor_def demo_request_fields)
  then have rd: "reg_descriptors demo_prims (st_registry st) = [to_descriptor demo_request]"
    by (simp add: reg_descriptors_def order_for_diversity_caps_def reg single_capped)
  have pr: "fst (reg_prune_at (st_registry st) 1500) = st_registry st"
    by (simp add: reg_prune_at_def Let_def hm_retain_def reg sat_sub_def ENROLL_STALE_AFTER_SECS_def)
  obtain sd where sd: "fst (directory_handler demo_prims demo_json st 1500 (Some 1500)) = Inr sd" and
    d: "relays (doc sd) = [to_descriptor demo_request]" "valid_after (doc sd) = 1500" "valid_until (doc sd) = 5100"
    by (simp add: directory_handler_def st pr build_signed_def rd doc_new_def checked_add_def u64_max_def directory_sign_def
        canonical_bytes_def demo_json_def)
  have "directory_verify demo_prims demo_json sd (arr 32 (ed_public demo_prims [1, 2])) (Some 2000) = Inr ()"
    using authority_publishes_proven [OF demo_hex_ok demo_ed_ok _ _ sd [unfolded st_def], THEN conjunct2, rule_format, of 2000] d
    by (simp add: demo_app_def)
  with sd d show ?thesis unfolding st_def by blast
qed

end
