(* ===== verification/Turn_Service.thy ===== *)
theory Turn_Service
  imports Authority
begin

text \<open>
  The credentials for relayed calls, the handler \<open>turn\<close> of crypto-gotham-authority/src/main.rs:
  short-lived credentials for a TURN server, under the same rate limit as enrolment, with the list
  of servers signed by the authority. HMAC-SHA1 with base64, and the JSON of the list, are
  parameters.
\<close>

record ice_server =
  ice_urls :: "string list"
  ice_username :: string
  ice_credential :: string

record turn_config =
  turn_urls :: "string list"
  turn_secret :: "bytes option"
  turn_ttl :: nat

record turn_reply =
  tr_ice_servers :: "ice_server list"
  tr_ttl :: nat
  tr_expires_at :: nat
  tr_sig :: string

datatype turn_response = TurnNotFound | TurnTooMany | TurnOk turn_reply

text \<open>\<open>hmac secret text\<close> is the base64 of the HMAC-SHA1 of the text under the secret.\<close>

definition turn_credential :: "(bytes \<Rightarrow> bytes \<Rightarrow> string) \<Rightarrow> bytes \<Rightarrow> string \<Rightarrow> string" where
  "turn_credential hmac secret username = hmac secret (ascii username)"

text \<open>
  The handler reads the clock three times: for the rate limit, for the user name and for the expiry.
  The sums are of 64-bit numbers.
\<close>

definition turn_handler :: "prims \<Rightarrow> (bytes \<Rightarrow> bytes \<Rightarrow> string) \<Rightarrow> (ice_server list \<Rightarrow> bytes) \<Rightarrow> turn_config \<Rightarrow> app_state \<Rightarrow> ipaddr
    \<Rightarrow> nat \<Rightarrow> nat \<Rightarrow> nat \<Rightarrow> turn_response \<times> app_state" where
  "turn_handler P hmac J cfg st ip now_rate now_user now_expiry =
     (case turn_secret cfg of
        None \<Rightarrow> (TurnNotFound, st)
      | Some secret \<Rightarrow>
          if turn_urls cfg = [] then (TurnNotFound, st)
          else case rate_ok st ip now_rate of
            (allowed, st) \<Rightarrow>
              if \<not> allowed then (TurnTooMany, st)
              else let username = dec_string ((now_user + turn_ttl cfg) mod 2 ^ 64);
                       credential = turn_credential hmac secret username;
                       servers = map (\<lambda>u. \<lparr>ice_urls = [u], ice_username = username, ice_credential = credential\<rparr>) (turn_urls cfg);
                       expires_at = (now_expiry + turn_ttl cfg) mod 2 ^ 64;
                       signed_bytes = turn_signed_bytes (J servers) expires_at
                   in (TurnOk \<lparr>tr_ice_servers = servers, tr_ttl = turn_ttl cfg, tr_expires_at = expires_at,
                         tr_sig = hex_encode P (arr 64 (ed_sign P (st_authority st) signed_bytes))\<rparr>, st))"

text \<open>The client's side: the signature is over exactly this list and this expiry.\<close>

definition turn_signature_ok :: "prims \<Rightarrow> (ice_server list \<Rightarrow> bytes) \<Rightarrow> bytes \<Rightarrow> turn_reply \<Rightarrow> bool" where
  "turn_signature_ok P J pk r =
     (case hex_decode P (tr_sig r) of
        None \<Rightarrow> False
      | Some sig \<Rightarrow> ed_verify P pk (turn_signed_bytes (J (tr_ice_servers r)) (tr_expires_at r)) sig)"

lemma turn_signed_bytes_inj:
  assumes "x < 2 ^ 64" and "y < 2 ^ 64" and "length a < 2 ^ 64" and "length b < 2 ^ 64"
  shows "turn_signed_bytes a x = turn_signed_bytes b y \<longleftrightarrow> a = b \<and> x = y"
  using le8_inj [OF assms(1,2)] le8_inj [OF assms(3,4)] by (auto simp: turn_signed_bytes_def)

text \<open>The branch on which credentials are issued.\<close>

lemma turn_issued:
  assumes "turn_handler P hmac J cfg st ip t0 t1 t2 = (TurnOk r, st')"
  shows "\<exists>secret. turn_secret cfg = Some secret \<and> turn_urls cfg \<noteq> [] \<and> st' = snd (rate_ok st ip t0)
    \<and> tr_ice_servers r = map (\<lambda>u. \<lparr>ice_urls = [u], ice_username = dec_string ((t1 + turn_ttl cfg) mod 2 ^ 64),
        ice_credential = hmac secret (ascii (dec_string ((t1 + turn_ttl cfg) mod 2 ^ 64)))\<rparr>) (turn_urls cfg)
    \<and> tr_expires_at r = (t2 + turn_ttl cfg) mod 2 ^ 64
    \<and> tr_sig r = hex_encode P (arr 64 (ed_sign P (st_authority st) (turn_signed_bytes (J (tr_ice_servers r)) (tr_expires_at r))))"
proof -
  obtain secret where s: "turn_secret cfg = Some secret" "turn_urls cfg \<noteq> []" "fst (rate_ok st ip t0)" "st' = snd (rate_ok st ip t0)"
    using assms by (auto simp: turn_handler_def Let_def split: option.splits if_splits prod.splits)
  have "st_authority (snd (rate_ok st ip t0)) = st_authority st" by simp
  with s assms show ?thesis
    by (auto simp: turn_handler_def turn_credential_def Let_def case_prod_beta split: option.splits if_splits)
qed

lemma turn_issued_signature:
  assumes "hex_ok P" "ed_ok P" "turn_handler P hmac J cfg st ip t0 t1 t2 = (TurnOk r, st')"
  shows "turn_signature_ok P J (arr 32 (ed_public P (st_authority st))) r"
  using assms(1,2) turn_issued [OF assms(3)] by (auto simp: turn_signature_ok_def hex_ok_def ed_ok_def)

text \<open>
  What the authority hands out for calls. A request within the rate limit gets one entry for
  each configured server, all with the credential of a user name that is the time of its expiry,
  signed so that the signature verifies under the authority's key; the bytes signed determine the
  list and the expiry, so that the signature is good for no other; and the request changes nothing
  of the authority but its counters.
\<close>

theorem turn_reply_signed:
  assumes "hex_ok P" and "ed_ok P" and "turn_handler P hmac J cfg st ip t0 t1 t2 = (TurnOk r, st')"
    and "length (J (tr_ice_servers r)) < 2 ^ 64"
  shows "turn_signature_ok P J (arr 32 (ed_public P (st_authority st))) r
    \<and> map ice_urls (tr_ice_servers r) = map (\<lambda>u. [u]) (turn_urls cfg)
    \<and> (\<exists>secret. turn_secret cfg = Some secret \<and> (\<forall>s \<in> set (tr_ice_servers r).
         ice_username s = dec_string ((t1 + turn_ttl cfg) mod 2 ^ 64) \<and> ice_credential s = hmac secret (ascii (ice_username s))))
    \<and> (\<forall>body expires. length body < 2 ^ 64 \<longrightarrow> expires < 2 ^ 64 \<longrightarrow>
         turn_signed_bytes body expires = turn_signed_bytes (J (tr_ice_servers r)) (tr_expires_at r)
           \<longleftrightarrow> body = J (tr_ice_servers r) \<and> expires = tr_expires_at r)
    \<and> st' = st\<lparr>st_rate := st_rate st'\<rparr>"
proof -
  note i = turn_issued [OF assms(3)]
  then have "tr_expires_at r < 2 ^ 64" by auto
  then show ?thesis
    using i turn_issued_signature [OF assms(1-3)] turn_signed_bytes_inj [OF _ _ _ assms(4)] rate_ok_state [of st ip t0] by auto
qed

definition demo_turn :: turn_config where
  "demo_turn = \<lparr>turn_urls = [''turns:a'', ''turns:b''], turn_secret = Some [1, 2, 3], turn_ttl = 300\<rparr>"

theorem turn_reply_signed_witness:
  "\<exists>r st'. turn_handler demo_prims (\<lambda>k m. ''mac'') (\<lambda>ss. [7]) demo_turn demo_app (V4 [1, 2, 3, 4]) 1000 1000 1001 = (TurnOk r, st')
     \<and> turn_signature_ok demo_prims (\<lambda>ss. [7]) (arr 32 (ed_public demo_prims [1, 2])) r \<and> length (tr_ice_servers r) = 2"
proof -
  let ?h = "turn_handler demo_prims (\<lambda>k m. ''mac'') (\<lambda>ss. [7]) demo_turn demo_app (V4 [1, 2, 3, 4]) 1000 1000 1001"
  have "fst (rate_ok demo_app (V4 [1, 2, 3, 4]) 1000)" by (simp add: rate_ok_def demo_app_def RATE_MAP_MAX_def hm_simps)
  then obtain r st' where h: "?h = (TurnOk r, st')" by (auto simp: turn_handler_def demo_turn_def Let_def case_prod_beta)
  from turn_reply_signed [OF demo_hex_ok demo_ed_ok h]
  have "turn_signature_ok demo_prims (\<lambda>ss. [7]) (arr 32 (ed_public demo_prims [1, 2])) r \<and> map ice_urls (tr_ice_servers r) = map (\<lambda>u. [u]) (turn_urls demo_turn)"
    by (simp add: demo_app_def)
  then show ?thesis using h by (auto simp: demo_turn_def dest: arg_cong [where f = length])
qed

end
