(* ===== verification/Mailbox.thy ===== *)
theory Mailbox
  imports Primitives
begin

text \<open>
  The store-and-forward mailbox, crypto-gotham/src/mailbox.rs: the identifiers of a recipient
  by epoch, the possession proof of a fetch, the store with its quotas, and its snapshot.
  Counters are \<open>usize\<close> values whose \<open>+=\<close> and \<open>-=\<close> wrap; that they never do is part of the
  invariant. An operation that fails may already have dropped expired entries, so every
  operation returns its result together with the new state.
\<close>

section \<open>Identifiers and possession proofs\<close>

definition MAILBOX_EPOCH_SECS :: nat where "MAILBOX_EPOCH_SECS = 86400"
definition DEFAULT_MAX_TTL_SECS :: nat where "DEFAULT_MAX_TTL_SECS = 30 * 24 * 3600"
definition FETCH_EPOCHS_BEHIND :: nat where
  "FETCH_EPOCHS_BEHIND = DEFAULT_MAX_TTL_SECS div MAILBOX_EPOCH_SECS + 2"
definition FETCH_EPOCHS_AHEAD :: nat where "FETCH_EPOCHS_AHEAD = 1"

definition MAILBOX_ID_DOMAIN :: bytes where "MAILBOX_ID_DOMAIN = ascii ''gotham-mailbox-id-v1''"

definition mailbox_id_for :: "prims \<Rightarrow> bytes \<Rightarrow> bytes" where
  "mailbox_id_for P pk = arr 32 (blake3_hash P (MAILBOX_ID_DOMAIN @ pk))"

definition mailbox_id_legacy :: "prims \<Rightarrow> bytes \<Rightarrow> bytes" where
  "mailbox_id_legacy P pk = mailbox_id_for P pk"

definition mailbox_epoch_of :: "nat \<Rightarrow> nat" where
  "mailbox_epoch_of valid_after = valid_after div MAILBOX_EPOCH_SECS"

definition mailbox_id_for_epoch :: "prims \<Rightarrow> bytes \<Rightarrow> nat \<Rightarrow> bytes" where
  "mailbox_id_for_epoch P pk epoch =
     arr 32 (blake3_hash P (MAILBOX_ID_DOMAIN @ pk @ be_bytes 8 epoch))"

definition mailbox_id_for_deposit :: "prims \<Rightarrow> bytes \<Rightarrow> nat \<Rightarrow> bytes" where
  "mailbox_id_for_deposit P pk valid_after = mailbox_id_for_epoch P pk (mailbox_epoch_of valid_after)"

definition mailbox_ids_to_read :: "prims \<Rightarrow> bytes \<Rightarrow> nat \<Rightarrow> bytes list" where
  "mailbox_ids_to_read P pk valid_after =
     (let e = mailbox_epoch_of valid_after
      in [mailbox_id_for_epoch P pk e, mailbox_id_for_epoch P pk (sat_sub e 1)])"

definition mailbox_id_owned_at :: "prims \<Rightarrow> bytes \<Rightarrow> bytes \<Rightarrow> nat \<Rightarrow> bool" where
  "mailbox_id_owned_at P pk mid now =
     (if mailbox_id_legacy P pk = mid then True
      else let cur = mailbox_epoch_of now
           in list_ex (\<lambda>e. mailbox_id_for_epoch P pk e = mid)
                [sat_sub cur FETCH_EPOCHS_BEHIND ..< Suc (sat_add cur FETCH_EPOCHS_AHEAD)])"

record fetch_auth =
  auth_pk :: bytes
  auth_tag :: bytes

definition fetch_auth_input :: "bytes \<Rightarrow> bytes \<Rightarrow> bytes" where
  "fetch_auth_input binding mid = le_bytes 8 (length binding) @ binding @ mid"

definition fetch_auth_tag :: "prims \<Rightarrow> bytes \<Rightarrow> bytes \<Rightarrow> bytes \<Rightarrow> bytes" where
  "fetch_auth_tag P shared binding mid =
     (let k = arr 32 (blake3_derive_key P ''gotham-mailbox-fetch-v1'' shared)
      in arr 32 (blake3_keyed P k (fetch_auth_input binding mid)))"

definition verify_at :: "prims \<Rightarrow> fetch_auth \<Rightarrow> bytes \<Rightarrow> bytes \<Rightarrow> bytes \<Rightarrow> nat \<Rightarrow> bool" where
  "verify_at P a shared binding mid now =
     (if \<not> mailbox_id_owned_at P (auth_pk a) mid now then False
      else ct_diff (auth_tag a) (fetch_auth_tag P shared binding mid) = 0)"

definition surb_fetch_binding :: "prims \<Rightarrow> bytes \<Rightarrow> bytes" where
  "surb_fetch_binding P surb_bytes =
     arr 32 (blake3_hash P (ascii ''gotham-mailbox-surb-binding-v1'' @ surb_bytes))"

definition mailbox_host_score :: "prims \<Rightarrow> bytes \<Rightarrow> bytes \<Rightarrow> bytes" where
  "mailbox_host_score P pk host_id =
     arr 32 (blake3_hash P (ascii ''gotham-mailbox-rendezvous-v1'' @ pk @ host_id))"

definition mailbox_host_score_at :: "prims \<Rightarrow> nat \<Rightarrow> bytes \<Rightarrow> bytes \<Rightarrow> bytes" where
  "mailbox_host_score_at P epoch pk host_id =
     arr 32 (blake3_hash P (ascii ''gotham-mailbox-rendezvous-v2'' @ le_bytes 8 epoch @ pk @ host_id))"

text \<open>The client side, crypto-gotham-relay/src/mailbox_client.rs.\<close>

definition fetch_auth_for :: "prims \<Rightarrow> bytes \<Rightarrow> bytes \<Rightarrow> bytes \<Rightarrow> bytes \<Rightarrow> fetch_auth" where
  "fetch_auth_for P identity_sk relay_pk binding mid =
     \<lparr>auth_pk = x25519 P identity_sk x25519_base,
      auth_tag = fetch_auth_tag P (x25519 P identity_sk relay_pk) binding mid\<rparr>"

section \<open>The store\<close>

record mb_entry =
  sealed :: bytes
  expires_at :: nat

record mailbox_policy =
  max_mailboxes :: nat
  max_msgs_per_mailbox :: nat
  max_total_msgs :: nat
  max_msg_bytes :: nat
  max_total_bytes :: nat
  default_ttl_secs :: nat
  max_ttl_secs :: nat

definition policy_default :: mailbox_policy where
  "policy_default = \<lparr>max_mailboxes = 100000, max_msgs_per_mailbox = 1000, max_total_msgs = 1000000,
     max_msg_bytes = 16 * 1024, max_total_bytes = 512 * 1024 * 1024,
     default_ttl_secs = 7 * 24 * 3600, max_ttl_secs = DEFAULT_MAX_TTL_SECS\<rparr>"

datatype deposit_error = TooLarge | MailboxFull | StoreFull

record mailbox =
  boxes :: "(bytes, mb_entry list) hashmap"
  policy :: mailbox_policy
  total :: nat
  mbytes :: nat

definition MAX_MAILBOX_FRAME :: nat where "MAX_MAILBOX_FRAME = 16 * 1024 * 1024"

definition mailbox_new :: "mailbox_policy \<Rightarrow> mailbox" where
  "mailbox_new p0 =
     (let ceiling = sat_sub MAX_MAILBOX_FRAME 4096;
          p = (if ceiling < max_msg_bytes p0 then p0\<lparr>max_msg_bytes := ceiling\<rparr> else p0)
      in \<lparr>boxes = [], policy = p, total = 0, mbytes = 0\<rparr>)"

definition entries_bytes :: "mb_entry list \<Rightarrow> nat" where
  "entries_bytes v = sum_list (map (\<lambda>e. length (sealed e)) v)"

definition live_entries :: "nat \<Rightarrow> mb_entry list \<Rightarrow> mb_entry list" where
  "live_entries now v = filter (\<lambda>e. now < expires_at e) v"

definition prune_expired :: "mailbox \<Rightarrow> nat \<Rightarrow> nat \<times> mailbox" where
  "prune_expired m now =
     (let removed = sum_list (map (\<lambda>(_, v). length v - length (live_entries now v)) (boxes m));
          removed_bytes = sum_list (map (\<lambda>(_, v). entries_bytes v - entries_bytes (live_entries now v)) (boxes m));
          kept = filter (\<lambda>(_, v). v \<noteq> []) (map (\<lambda>(k, v). (k, live_entries now v)) (boxes m))
      in (removed, m\<lparr>boxes := kept, total := wsub64 (total m) removed,
                     mbytes := wsub64 (mbytes m) removed_bytes\<rparr>))"

definition effective_ttl :: "mailbox_policy \<Rightarrow> nat \<Rightarrow> nat" where
  "effective_ttl p ttl_secs = (if ttl_secs = 0 then default_ttl_secs p else max (min ttl_secs (max_ttl_secs p)) 1)"

text \<open>The step of \<open>deposit\<close> that drops the expired entries of the addressed mailbox.\<close>

definition drop_expired_box :: "mailbox \<Rightarrow> bytes \<Rightarrow> nat \<Rightarrow> mailbox" where
  "drop_expired_box m mid now =
     (case hm_get (boxes m) mid of
        None \<Rightarrow> m
      | Some v \<Rightarrow>
          let v' = live_entries now v
          in m\<lparr>boxes := hm_insert mid v' (boxes m),
               total := wsub64 (total m) (length v - length v'),
               mbytes := wsub64 (mbytes m) (entries_bytes v - entries_bytes v')\<rparr>)"

definition deposit :: "mailbox \<Rightarrow> bytes \<Rightarrow> bytes \<Rightarrow> nat \<Rightarrow> nat \<Rightarrow> (deposit_error + unit) \<times> mailbox" where
  "deposit m mid msg now ttl_secs =
     (if max_msg_bytes (policy m) < length msg then (Inl TooLarge, m)
      else let expires = sat_add now (effective_ttl (policy m) ttl_secs)
           in if \<not> hm_contains (boxes m) mid \<and> max_mailboxes (policy m) \<le> length (boxes m)
              then (Inl StoreFull, m)
              else let m1 = drop_expired_box m mid now;
                       cur = (case hm_get (boxes m1) mid of None \<Rightarrow> 0 | Some v \<Rightarrow> length v)
                   in if max_msgs_per_mailbox (policy m1) \<le> cur then (Inl MailboxFull, m1)
                      else let m2 = (if max_total_msgs (policy m1) \<le> total m1
                                        \<or> max_total_bytes (policy m1) < wadd64 (mbytes m1) (length msg)
                                     then snd (prune_expired m1 now) else m1)
                           in if max_total_msgs (policy m2) \<le> total m2 then (Inl StoreFull, m2)
                              else if max_total_bytes (policy m2) < wadd64 (mbytes m2) (length msg)
                              then (Inl StoreFull, m2)
                              else (Inr (), m2\<lparr>mbytes := wadd64 (mbytes m2) (length msg),
                                     boxes := hm_insert mid
                                       ((case hm_get (boxes m2) mid of None \<Rightarrow> [] | Some v \<Rightarrow> v)
                                          @ [\<lparr>sealed = msg, expires_at = expires\<rparr>]) (boxes m2),
                                     total := wadd64 (total m2) 1\<rparr>))"

definition fetch :: "mailbox \<Rightarrow> bytes \<Rightarrow> nat \<Rightarrow> bytes list \<times> mailbox" where
  "fetch m mid now =
     (case hm_get (boxes m) mid of
        None \<Rightarrow> ([], m)
      | Some v \<Rightarrow> (map sealed (live_entries now v),
          m\<lparr>boxes := hm_remove mid (boxes m), total := wsub64 (total m) (length v),
            mbytes := wsub64 (mbytes m) (entries_bytes v)\<rparr>))"

definition pending :: "mailbox \<Rightarrow> bytes \<Rightarrow> nat \<Rightarrow> nat" where
  "pending m mid now = (case hm_get (boxes m) mid of None \<Rightarrow> 0 | Some v \<Rightarrow> length (live_entries now v))"

text \<open>
  The loop of \<open>fetch_batch\<close>: take from the front while the budget allows; the first entry is
  taken whatever its size.
\<close>

fun batch_loop :: "nat \<Rightarrow> bool \<Rightarrow> nat \<Rightarrow> mb_entry list \<Rightarrow> bytes list \<times> nat \<times> mb_entry list" where
  "batch_loop limit first used [] = ([], used, [])"
| "batch_loop limit first used (e # es) =
     (if \<not> first \<and> limit < used + length (sealed e) then ([], used, e # es)
      else let (batch, used', rest) = batch_loop limit False (used + length (sealed e)) es
           in (sealed e # batch, used', rest))"

definition fetch_batch :: "mailbox \<Rightarrow> bytes \<Rightarrow> nat \<Rightarrow> nat \<Rightarrow> (bytes list \<times> bool) \<times> mailbox" where
  "fetch_batch m mid now max_bytes =
     (case hm_get (boxes m) mid of
        None \<Rightarrow> (([], False), m)
      | Some v \<Rightarrow>
          let live = live_entries now v;
              expired = length v - length live;
              expired_bytes = entries_bytes v - entries_bytes live;
              (batch, used, rest) = batch_loop max_bytes True 0 live
          in ((batch, rest \<noteq> []),
              m\<lparr>boxes := (if rest = [] then hm_remove mid (boxes m) else hm_insert mid rest (boxes m)),
                total := wsub64 (total m) (expired + length batch),
                mbytes := wsub64 (mbytes m) (expired_bytes + used)\<rparr>))"

type_synonym snapshot = "(bytes \<times> (bytes \<times> nat) list) list"

definition mailbox_snapshot :: "mailbox \<Rightarrow> snapshot" where
  "mailbox_snapshot m = map (\<lambda>(mid, v). (mid, map (\<lambda>e. (sealed e, expires_at e)) v)) (boxes m)"

fun restore_boxes :: "nat \<Rightarrow> snapshot \<Rightarrow> (bytes, mb_entry list) hashmap \<times> nat \<times> nat
    \<Rightarrow> (bytes, mb_entry list) hashmap \<times> nat \<times> nat" where
  "restore_boxes now [] st = st"
| "restore_boxes now ((mid, entries) # rest) (bx, t, b) =
     (let live = map (\<lambda>(s, x). \<lparr>sealed = s, expires_at = x\<rparr>) (filter (\<lambda>(_, x). now < x) entries)
      in restore_boxes now rest
           (if live \<noteq> [] then (hm_insert mid live bx, wadd64 t (length live), wadd64 b (entries_bytes live))
            else (bx, t, b)))"

definition from_snapshot :: "mailbox_policy \<Rightarrow> snapshot \<Rightarrow> nat \<Rightarrow> mailbox" where
  "from_snapshot p snap now =
     (let (bx, t, b) = restore_boxes now snap ([], 0, 0)
      in \<lparr>boxes = bx, policy = p, total = t, mbytes = b\<rparr>)"

end
