(* ===== verification/Mailbox_Correct.thy ===== *)
theory Mailbox_Correct
  imports Mailbox
begin

text \<open>
  Correctness of the mailbox. The abstract view of a mailbox is the list of messages that have
  not expired, oldest first; every operation of the store refines an operation on that view.
  The counters are exact and the quotas hold in every state the operations reach.
\<close>

section \<open>The abstract view\<close>

definition box :: "mailbox \<Rightarrow> bytes \<Rightarrow> mb_entry list" where
  "box m mid = (case hm_get (boxes m) mid of None \<Rightarrow> [] | Some v \<Rightarrow> v)"

definition view :: "mailbox \<Rightarrow> bytes \<Rightarrow> nat \<Rightarrow> bytes list" where
  "view m mid now = map sealed (live_entries now (box m mid))"

lemma live_live [simp]: "now \<le> later \<Longrightarrow> live_entries later (live_entries now v) = live_entries later v"
  by (induction v) (auto simp: live_entries_def)

lemma live_Nil [simp]: "live_entries now [] = []"
  by (simp add: live_entries_def)

lemma live_append [simp]: "live_entries now (v @ w) = live_entries now v @ live_entries now w"
  by (simp add: live_entries_def)

lemma length_live: "length (live_entries now v) \<le> length v"
  by (simp add: live_entries_def)

lemma entries_bytes_simps [simp]:
  "entries_bytes [] = 0" "entries_bytes (e # v) = length (sealed e) + entries_bytes v"
  "entries_bytes (v @ w) = entries_bytes v + entries_bytes w"
  by (simp_all add: entries_bytes_def)

lemma entries_bytes_live: "entries_bytes (live_entries now v) \<le> entries_bytes v"
  by (induction v) (auto simp: live_entries_def)

section \<open>Invariant\<close>

definition counters_ok :: "mailbox \<Rightarrow> bool" where
  "counters_ok m \<longleftrightarrow> hm_wf (boxes m) \<and> total m = hm_sum length (boxes m)
     \<and> mbytes m = hm_sum entries_bytes (boxes m)"

definition policy_ok :: "mailbox_policy \<Rightarrow> bool" where
  "policy_ok p \<longleftrightarrow> max_total_msgs p < 2 ^ 64 \<and> max_total_bytes p + max_msg_bytes p < 2 ^ 64"

definition box_ok :: "mailbox_policy \<Rightarrow> mb_entry list \<Rightarrow> bool" where
  "box_ok p v \<longleftrightarrow> length v \<le> max_msgs_per_mailbox p \<and> (\<forall>e \<in> set v. length (sealed e) \<le> max_msg_bytes p)"

definition mailbox_inv :: "mailbox \<Rightarrow> bool" where
  "mailbox_inv m \<longleftrightarrow> counters_ok m \<and> policy_ok (policy m)
     \<and> length (boxes m) \<le> max_mailboxes (policy m) \<and> total m \<le> max_total_msgs (policy m)
     \<and> mbytes m \<le> max_total_bytes (policy m) \<and> (\<forall>mid. box_ok (policy m) (box m mid))"

lemma box_ok_live: "box_ok p v \<Longrightarrow> box_ok p (live_entries now v)"
  using le_trans [OF length_live [of now v]] by (auto simp: box_ok_def) (auto simp: live_entries_def)

lemma inv_bounds:
  assumes "mailbox_inv m"
  shows "total m < 2 ^ 64" "mbytes m < 2 ^ 64"
  using assms by (simp_all add: mailbox_inv_def policy_ok_def)

section \<open>Each operation on the view and on the invariant\<close>

subsection \<open>Pruning\<close>

definition pruned :: "nat \<Rightarrow> (bytes, mb_entry list) hashmap \<Rightarrow> (bytes, mb_entry list) hashmap" where
  "pruned now bx = filter (\<lambda>(_, v). v \<noteq> []) (map (\<lambda>(k, v). (k, live_entries now v)) bx)"

lemma pruned_wf: "hm_wf bx \<Longrightarrow> hm_wf (pruned now bx)"
proof -
  assume "hm_wf bx"
  then have "distinct (map fst (map (\<lambda>(k, v). (k, live_entries now v)) bx))"
    by (simp add: hm_wf_def case_prod_beta comp_def)
  then show ?thesis unfolding hm_wf_def pruned_def by (rule distinct_map_filter)
qed

lemma pruned_get:
  assumes "hm_wf bx"
  shows "hm_get (pruned now bx) k = (case hm_get bx k of None \<Rightarrow> None
     | Some v \<Rightarrow> if live_entries now v = [] then None else Some (live_entries now v))"
proof -
  let ?m = "map (\<lambda>(k, v). (k, live_entries now v)) bx"
  have wf: "hm_wf ?m" using assms by (simp add: hm_wf_def case_prod_beta comp_def)
  have "hm_get ?m k = map_option (live_entries now) (hm_get bx k)"
    by (simp add: hm_get_def map_of_map)
  moreover have "pruned now bx = hm_retain (\<lambda>_ v. v \<noteq> []) ?m" by (simp add: pruned_def hm_retain_def)
  ultimately show ?thesis using hm_get_retain [OF wf] by (simp split: option.splits)
qed

lemma length_pruned: "length (pruned now bx) \<le> length bx"
  unfolding pruned_def using length_filter_le by (metis length_map)

lemma pruned_room:
  assumes "hm_wf bx" "hm_contains bx mid"
  shows "hm_contains (pruned now bx) mid \<or> length (pruned now bx) < length bx"
proof (cases "hm_contains (pruned now bx) mid")
  case False
  from assms(2) obtain v where v: "hm_get bx mid = Some v" by (auto simp: hm_contains_def)
  with False have "live_entries now v = []"
    by (auto simp: hm_contains_def pruned_get [OF assms(1)] split: if_splits)
  moreover have "(mid, live_entries now v) \<in> set (map (\<lambda>(k, v). (k, live_entries now v)) bx)"
    using hm_get_SomeD [OF v] by force
  ultimately have "length (pruned now bx) < length (map (\<lambda>(k, v). (k, live_entries now v)) bx)"
    unfolding pruned_def by (intro length_filter_less [of "(mid, [])"]) auto
  then show ?thesis by simp
qed simp

lemma pruned_sum:
  assumes "f [] = 0" "\<And>v. f (live_entries now v) \<le> f v"
  shows "hm_sum f (pruned now bx) + sum_list (map (\<lambda>(_, v). f v - f (live_entries now v)) bx) = hm_sum f bx"
proof (induction bx)
  case Nil
  then show ?case by (simp add: pruned_def)
next
  case (Cons kv bx)
  obtain k v where kv: "kv = (k, v)" by force
  have "f (live_entries now v) + (f v - f (live_entries now v)) = f v" using assms(2) by simp
  with Cons show ?case by (auto simp: kv pruned_def hm_sum_def assms(1))
qed

lemma prune_fields:
  assumes "counters_ok m" "total m < 2 ^ 64" "mbytes m < 2 ^ 64" "prune_expired m now = (n, m')"
  shows "boxes m' = pruned now (boxes m)" "policy m' = policy m" "counters_ok m'"
    "total m' \<le> total m" "mbytes m' \<le> mbytes m"
proof -
  have sums: "hm_sum length (pruned now (boxes m))
      + sum_list (map (\<lambda>(_, v). length v - length (live_entries now v)) (boxes m)) = total m"
    "hm_sum entries_bytes (pruned now (boxes m))
      + sum_list (map (\<lambda>(_, v). entries_bytes v - entries_bytes (live_entries now v)) (boxes m)) = mbytes m"
    using assms(1) pruned_sum [of length now "boxes m"] pruned_sum [of entries_bytes now "boxes m"]
    by (simp_all add: counters_ok_def length_live entries_bytes_live)
  have m': "m' = m\<lparr>boxes := pruned now (boxes m),
      total := hm_sum length (pruned now (boxes m)), mbytes := hm_sum entries_bytes (pruned now (boxes m))\<rparr>"
    using assms(2-4) sums by (auto simp: prune_expired_def pruned_def Let_def wsub64_exact)
  show "boxes m' = pruned now (boxes m)" "policy m' = policy m" by (simp_all add: m')
  show "counters_ok m'" using assms(1) by (simp add: m' counters_ok_def pruned_wf)
  show "total m' \<le> total m" "mbytes m' \<le> mbytes m" using sums by (simp_all add: m')
qed

lemma prune_box:
  assumes "mailbox_inv m" "prune_expired m now = (n, m')"
  shows "box m' mid = live_entries now (box m mid)"
proof -
  have wf: "hm_wf (boxes m)" "counters_ok m" using assms(1) by (simp_all add: mailbox_inv_def counters_ok_def)
  show ?thesis
    using prune_fields(1) [OF wf(2) inv_bounds [OF assms(1)] assms(2)] pruned_get [OF wf(1)]
    by (auto simp: box_def split: option.splits)
qed

lemma prune_inv:
  assumes "mailbox_inv m" "prune_expired m now = (n, m')"
  shows "mailbox_inv m'"
proof -
  have c: "counters_ok m" using assms(1) by (simp add: mailbox_inv_def)
  note p = prune_fields [OF c inv_bounds [OF assms(1)] assms(2)]
  with length_pruned [of now "boxes m"] assms show ?thesis
    by (auto simp: mailbox_inv_def prune_box [OF assms] box_ok_live)
qed

subsection \<open>Depositing\<close>

lemma drop_expired_props:
  fixes mid :: bytes and now :: nat
  assumes "mailbox_inv m"
  defines "m1 \<equiv> drop_expired_box m mid now"
  shows "mailbox_inv m1" "policy m1 = policy m"
    "box m1 mid' = (if mid' = mid then live_entries now (box m mid) else box m mid')"
    "hm_contains (boxes m1) mid' = hm_contains (boxes m) mid'" "length (boxes m1) = length (boxes m)"
proof -
  have wf: "hm_wf (boxes m)" using assms(1) by (simp add: mailbox_inv_def counters_ok_def)
  show pol: "policy m1 = policy m"
    by (simp add: m1_def drop_expired_box_def Let_def split: option.splits)
  show bx: "box m1 mid' = (if mid' = mid then live_entries now (box m mid) else box m mid')" for mid'
    by (auto simp: m1_def drop_expired_box_def box_def Let_def hm_simps split: option.splits)
  show "hm_contains (boxes m1) mid' = hm_contains (boxes m) mid'" for mid'
    by (auto simp: m1_def drop_expired_box_def hm_contains_def Let_def hm_simps split: option.splits)
  show len: "length (boxes m1) = length (boxes m)"
    using hm.len_insert_old [OF wf]
    by (auto simp: m1_def drop_expired_box_def Let_def split: option.splits)
  show "mailbox_inv m1"
  proof (cases "hm_get (boxes m) mid")
    case None
    then show ?thesis using assms(1) by (simp add: m1_def drop_expired_box_def)
  next
    case (Some v)
    let ?v = "live_entries now v"
    have s: "hm_sum length (hm_insert mid ?v (boxes m)) + length v = total m + length ?v"
      "hm_sum entries_bytes (hm_insert mid ?v (boxes m)) + entries_bytes v = mbytes m + entries_bytes ?v"
      using hm_sum_insert_old [OF Some, of length ?v] hm_sum_insert_old [OF Some, of entries_bytes ?v] assms(1)
      by (simp_all add: mailbox_inv_def counters_ok_def)
    have le: "length v \<le> total m" "entries_bytes v \<le> mbytes m"
      using hm_sum_ge [OF Some, of length] hm_sum_ge [OF Some, of entries_bytes] assms(1)
      by (simp_all add: mailbox_inv_def counters_ok_def)
    have m1: "m1 = m\<lparr>boxes := hm_insert mid ?v (boxes m), total := total m - (length v - length ?v),
        mbytes := mbytes m - (entries_bytes v - entries_bytes ?v)\<rparr>"
      using Some le inv_bounds [OF assms(1)]
      by (simp add: m1_def drop_expired_box_def Let_def wsub64_exact)
    have "hm_sum length (hm_insert mid ?v (boxes m)) = total m - (length v - length ?v)"
      "hm_sum entries_bytes (hm_insert mid ?v (boxes m)) = mbytes m - (entries_bytes v - entries_bytes ?v)"
      using s le length_live [of now v] entries_bytes_live [of now v] by linarith+
    then have "counters_ok m1" using wf by (simp add: m1 counters_ok_def hm_simps)
    then show ?thesis
      using assms(1) len pol by (auto simp: mailbox_inv_def bx box_ok_live m1 [symmetric])
        (auto simp: m1)
  qed
qed

text \<open>The last step of \<open>deposit\<close>, once every check has passed.\<close>

lemma push_props:
  fixes mid :: bytes and x :: nat
  assumes "mailbox_inv m" "length msg \<le> max_msg_bytes (policy m)"
    "hm_contains (boxes m) mid \<or> length (boxes m) < max_mailboxes (policy m)"
    "length (box m mid) < max_msgs_per_mailbox (policy m)" "total m < max_total_msgs (policy m)"
    "mbytes m + length msg \<le> max_total_bytes (policy m)"
  defines "m' \<equiv> m\<lparr>mbytes := wadd64 (mbytes m) (length msg),
     boxes := hm_insert mid ((case hm_get (boxes m) mid of None \<Rightarrow> [] | Some v \<Rightarrow> v) @ [\<lparr>sealed = msg, expires_at = x\<rparr>]) (boxes m),
     total := wadd64 (total m) 1\<rparr>"
  shows "mailbox_inv m'" "box m' mid' = box m mid' @ (if mid' = mid then [\<lparr>sealed = msg, expires_at = x\<rparr>] else [])"
proof -
  let ?e = "\<lparr>sealed = msg, expires_at = x\<rparr>"
  have wf: "hm_wf (boxes m)" and cnt: "counters_ok m" using assms(1) by (simp_all add: mailbox_inv_def counters_ok_def)
  have pol: "max_total_msgs (policy m) < 2 ^ 64" "max_total_bytes (policy m) < 2 ^ 64"
    using assms(1) by (simp_all add: mailbox_inv_def policy_ok_def)
  have m': "m' = m\<lparr>mbytes := mbytes m + length msg, boxes := hm_insert mid (box m mid @ [?e]) (boxes m),
      total := total m + 1\<rparr>"
    unfolding m'_def box_def [symmetric] using assms(5,6) pol by (simp add: wadd64_exact)
  show bx: "box m' mid' = box m mid' @ (if mid' = mid then [?e] else [])" for mid'
    by (auto simp: m' box_def hm_simps)
  have "hm_sum length (hm_insert mid (box m mid @ [?e]) (boxes m)) = hm_sum length (boxes m) + 1
      \<and> hm_sum entries_bytes (hm_insert mid (box m mid @ [?e]) (boxes m)) = hm_sum entries_bytes (boxes m) + length msg"
  proof (cases "hm_get (boxes m) mid")
    case None
    then show ?thesis by (simp add: hm_sum_insert_new box_def)
  next
    case (Some v)
    then show ?thesis
      using hm_sum_insert_old [OF Some, of length "v @ [?e]"] hm_sum_insert_old [OF Some, of entries_bytes "v @ [?e]"]
      by (simp add: box_def)
  qed
  then have c': "counters_ok m'" using cnt by (simp add: m' counters_ok_def hm_simps)
  have "length (boxes m') \<le> max_mailboxes (policy m)"
    using assms(1,3) hm.len_insert_new [OF wf] hm.len_insert_old [OF wf]
    by (cases "hm_get (boxes m) mid") (auto simp: m' hm_contains_def mailbox_inv_def)
  moreover have "box_ok (policy m) (box m' i)" for i
    using assms(1,2,4) by (auto simp: bx mailbox_inv_def box_ok_def)
  ultimately show "mailbox_inv m'" using c' assms(1,5,6) by (auto simp: m' mailbox_inv_def)
qed

text \<open>
  The state a deposit works on after its clean-up: expired entries may be gone, nothing else.
\<close>

definition cleaned :: "nat \<Rightarrow> mailbox \<Rightarrow> mailbox \<Rightarrow> bool" where
  "cleaned now m m' \<longleftrightarrow> mailbox_inv m' \<and> policy m' = policy m
     \<and> (\<forall>mid later. now \<le> later \<longrightarrow> view m' mid later = view m mid later)"

lemma cleaned_refl: "mailbox_inv m \<Longrightarrow> cleaned now m m"
  by (simp add: cleaned_def)

lemma cleaned_trans: "cleaned now m m' \<Longrightarrow> cleaned now m' m'' \<Longrightarrow> cleaned now m m''"
  by (simp add: cleaned_def)

lemma cleaned_drop: "mailbox_inv m \<Longrightarrow> cleaned now m (drop_expired_box m mid now)"
  using drop_expired_props [of m] by (auto simp: cleaned_def view_def)

lemma cleaned_prune: "mailbox_inv m \<Longrightarrow> cleaned now m (snd (prune_expired m now))"
proof -
  assume inv: "mailbox_inv m"
  obtain n m' where p: "prune_expired m now = (n, m')" by force
  have "policy m' = policy m"
    using prune_fields(2) [OF _ inv_bounds [OF inv] p] inv by (simp add: mailbox_inv_def)
  then show ?thesis
    using prune_inv [OF inv p] prune_box [OF inv p] by (simp add: cleaned_def view_def p)
qed

lemma deposit_cases:
  assumes "mailbox_inv m" "deposit m mid msg now ttl = (r, m')"
  shows "\<exists>m2. cleaned now m m2 \<and>
    ((\<exists>e. r = Inl e \<and> m' = m2) \<or>
     (r = Inr () \<and> mailbox_inv m' \<and> policy m' = policy m
      \<and> (\<forall>mid'. box m' mid' = box m2 mid' @ (if mid' = mid
           then [\<lparr>sealed = msg, expires_at = sat_add now (effective_ttl (policy m) ttl)\<rparr>] else []))))"
proof -
  define m1 where "m1 = drop_expired_box m mid now"
  define m2 where "m2 = (if max_total_msgs (policy m1) \<le> total m1
      \<or> max_total_bytes (policy m1) < wadd64 (mbytes m1) (length msg)
      then snd (prune_expired m1 now) else m1)"
  have c1: "cleaned now m m1" unfolding m1_def using assms(1) by (rule cleaned_drop)
  have i1: "mailbox_inv m1" "policy m1 = policy m" using c1 by (simp_all add: cleaned_def)
  have c12: "cleaned now m1 m2"
    unfolding m2_def using i1(1) by (simp add: cleaned_prune cleaned_refl)
  have c2: "cleaned now m m2" using c1 c12 by (rule cleaned_trans)
  have i2: "mailbox_inv m2" "policy m2 = policy m" using c2 by (simp_all add: cleaned_def)
  have cur: "(case hm_get (boxes m1) mid of None \<Rightarrow> 0 | Some v \<Rightarrow> length v) = length (box m1 mid)"
    by (auto simp: box_def split: option.splits)
  note d = assms(2) [unfolded deposit_def Let_def, folded m1_def, unfolded cur, folded m2_def]
  show ?thesis
  proof (cases "r = Inr ()")
    case False
    then have "m' = m \<or> m' = m1 \<or> m' = m2" using d by (auto split: if_splits)
    moreover from False obtain e where "r = Inl e" by (cases r) auto
    ultimately show ?thesis using cleaned_refl [OF assms(1)] c1 c2 by blast
  next
    case True
    with d have fits: "length msg \<le> max_msg_bytes (policy m)"
      "hm_contains (boxes m) mid \<or> length (boxes m) < max_mailboxes (policy m)"
      "length (box m1 mid) < max_msgs_per_mailbox (policy m)"
      "total m2 < max_total_msgs (policy m)" "\<not> max_total_bytes (policy m) < wadd64 (mbytes m2) (length msg)"
      and m': "m' = m2\<lparr>mbytes := wadd64 (mbytes m2) (length msg),
         boxes := hm_insert mid ((case hm_get (boxes m2) mid of None \<Rightarrow> [] | Some v \<Rightarrow> v)
           @ [\<lparr>sealed = msg, expires_at = sat_add now (effective_ttl (policy m) ttl)\<rparr>]) (boxes m2),
         total := wadd64 (total m2) 1\<rparr>"
      by (auto simp: i1 i2 not_le not_less split: if_splits)
    have bytes: "mbytes m2 + length msg < 2 ^ 64"
      using i2 fits(1) by (simp add: mailbox_inv_def policy_ok_def)
    have b2: "length (box m2 mid) \<le> length (box m1 mid)"
      using prune_box [OF i1(1) prod.collapse [symmetric], of now mid] length_live [of now "box m1 mid"]
      by (simp add: m2_def)
    have l1: "length (boxes m1) = length (boxes m)" "hm_contains (boxes m1) mid = hm_contains (boxes m) mid"
      using drop_expired_props(4,5) [OF assms(1)] by (simp_all add: m1_def)
    have room: "hm_contains (boxes m2) mid \<or> length (boxes m2) < max_mailboxes (policy m)"
    proof (cases "m2 = m1")
      case True
      then show ?thesis using fits(2) l1 by simp
    next
      case False
      then have p: "m2 = snd (prune_expired m1 now)" by (auto simp: m2_def)
      have bx: "boxes m2 = pruned now (boxes m1)"
        using prune_fields(1) [OF _ inv_bounds [OF i1(1)], of now] i1(1) p
        by (metis mailbox_inv_def prod.collapse)
      have wf1: "hm_wf (boxes m1)" using i1(1) by (simp add: mailbox_inv_def counters_ok_def)
      have "length (boxes m) \<le> max_mailboxes (policy m)" using assms(1) by (simp add: mailbox_inv_def)
      then show ?thesis
        using pruned_room [OF wf1, of mid now] length_pruned [of now "boxes m1"] bx fits(2) l1 by auto
    qed
    note push = push_props [OF i2(1), of msg mid, unfolded i2(2), OF fits(1) room _ fits(4), of
        "sat_add now (effective_ttl (policy m) ttl)"]
    have "mailbox_inv m' \<and> (\<forall>mid'. box m' mid' = box m2 mid' @ (if mid' = mid
           then [\<lparr>sealed = msg, expires_at = sat_add now (effective_ttl (policy m) ttl)\<rparr>] else []))"
      using push fits(3,5) b2 bytes by (simp add: m' wadd64_exact)
    moreover have "policy m' = policy m" by (simp add: m' i2)
    ultimately show ?thesis using c2 True by blast
  qed
qed

text \<open>
  C17: depositing refines appending to the abstract mailbox. In every reachable state, a deposit
  that succeeds adds exactly the deposited message at the end of the recipient's unexpired
  messages until its expiry time, a deposit that fails adds nothing, and no other mailbox
  changes, whatever clean-up of expired entries happened on the way.
\<close>

theorem deposit_refines:
  assumes "mailbox_inv m" and "deposit m mid msg now ttl = (r, m')" and "now \<le> later"
  shows "view m' mid' later = view m mid' later
    @ (if r = Inr () \<and> mid' = mid \<and> later < sat_add now (effective_ttl (policy m) ttl) then [msg] else [])"
proof -
  from deposit_cases [OF assms(1,2)] obtain m2 where c: "cleaned now m m2" and
    d: "(\<exists>e. r = Inl e \<and> m' = m2) \<or> (r = Inr () \<and> (\<forall>mid'. box m' mid' = box m2 mid' @ (if mid' = mid
           then [\<lparr>sealed = msg, expires_at = sat_add now (effective_ttl (policy m) ttl)\<rparr>] else [])))"
    by blast
  have v: "view m2 mid' later = view m mid' later" using c assms(3) by (simp add: cleaned_def)
  from d show ?thesis
  proof
    assume "\<exists>e. r = Inl e \<and> m' = m2"
    with v show ?thesis by auto
  next
    assume "r = Inr () \<and> (\<forall>mid'. box m' mid' = box m2 mid' @ (if mid' = mid
           then [\<lparr>sealed = msg, expires_at = sat_add now (effective_ttl (policy m) ttl)\<rparr>] else []))"
    then show ?thesis using v by (auto simp: view_def live_entries_def)
  qed
qed

lemma mailbox_inv_new: "policy_ok p \<Longrightarrow> mailbox_inv (mailbox_new p)"
  by (auto simp: mailbox_inv_def mailbox_new_def counters_ok_def policy_ok_def box_ok_def box_def
      hm_simps Let_def)

lemma policy_default_ok: "policy_ok policy_default"
  by (simp add: policy_ok_def policy_default_def)

theorem deposit_refines_witness:
  "view (snd (deposit (mailbox_new policy_default) [1] [9, 9] 1000 60)) [1] 1059 = [[9, 9]]
   \<and> view (snd (deposit (mailbox_new policy_default) [1] [9, 9] 1000 60)) [1] 1060 = []"
proof -
  let ?d = "deposit (mailbox_new policy_default) [1] [9, 9] 1000 60"
  have inv: "mailbox_inv (mailbox_new policy_default)" using policy_default_ok by (rule mailbox_inv_new)
  have p: "policy (mailbox_new policy_default) = policy_default"
    by (simp add: mailbox_new_def policy_default_def MAX_MAILBOX_FRAME_def sat_sub_def)
  have r: "?d = (Inr (), snd ?d)"
    by (simp add: deposit_def drop_expired_box_def p, simp add: mailbox_new_def policy_default_def
        MAX_MAILBOX_FRAME_def sat_sub_def wadd64_def hm_simps hm_contains_def Let_def)
  have x: "sat_add 1000 (effective_ttl (policy (mailbox_new policy_default)) 60) = 1060"
    unfolding p by (simp add: policy_default_def effective_ttl_def sat_add_def u64_max_def DEFAULT_MAX_TTL_SECS_def)
  have e: "view (mailbox_new policy_default) [1] t = []" for t
    by (simp add: view_def box_def mailbox_new_def hm_simps Let_def)
  from deposit_refines [OF inv r, of 1059 "[1]"] deposit_refines [OF inv r, of 1060 "[1]"] x e
  show ?thesis by simp
qed

subsection \<open>Fetching\<close>

lemma remove_props:
  assumes "mailbox_inv m" "hm_get (boxes m) mid = Some v"
  defines "m' \<equiv> m\<lparr>boxes := hm_remove mid (boxes m), total := wsub64 (total m) (length v),
            mbytes := wsub64 (mbytes m) (entries_bytes v)\<rparr>"
  shows "mailbox_inv m'" "box m' mid' = (if mid' = mid then [] else box m mid')"
proof -
  have wf: "hm_wf (boxes m)" using assms(1) by (simp add: mailbox_inv_def counters_ok_def)
  have s: "hm_sum length (hm_remove mid (boxes m)) + length v = total m"
    "hm_sum entries_bytes (hm_remove mid (boxes m)) + entries_bytes v = mbytes m"
    using hm_sum_remove [OF wf assms(2)] assms(1) by (simp_all add: mailbox_inv_def counters_ok_def)
  have m': "m' = m\<lparr>boxes := hm_remove mid (boxes m), total := hm_sum length (hm_remove mid (boxes m)),
            mbytes := hm_sum entries_bytes (hm_remove mid (boxes m))\<rparr>"
    unfolding m'_def using s inv_bounds [OF assms(1)] by (simp add: wsub64_exact)
  show bx: "box m' mid' = (if mid' = mid then [] else box m mid')" for mid'
    by (simp add: m' box_def hm_simps)
  have "length (hm_remove mid (boxes m)) \<le> length (boxes m)" using wf by (rule hm.len_remove_le)
  moreover have "counters_ok m'" using wf by (simp add: m' counters_ok_def hm_simps)
  ultimately show "mailbox_inv m'"
    using assms(1) s bx by (auto simp: m' [symmetric] mailbox_inv_def box_ok_def) (auto simp: m')
qed

lemma fetch_props:
  assumes "mailbox_inv m" "fetch m mid now = (msgs, m')"
  shows "msgs = view m mid now" "mailbox_inv m'" "box m' mid' = (if mid' = mid then [] else box m mid')"
proof -
  have "msgs = view m mid now \<and> mailbox_inv m' \<and> (\<forall>mid'. box m' mid' = (if mid' = mid then [] else box m mid'))"
  proof (cases "hm_get (boxes m) mid")
    case None
    then show ?thesis using assms by (auto simp: fetch_def view_def box_def)
  next
    case (Some v)
    then show ?thesis
      using remove_props [OF assms(1) Some] assms(2) by (auto simp: fetch_def view_def box_def)
  qed
  then show "msgs = view m mid now" "mailbox_inv m'" "box m' mid' = (if mid' = mid then [] else box m mid')"
    by simp_all
qed

lemma batch_loop_props:
  "batch_loop limit first used es = (batch, used', rest) \<Longrightarrow>
     \<exists>ts. es = ts @ rest \<and> batch = map sealed ts \<and> used' = used + entries_bytes ts
       \<and> (first \<and> es \<noteq> [] \<longrightarrow> ts \<noteq> []) \<and> (first \<longrightarrow> used' \<le> max (used + limit) (used + length (concat (take 1 batch))))
       \<and> (\<not> first \<and> used \<le> limit \<longrightarrow> used' \<le> limit)"
proof (induction limit first used es arbitrary: batch used' rest rule: batch_loop.induct)
  case (1 limit first used)
  then show ?case by simp
next
  case (2 limit first used e es)
  show ?case
  proof (cases "\<not> first \<and> limit < used + length (sealed e)")
    case True
    with 2(2) show ?thesis by auto
  next
    case False
    obtain b u r where l: "batch_loop limit False (used + length (sealed e)) es = (b, u, r)"
      using prod_cases3 by blast
    with False 2(2) have o: "batch = sealed e # b" "used' = u" "rest = r" by auto
    from 2(1) [OF False l] obtain ts where ts: "es = ts @ r" "b = map sealed ts"
      "u = used + length (sealed e) + entries_bytes ts"
      "used + length (sealed e) \<le> limit \<longrightarrow> u \<le> limit" by auto
    have big: "\<not> used + length (sealed e) \<le> limit \<Longrightarrow> u = used + length (sealed e)"
      using l by (cases es) (auto split: if_splits prod.splits)
    show ?thesis
      using ts o False big by (intro exI [of _ "e # ts"]) (auto simp: max_def)
  qed
qed

text \<open>Replacing a mailbox by a suffix of its unexpired entries, as \<open>fetch_batch\<close> does.\<close>

lemma keep_rest_props:
  assumes "mailbox_inv m" "hm_get (boxes m) mid = Some v" "live_entries now v = ts @ rest"
  defines "m' \<equiv> m\<lparr>boxes := (if rest = [] then hm_remove mid (boxes m) else hm_insert mid rest (boxes m)),
     total := wsub64 (total m) (length v - length (live_entries now v) + length ts),
     mbytes := wsub64 (mbytes m) (entries_bytes v - entries_bytes (live_entries now v) + entries_bytes ts)\<rparr>"
  shows "mailbox_inv m'" "box m' mid' = (if mid' = mid then rest else box m mid')"
proof -
  let ?bx = "if rest = [] then hm_remove mid (boxes m) else hm_insert mid rest (boxes m)"
  have wf: "hm_wf (boxes m)" using assms(1) by (simp add: mailbox_inv_def counters_ok_def)
  have tot: "total m = hm_sum length (boxes m)" "mbytes m = hm_sum entries_bytes (boxes m)"
    using assms(1) by (simp_all add: mailbox_inv_def counters_ok_def)
  have s: "hm_sum length ?bx + length v = total m + length rest"
    "hm_sum entries_bytes ?bx + entries_bytes v = mbytes m + entries_bytes rest"
    using hm_sum_remove [OF wf assms(2)] hm_sum_insert_old [OF assms(2)] by (simp_all add: tot)
  have le: "length v \<le> total m" "entries_bytes v \<le> mbytes m"
    using hm_sum_ge [OF assms(2)] by (simp_all add: tot)
  have lv: "length ts + length rest \<le> length v" "entries_bytes ts + entries_bytes rest \<le> entries_bytes v"
    using length_live [of now v] entries_bytes_live [of now v] by (simp_all add: assms(3))
  have m': "m' = m\<lparr>boxes := ?bx, total := hm_sum length ?bx, mbytes := hm_sum entries_bytes ?bx\<rparr>"
    unfolding m'_def assms(3) using s le lv inv_bounds [OF assms(1)] by (simp add: wsub64_exact)
  show bx: "box m' mid' = (if mid' = mid then rest else box m mid')" for mid'
    by (simp add: m' box_def hm_simps)
  have "set rest \<subseteq> set v" using arg_cong [OF assms(3), of set] by (auto simp: live_entries_def)
  moreover have "box_ok (policy m) v" using assms(1,2) by (auto simp: mailbox_inv_def box_def split: option.splits)
  ultimately have "box_ok (policy m) rest" using lv(1) by (auto simp: box_ok_def)
  moreover have "length ?bx \<le> length (boxes m)"
    using hm.len_remove_le [OF wf] hm.len_insert_old [OF wf] assms(2) by simp
  moreover have "counters_ok m'" using wf by (simp add: m' counters_ok_def hm_simps)
  moreover have "total m' \<le> total m" "mbytes m' \<le> mbytes m" using s lv by (simp_all add: m')
  moreover have "policy m' = policy m" "boxes m' = ?bx" by (simp_all add: m')
  ultimately show "mailbox_inv m'" using assms(1) bx by (auto simp: mailbox_inv_def)
qed

lemma fetch_batch_props:
  assumes "mailbox_inv m" "fetch_batch m mid now lim = ((batch, again), m')"
  shows "mailbox_inv m'" "policy m' = policy m" "view m mid now = batch @ view m' mid now"
    "again \<longleftrightarrow> view m' mid now \<noteq> []" "view m mid now \<noteq> [] \<Longrightarrow> batch \<noteq> []"
    "mid' \<noteq> mid \<Longrightarrow> box m' mid' = box m mid'"
    "length (concat batch) \<le> max lim (length (concat (take 1 batch)))"
proof -
  have "mailbox_inv m' \<and> policy m' = policy m \<and> view m mid now = batch @ view m' mid now
     \<and> (again \<longleftrightarrow> view m' mid now \<noteq> []) \<and> (view m mid now \<noteq> [] \<longrightarrow> batch \<noteq> [])
     \<and> (\<forall>mid'. mid' \<noteq> mid \<longrightarrow> box m' mid' = box m mid')
     \<and> length (concat batch) \<le> max lim (length (concat (take 1 batch)))"
  proof (cases "hm_get (boxes m) mid")
    case None
    then show ?thesis using assms by (auto simp: fetch_batch_def view_def box_def)
  next
    case (Some v)
    obtain b u r where l: "batch_loop lim True 0 (live_entries now v) = (b, u, r)"
      using prod_cases3 by blast
    obtain ts where ts: "live_entries now v = ts @ r" "b = map sealed ts" "u = entries_bytes ts"
      "live_entries now v \<noteq> [] \<longrightarrow> ts \<noteq> []" "u \<le> max lim (length (concat (take 1 b)))"
      using batch_loop_props [OF l] by auto
    have o: "batch = b" "again \<longleftrightarrow> r \<noteq> []" and m': "m' = m\<lparr>boxes := (if r = [] then hm_remove mid (boxes m)
          else hm_insert mid r (boxes m)),
       total := wsub64 (total m) (length v - length (live_entries now v) + length ts),
       mbytes := wsub64 (mbytes m) (entries_bytes v - entries_bytes (live_entries now v) + entries_bytes ts)\<rparr>"
      using assms(2) Some l ts(2,3) by (auto simp: fetch_batch_def Let_def)
    note k = keep_rest_props [OF assms(1) Some ts(1), folded m']
    have lr: "live_entries now r = r"
      using arg_cong [OF ts(1), of set] by (auto simp: live_entries_def filter_id_conv)
    have vm: "view m mid now = map sealed (ts @ r)" using Some by (simp add: view_def box_def ts(1) [symmetric])
    have vm': "view m' mid now = map sealed r" by (simp add: view_def k(2) lr)
    have len: "length (concat (map sealed ts)) = entries_bytes ts"
      by (simp add: length_concat entries_bytes_def comp_def)
    show ?thesis using k vm vm' o ts len by (auto simp: m')
  qed
  then show "mailbox_inv m'" "policy m' = policy m" "view m mid now = batch @ view m' mid now"
    "again \<longleftrightarrow> view m' mid now \<noteq> []" "view m mid now \<noteq> [] \<Longrightarrow> batch \<noteq> []"
    "mid' \<noteq> mid \<Longrightarrow> box m' mid' = box m mid'"
    "length (concat batch) \<le> max lim (length (concat (take 1 batch)))" by blast+
qed

section \<open>Sequences of operations\<close>

text \<open>The operations of the store, to speak of every order in which clients can call them.\<close>

datatype mb_op =
    Deposit bytes bytes nat nat
  | Fetch bytes nat
  | FetchBatch bytes nat nat
  | Prune nat

fun run_op :: "mb_op \<Rightarrow> mailbox \<Rightarrow> mailbox" where
  "run_op (Deposit mid msg now ttl) m = snd (deposit m mid msg now ttl)"
| "run_op (Fetch mid now) m = snd (fetch m mid now)"
| "run_op (FetchBatch mid now lim) m = snd (fetch_batch m mid now lim)"
| "run_op (Prune now) m = snd (prune_expired m now)"

lemma mailbox_inv_deposit: "mailbox_inv m \<Longrightarrow> mailbox_inv (snd (deposit m mid msg now ttl))"
proof -
  assume inv: "mailbox_inv m"
  obtain r m' where d: "deposit m mid msg now ttl = (r, m')" by force
  from deposit_cases [OF inv d] have "mailbox_inv m'" by (auto simp: cleaned_def)
  with d show ?thesis by simp
qed

lemma mailbox_inv_batch: "mailbox_inv m \<Longrightarrow> mailbox_inv (snd (fetch_batch m mid now lim))"
proof -
  assume inv: "mailbox_inv m"
  obtain b a m' where d: "fetch_batch m mid now lim = ((b, a), m')" by (metis prod.collapse)
  from fetch_batch_props(1) [OF inv d] d show ?thesis by simp
qed

lemma run_op_inv: "mailbox_inv m \<Longrightarrow> mailbox_inv (run_op opn m)"
  by (cases opn) (auto simp: mailbox_inv_deposit mailbox_inv_batch
      intro: fetch_props(2) prune_inv prod.collapse [symmetric])

lemma run_ops_inv: "mailbox_inv m \<Longrightarrow> mailbox_inv (fold run_op ops m)"
  by (induction ops arbitrary: m) (auto simp: run_op_inv)

lemma policy_drop [simp]: "policy (drop_expired_box m mid now) = policy m"
  by (simp add: drop_expired_box_def Let_def split: option.splits)

lemma policy_prune [simp]: "policy (snd (prune_expired m now)) = policy m"
  by (simp add: prune_expired_def Let_def)

lemma policy_deposit [simp]: "policy (snd (deposit m mid msg now ttl)) = policy m"
  by (simp add: deposit_def Let_def)

lemma run_op_policy: "policy (run_op opn m) = policy m"
proof (cases opn)
  case (FetchBatch mid now lim)
  then show ?thesis
    by (cases "hm_get (boxes m) mid") (simp_all add: fetch_batch_def Let_def split: prod.splits)
qed (auto simp: fetch_def split: option.splits)

lemma run_ops_policy: "policy (fold run_op ops m) = policy m"
  by (induction ops arbitrary: m) (auto simp: run_op_policy)

text \<open>
  C16: the quotas of the mailbox hold after any sequence of deposits, fetches, batched fetches
  and prunes, in any order and at any times: the number of mailboxes, the number of messages
  in each and in all of them, the size of each message and of all of them stay within the
  policy, and the two running counters equal the real counts, so their unchecked additions and
  subtractions never wrap.
\<close>

theorem mailbox_quotas:
  assumes "policy_ok p"
  shows "let m = fold run_op ops (mailbox_new p) in
      length (boxes m) \<le> max_mailboxes p
    \<and> total m = hm_sum length (boxes m) \<and> total m \<le> max_total_msgs p
    \<and> mbytes m = hm_sum entries_bytes (boxes m) \<and> mbytes m \<le> max_total_bytes p
    \<and> (\<forall>mid v. hm_get (boxes m) mid = Some v \<longrightarrow> length v \<le> max_msgs_per_mailbox p
         \<and> (\<forall>e \<in> set v. length (sealed e) \<le> min (max_msg_bytes p) (MAX_MAILBOX_FRAME - 4096)))"
proof -
  define m where "m = fold run_op ops (mailbox_new p)"
  have inv: "mailbox_inv m" unfolding m_def using assms by (intro run_ops_inv mailbox_inv_new)
  have pol: "policy m = policy (mailbox_new p)" unfolding m_def by (rule run_ops_policy)
  have flds: "max_mailboxes (policy m) = max_mailboxes p" "max_total_msgs (policy m) = max_total_msgs p"
    "max_total_bytes (policy m) = max_total_bytes p" "max_msgs_per_mailbox (policy m) = max_msgs_per_mailbox p"
    "max_msg_bytes (policy m) = min (max_msg_bytes p) (MAX_MAILBOX_FRAME - 4096)"
    unfolding pol by (simp_all add: mailbox_new_def Let_def sat_sub_def)
  have boxk: "box_ok (policy m) v" if "hm_get (boxes m) mid = Some v" for mid v
    using inv that by (auto simp: mailbox_inv_def box_def dest: spec [of _ mid])
  show ?thesis
    unfolding Let_def m_def [symmetric]
    using inv boxk by (auto simp: mailbox_inv_def counters_ok_def box_ok_def flds)
qed

theorem mailbox_quotas_witness:
  "total (fold run_op [Deposit [1] [9, 9] 1000 60, Fetch [1] 1001] (mailbox_new policy_default)) \<le> 1000000"
  using mailbox_quotas [OF policy_default_ok, of "[Deposit [1] [9, 9] 1000 60, Fetch [1] 1001]"]
  by (simp add: Let_def policy_default_def)

text \<open>
  C18: fetching refines taking everything out. \<open>fetch\<close> returns exactly the unexpired messages
  of the mailbox in the order of their deposit, leaves that mailbox empty and every other one
  as it was. \<open>fetch_batch\<close> returns a prefix of them that is not empty when there are any,
  leaves exactly the rest, and says there is more exactly when the rest is not empty.
\<close>

theorem fetch_refines:
  assumes "mailbox_inv m" and "fetch m mid now = (msgs, m1)"
    and "fetch_batch m mid now lim = ((batch, again), m2)"
  shows "msgs = view m mid now \<and> view m1 mid later = []
    \<and> view m mid now = batch @ view m2 mid now \<and> (batch = [] \<longrightarrow> view m mid now = [])
    \<and> (again \<longleftrightarrow> view m2 mid now \<noteq> [])
    \<and> (other \<noteq> mid \<longrightarrow> view m1 other later = view m other later \<and> view m2 other later = view m other later)"
  using fetch_props [OF assms(1,2)] fetch_batch_props [OF assms(1,3)] by (auto simp: view_def)

text \<open>A small store used by the examples: two messages for one recipient, one for another.\<close>

definition demo_mailbox :: mailbox where
  "demo_mailbox = \<lparr>boxes = [([1], [\<lparr>sealed = [9, 9], expires_at = 100\<rparr>, \<lparr>sealed = [8], expires_at = 200\<rparr>]),
      ([2], [\<lparr>sealed = [7], expires_at = 100\<rparr>])], policy = policy_default, total = 3, mbytes = 4\<rparr>"

lemma demo_mailbox_inv: "mailbox_inv demo_mailbox"
  by (auto simp: mailbox_inv_def demo_mailbox_def counters_ok_def policy_default_def policy_ok_def
      box_ok_def box_def hm_wf_def hm_sum_def hm_get_def)

theorem fetch_refines_witness:
  "view demo_mailbox [1] 50 = [[9, 9], [8]]
   \<and> fst (fetch demo_mailbox [1] 50) = [[9, 9], [8]]
   \<and> fst (fetch_batch demo_mailbox [1] 50 2) = ([[9, 9]], True)
   \<and> view (snd (fetch_batch demo_mailbox [1] 50 2)) [2] 50 = [[7]]"
proof -
  have v: "view demo_mailbox [1] 50 = [[9, 9], [8]]" "view demo_mailbox [2] 50 = [[7]]"
    by (simp_all add: view_def box_def demo_mailbox_def hm_get_def live_entries_def)
  have b: "fst (fetch_batch demo_mailbox [1] 50 2) = ([[9, 9]], True)"
    by (simp add: fetch_batch_def demo_mailbox_def hm_get_def live_entries_def)
  then have "fetch_batch demo_mailbox [1] 50 2 = (([[9, 9]], True), snd (fetch_batch demo_mailbox [1] 50 2))"
    by (metis prod.collapse)
  from fetch_refines [OF demo_mailbox_inv prod.collapse [symmetric] this, of 50 "[2]"] v b
  show ?thesis by simp
qed

section \<open>Snapshots\<close>

lemma hm_insert_absent: "hm_get m k = None \<Longrightarrow> hm_insert k v m = m @ [(k, v)]"
  unfolding hm_get_def hm_insert_def by (induction m) (auto split: if_splits)

lemma snapshot_live:
  "map (\<lambda>(s, x). \<lparr>sealed = s, expires_at = x\<rparr>)
     (filter (\<lambda>(_, x). now < x) (map (\<lambda>e. (sealed e, expires_at e)) v)) = live_entries now v"
  by (induction v) (simp_all add: live_entries_def)

lemma pruned_simps [simp]:
  "pruned now [] = []"
  "pruned now ((k, v) # xs) = (if live_entries now v = [] then pruned now xs else (k, live_entries now v) # pruned now xs)"
  by (simp_all add: pruned_def)

lemma hm_sum_simps [simp]:
  "hm_sum f ((k, v) # xs) = f v + hm_sum f xs" "hm_sum f (xs @ ys) = hm_sum f xs + hm_sum f ys"
  by (simp_all add: hm_sum_def)

lemma restore_snapshot:
  assumes "hm_wf (bx @ xs)" "t + hm_sum length (pruned now xs) < 2 ^ 64"
    "b + hm_sum entries_bytes (pruned now xs) < 2 ^ 64"
  shows "restore_boxes now (map (\<lambda>(mid, v). (mid, map (\<lambda>e. (sealed e, expires_at e)) v)) xs) (bx, t, b)
    = (bx @ pruned now xs, t + hm_sum length (pruned now xs), b + hm_sum entries_bytes (pruned now xs))"
  using assms
proof (induction xs arbitrary: bx t b)
  case Nil
  then show ?case by simp
next
  case (Cons kv xs)
  obtain k v where kv: "kv = (k, v)" by force
  have "hm_get bx k = None" using Cons.prems(1) kv by (auto simp: hm_wf_def hm_get_def map_of_eq_None_iff)
  then have ins: "hm_insert k w bx = bx @ [(k, w)]" for w by (rule hm_insert_absent)
  have wf: "hm_wf (bx @ xs)" "hm_wf ((bx @ [(k, live_entries now v)]) @ xs)"
    using Cons.prems(1) kv by (auto simp: hm_wf_def)
  show ?case
  proof (cases "live_entries now v = []")
    case True
    then show ?thesis using Cons.IH [OF wf(1)] Cons.prems kv by (simp add: snapshot_live)
  next
    case False
    then show ?thesis
      using Cons.IH [OF wf(2), of "t + length (live_entries now v)" "b + entries_bytes (live_entries now v)"]
        Cons.prems kv
      by (simp add: snapshot_live ins wadd64_exact add.assoc Let_def)
  qed
qed

lemma restored_view:
  assumes "mailbox_inv m" and "now \<le> later"
  shows "mailbox_inv (from_snapshot (policy m) (mailbox_snapshot m) now)
    \<and> view (from_snapshot (policy m) (mailbox_snapshot m) now) mid later = view m mid later"
proof -
  obtain n m' where p: "prune_expired m now = (n, m')" by force
  have c: "counters_ok m" using assms(1) by (simp add: mailbox_inv_def)
  note f = prune_fields [OF c inv_bounds [OF assms(1)] p]
  have sums: "total m' = hm_sum length (pruned now (boxes m))" "mbytes m' = hm_sum entries_bytes (pruned now (boxes m))"
    using f(1,3) by (simp_all add: counters_ok_def)
  have "restore_boxes now (mailbox_snapshot m) ([], 0, 0) = (boxes m', total m', mbytes m')"
    using restore_snapshot [of "[]" "boxes m" 0 now 0] c inv_bounds [OF assms(1)] f(1,4,5) sums
    by (simp add: mailbox_snapshot_def counters_ok_def)
  then have "from_snapshot (policy m) (mailbox_snapshot m) now = m'"
    using f(2) by (simp add: from_snapshot_def)
  then show ?thesis using prune_inv [OF assms(1) p] prune_box [OF assms(1) p] assms(2) by (simp add: view_def)
qed

text \<open>
  A restart loses no message. Restoring the snapshot of a store at a later time gives a
  store in which every mailbox holds exactly the messages that have not expired by then, in
  the same order, whose counters are exact and whose quotas hold.
\<close>

theorem snapshot_roundtrip:
  assumes "mailbox_inv m" and "now \<le> later"
  shows "mailbox_inv (from_snapshot (policy m) (mailbox_snapshot m) now)
    \<and> view (from_snapshot (policy m) (mailbox_snapshot m) now) mid later = view m mid later"
  by (rule restored_view [OF assms])

theorem snapshot_roundtrip_witness:
  "view (from_snapshot policy_default (mailbox_snapshot demo_mailbox) 150) [1] 160 = [[8]]"
  using snapshot_roundtrip [OF demo_mailbox_inv, of 150 160 "[1]"]
  by (simp add: view_def box_def demo_mailbox_def hm_get_def live_entries_def)

section \<open>Identifiers and possession proofs\<close>

lemma epoch_window:
  assumes "t \<le> now + MAILBOX_EPOCH_SECS" "now \<le> t + DEFAULT_MAX_TTL_SECS + MAILBOX_EPOCH_SECS"
    "now \<le> u64_max - MAILBOX_EPOCH_SECS"
  shows "mailbox_epoch_of t \<in> set [sat_sub (mailbox_epoch_of now) FETCH_EPOCHS_BEHIND ..<
           Suc (sat_add (mailbox_epoch_of now) FETCH_EPOCHS_AHEAD)]"
proof -
  have "t div 86400 \<le> (now + 86400) div 86400" using assms(1) by (intro div_le_mono) (simp add: MAILBOX_EPOCH_SECS_def)
  moreover have "now div 86400 \<le> (t + 31 * 86400) div 86400"
    using assms(2) by (intro div_le_mono) (simp add: MAILBOX_EPOCH_SECS_def DEFAULT_MAX_TTL_SECS_def)
  moreover have "(now + 86400) div 86400 = now div 86400 + 1" "(t + 31 * 86400) div 86400 = t div 86400 + 31"
    by simp_all
  moreover have "now div 86400 + 1 \<le> u64_max"
    using assms(3) by (simp add: u64_max_def MAILBOX_EPOCH_SECS_def)
  ultimately show ?thesis
    by (simp add: mailbox_epoch_of_def FETCH_EPOCHS_BEHIND_def FETCH_EPOCHS_AHEAD_def sat_sub_def sat_add_def
        MAILBOX_EPOCH_SECS_def DEFAULT_MAX_TTL_SECS_def del: upt_Suc) arith
qed

lemma owned_deposit:
  assumes "t \<le> now + MAILBOX_EPOCH_SECS" "now \<le> t + DEFAULT_MAX_TTL_SECS + MAILBOX_EPOCH_SECS"
    "now \<le> u64_max - MAILBOX_EPOCH_SECS"
  shows "mailbox_id_owned_at P pk (mailbox_id_for_deposit P pk t) now"
  using epoch_window [OF assms]
  by (auto simp: mailbox_id_owned_at_def mailbox_id_for_deposit_def Let_def list_ex_iff
      simp del: upt_Suc)

text \<open>
  A recipient can always prove the right to its mail. For a message addressed by the
  mailbox identifier of the day \<open>t\<close>, the possession proof a recipient computes from its secret
  key and the host's public key is accepted by the host, from one day before \<open>t\<close> (clock skew)
  until a day after the longest possible lifetime of the message.
\<close>

theorem recipient_proof_accepted:
  assumes "dh_ok P" and "t \<le> now + MAILBOX_EPOCH_SECS"
    and "now \<le> t + DEFAULT_MAX_TTL_SECS + MAILBOX_EPOCH_SECS" and "now \<le> u64_max - MAILBOX_EPOCH_SECS"
  shows "let pk = x25519 P identity_sk x25519_base;
             a = fetch_auth_for P identity_sk (x25519 P host_sk x25519_base) binding (mailbox_id_for_deposit P pk t)
         in verify_at P a (x25519 P host_sk (auth_pk a)) binding (mailbox_id_for_deposit P pk t) now"
proof -
  have "x25519 P identity_sk (x25519 P host_sk x25519_base) = x25519 P host_sk (x25519 P identity_sk x25519_base)"
    using assms(1) by (simp add: dh_ok_def)
  then show ?thesis
    using owned_deposit [OF assms(2-4)]
    by (simp add: Let_def verify_at_def fetch_auth_for_def fetch_auth_tag_def ct_diff_eq)
qed

theorem recipient_proof_accepted_witness:
  "let pk = x25519 demo_prims [16] x25519_base;
       a = fetch_auth_for demo_prims [16] (x25519 demo_prims [24] x25519_base) [5, 5]
             (mailbox_id_for_deposit demo_prims pk 1700000000)
   in verify_at demo_prims a (x25519 demo_prims [24] (auth_pk a)) [5, 5]
        (mailbox_id_for_deposit demo_prims pk 1700000000) 1702592000"
  using recipient_proof_accepted [OF demo_dh_ok, of 1700000000 1702592000 "[16]" "[24]" "[5, 5]"]
  by (simp add: MAILBOX_EPOCH_SECS_def DEFAULT_MAX_TTL_SECS_def u64_max_def)

lemma fetch_auth_input_inj:
  assumes "fetch_auth_input b1 i1 = fetch_auth_input b2 i2" "length b1 < 2 ^ 64" "length b2 < 2 ^ 64"
  shows "b1 = b2 \<and> i1 = i2"
proof -
  have p: "le_bytes 8 (length b1) = le_bytes 8 (length b2)" and r: "b1 @ i1 = b2 @ i2"
    using assms(1) by (simp_all add: fetch_auth_input_def append_eq_append_conv)
  have "length b1 = length b2" using le_bytes_inj [OF p] assms(2,3) by simp
  with r show ?thesis by simp
qed

text \<open>
  What an accepted possession proof shows. The host accepts exactly when the claimed key
  owns the identifier in the window of epochs and the 32-byte tag is the keyed hash of the
  length-prefixed binding and the identifier, and two different pairs of binding and
  identifier never give the same hash input: a proof made for one connection or one mailbox
  is not a proof for another unless the keyed hash itself collides.
\<close>

theorem possession_proof_exact:
  assumes "length (auth_tag a) = 32" and "length b1 < 2 ^ 64" and "length b2 < 2 ^ 64"
  shows "(verify_at P a shared b1 mid now \<longleftrightarrow>
      mailbox_id_owned_at P (auth_pk a) mid now
      \<and> auth_tag a = arr 32 (blake3_keyed P (arr 32 (blake3_derive_key P ''gotham-mailbox-fetch-v1'' shared))
                               (fetch_auth_input b1 mid)))
    \<and> (fetch_auth_input b1 mid = fetch_auth_input b2 mid' \<longleftrightarrow> b1 = b2 \<and> mid = mid')"
  using assms fetch_auth_input_inj [OF _ assms(2,3)]
  by (auto simp: verify_at_def fetch_auth_tag_def ct_diff_eq)

theorem possession_proof_exact_witness:
  "\<not> verify_at demo_prims \<lparr>auth_pk = replicate 32 1, auth_tag = replicate 32 0\<rparr> [4] [5]
      (mailbox_id_legacy demo_prims (replicate 32 1)) 0"
proof -
  have ne: "arr 32 (blake3_keyed demo_prims k (fetch_auth_input [5] mid)) \<noteq> replicate 32 0" for k mid
  proof -
    have "arr 32 (blake3_keyed demo_prims k (fetch_auth_input [5] mid)) ! 8 = 5"
      by (simp add: arr_def demo_prims_def fetch_auth_input_def nth_append)
    then show ?thesis by auto
  qed
  show ?thesis
    using possession_proof_exact [of "\<lparr>auth_pk = replicate 32 1, auth_tag = replicate 32 0\<rparr>" "[5]" "[]" demo_prims "[4]"]
      ne [THEN not_sym] by auto
qed

end
