(* ===== verification/Key_Files.thy ===== *)
theory Key_Files
  imports Enroll Admission Mailbox_Correct "HOL-Library.Countable"
begin

text \<open>
  The files of a relay: the key file of the commands \<open>keygen\<close> and \<open>pubkey\<close> and the snapshot of the
  mailbox store, crypto-gotham-relay/src/main.rs, and the file of the replay cache,
  \<open>persist::write_encoded\<close> of crypto-gotham-relay/src/replay.rs.

  A file system is a partial function from paths to contents. A write is a sequence of states, one
  for each prefix that may have reached the disk, so that what a crash leaves behind is a state of
  that sequence.
\<close>

section \<open>Files\<close>

type_synonym fs = "string \<Rightarrow> bytes option"

datatype file_error =
    NotFound
  | AlreadyExists
  | InvalidData string
  | InvalidInput string
  | OtherError string

definition text_of :: "bytes \<Rightarrow> string" where
  "text_of b = map (\<lambda>x. char_of (unat x)) b"

text \<open>\<open>Path::with_extension("tmp")\<close>.\<close>

definition with_extension_tmp :: "string \<Rightarrow> string" where
  "with_extension_tmp path =
     (let dir = rev (dropWhile (\<lambda>c. c \<noteq> CHR ''/'') (rev path));
          name = rev (takeWhile (\<lambda>c. c \<noteq> CHR ''/'') (rev path));
          stem = rev (dropWhile (\<lambda>c. c \<noteq> CHR ''.'') (rev name))
      in if length stem \<le> 1 then path @ ''.tmp'' else dir @ stem @ ''tmp'')"

text \<open>Writing a temporary file and renaming it: the states the file system goes through.\<close>

definition replace_file :: "fs \<Rightarrow> string \<Rightarrow> bytes \<Rightarrow> fs list" where
  "replace_file fs path b =
     (let tmp = with_extension_tmp path
      in fs # map (\<lambda>k. fs(tmp \<mapsto> take k b)) [0 ..< Suc (length b)]
         @ [(fs(path \<mapsto> b))(tmp := if tmp = path then Some b else None)])"

lemma replace_file_states:
  assumes "g \<in> set (replace_file fs path b)" and "with_extension_tmp path \<noteq> path"
  shows "g path = fs path \<or> g path = Some b"
    and "q \<noteq> path \<Longrightarrow> q \<noteq> with_extension_tmp path \<Longrightarrow> g q = fs q"
  using assms by (auto simp: replace_file_def Let_def)

lemma replace_file_last: "last (replace_file fs path b) path = Some b"
  by (simp add: replace_file_def Let_def)

section \<open>The key file\<close>

text \<open>
  \<open>read_key_file\<close>. Bytes that are not UTF-8 are refused by \<open>read_to_string\<close> and would be refused
  by \<open>hex::decode\<close>, in both cases as invalid data.
\<close>

definition read_key_file :: "prims \<Rightarrow> fs \<Rightarrow> string \<Rightarrow> file_error + bytes" where
  "read_key_file P fs path =
     (case fs path of
        None \<Rightarrow> Inl NotFound
      | Some raw \<Rightarrow>
          (case hex_decode P (trim (text_of raw)) of
             None \<Rightarrow> Inl (InvalidData ''bad hex'')
           | Some b \<Rightarrow> if length b \<noteq> 32 then Inl (InvalidData ''secret key file must be 64 hex chars (32 bytes)'') else Inr b))"

definition write_key_file :: "prims \<Rightarrow> fs \<Rightarrow> string \<Rightarrow> bytes \<Rightarrow> file_error + fs" where
  "write_key_file P fs path sk =
     (if fs path \<noteq> None then Inl AlreadyExists
      else Inr (fs(path \<mapsto> ascii (hex_encode P sk) @ [10])))"

text \<open>The commands \<open>keygen\<close> and \<open>pubkey\<close>: the public key they print.\<close>

definition keygen :: "prims \<Rightarrow> (nat \<Rightarrow> byte) \<Rightarrow> fs \<Rightarrow> string \<Rightarrow> (file_error + string) \<times> fs" where
  "keygen P draw fs path =
     (let sk = arr 32 draw;
          sk = sk[0 := sk ! 0 AND 248];
          sk = sk[31 := sk ! 31 AND 127];
          sk = sk[31 := sk ! 31 OR 64]
      in case write_key_file P fs path sk of
           Inl e \<Rightarrow> (Inl e, fs)
         | Inr fs' \<Rightarrow> (Inr (hex_encode P (x25519 P sk x25519_base)), fs'))"

definition pubkey :: "prims \<Rightarrow> fs \<Rightarrow> string \<Rightarrow> file_error + string" where
  "pubkey P fs path =
     (case read_key_file P fs path of
        Inl e \<Rightarrow> Inl e
      | Inr sk \<Rightarrow> Inr (hex_encode P (x25519 P sk x25519_base)))"

text \<open>Hexadecimal digits are not white space.\<close>

definition hex_text :: "prims \<Rightarrow> bool" where
  "hex_text P \<longleftrightarrow> (\<forall>b. \<forall>c \<in> set (hex_encode P b). \<not> is_space c)"

lemma text_of_ascii: "text_of (ascii s) = s"
  by (simp add: text_of_def ascii_def unat_ascii_byte o_def)

lemma trim_line: "\<forall>c \<in> set s. \<not> is_space c \<Longrightarrow> trim (s @ [char_of (10 :: nat)]) = s"
proof (cases s)
  case (Cons c cs)
  assume ns: "\<forall>c \<in> set s. \<not> is_space c"
  have n: "is_space (char_of (10 :: nat))" by (simp add: is_space_def)
  have r: "dropWhile is_space (rev s) = rev s" using ns by (cases "rev s") (auto dest: arg_cong [where f = set])
  show ?thesis using ns Cons n r by (simp add: trim_def)
qed (simp add: trim_def is_space_def)

text \<open>
  The key a relay generates is the key it later runs with. After \<open>keygen\<close> succeeds, the file
  holds a 32-byte key from which \<open>pubkey\<close> prints the public key that \<open>keygen\<close> printed; no other file
  has changed; and a file that exists is never overwritten.
\<close>

theorem keygen_roundtrip:
  assumes "hex_ok P" and "hex_text P"
  shows "(keygen P draw fs path = (Inr pk, fs') \<longrightarrow> pubkey P fs' path = Inr pk \<and> (\<forall>q. q \<noteq> path \<longrightarrow> fs' q = fs q))
    \<and> (fs path \<noteq> None \<longrightarrow> keygen P draw fs path = (Inl AlreadyExists, fs))
    \<and> (fs path = None \<longrightarrow> (\<exists>pk fs'. keygen P draw fs path = (Inr pk, fs')))"
proof -
  have r: "read_key_file P (fs(path \<mapsto> ascii (hex_encode P sk) @ [10])) path = Inr sk" if "length sk = 32" for sk
  proof -
    have "text_of (ascii (hex_encode P sk) @ [10]) = hex_encode P sk @ [char_of (10 :: nat)]"
      using text_of_ascii by (simp add: text_of_def)
    moreover have "\<forall>c \<in> set (hex_encode P sk). \<not> is_space c" using assms(2) by (simp add: hex_text_def)
    ultimately show ?thesis using assms(1) that trim_line by (simp add: read_key_file_def hex_ok_def)
  qed
  then show ?thesis
    by (auto simp: keygen_def pubkey_def write_key_file_def Let_def split: sum.splits if_splits)
qed

lemma hex_prims_text: "hex_text hex_prims"
proof -
  have n: "\<not> is_space (nib k)" if "k < 16" for k using that by (simp add: is_space_def nib_def)
  have "c \<in> set (to_hex b) \<Longrightarrow> \<not> is_space c" for b c
    by (induction b) (auto simp: n nibs_bound)
  then show ?thesis by (simp add: hex_text_def hex_prims_def)
qed

theorem keygen_roundtrip_witness:
  "\<exists>pk fs'. keygen hex_prims word_of_nat (\<lambda>_. None) ''relay.key'' = (Inr pk, fs') \<and> pubkey hex_prims fs' ''relay.key'' = Inr pk
     \<and> keygen hex_prims word_of_nat fs' ''relay.key'' = (Inl AlreadyExists, fs')"
proof -
  note k = keygen_roundtrip [OF hex_prims_laws(1) hex_prims_text, of word_of_nat]
  obtain pk fs' where g: "keygen hex_prims word_of_nat (\<lambda>_. None) ''relay.key'' = (Inr pk, fs')"
    using k [of "\<lambda>_. None" "''relay.key''" "[]" "\<lambda>_. None"] by auto
  then have p: "pubkey hex_prims fs' ''relay.key'' = Inr pk" using k [of "\<lambda>_. None" "''relay.key''" pk fs'] by simp
  then have "fs' ''relay.key'' \<noteq> None" by (auto simp: pubkey_def read_key_file_def split: option.splits)
  with k [of fs' "''relay.key''"] g p show ?thesis by blast
qed

section \<open>The snapshot of the mailboxes\<close>

text \<open>\<open>rmp_serde\<close> on snapshots is a parameter.\<close>

record snap_codec =
  snap_to_bytes :: "snapshot \<Rightarrow> bytes option"
  snap_from_bytes :: "bytes \<Rightarrow> snapshot option"

definition snap_codec_ok :: "snap_codec \<Rightarrow> bool" where
  "snap_codec_ok W \<longleftrightarrow> (\<forall>s. \<exists>b. snap_to_bytes W s = Some b \<and> snap_from_bytes W b = Some s)"

definition load_mailbox :: "snap_codec \<Rightarrow> fs \<Rightarrow> string option \<Rightarrow> nat \<Rightarrow> mailbox" where
  "load_mailbox W fs path now =
     (case path of
        None \<Rightarrow> mailbox_new policy_default
      | Some p \<Rightarrow>
          (case fs p of
             None \<Rightarrow> mailbox_new policy_default
           | Some b \<Rightarrow>
               (case snap_from_bytes W b of
                  None \<Rightarrow> mailbox_new policy_default
                | Some snap \<Rightarrow> from_snapshot policy_default snap now)))"

text \<open>The states of the file system while a snapshot is written; none when it cannot be serialised.\<close>

definition persist_mailbox :: "snap_codec \<Rightarrow> fs \<Rightarrow> string \<Rightarrow> snapshot \<Rightarrow> fs list" where
  "persist_mailbox W fs path snap =
     (case snap_to_bytes W snap of None \<Rightarrow> [fs] | Some b \<Rightarrow> replace_file fs path b)"

text \<open>One tick of \<open>spawn_mailbox_maintenance\<close>: the store without its expired messages, and what is written.\<close>

definition maintenance_tick :: "snap_codec \<Rightarrow> fs \<Rightarrow> string option \<Rightarrow> mailbox \<Rightarrow> nat \<Rightarrow> mailbox \<times> fs list" where
  "maintenance_tick W fs path m now =
     (case prune_expired m now of
        (removed, m') \<Rightarrow> (m', case path of None \<Rightarrow> [fs] | Some p \<Rightarrow> persist_mailbox W fs p (mailbox_snapshot m')))"

text \<open>\<open>persist::write_encoded\<close>: the replay cache replaces its file in the same way.\<close>

definition write_encoded :: "fs \<Rightarrow> string \<Rightarrow> bytes \<Rightarrow> fs list" where
  "write_encoded fs path buf = replace_file fs path buf"


text \<open>A serialisation for the witness: the snapshots are numbered, and written as that many zeroes.\<close>

definition demo_snap_codec :: snap_codec where
  "demo_snap_codec = \<lparr>snap_to_bytes = (\<lambda>s. Some (replicate (to_nat s) 0)), snap_from_bytes = (\<lambda>b. Some (from_nat (length b)))\<rparr>"


text \<open>
  Two stores whose paths differ only in their extension use the same temporary file, so the writes
  of the mailbox task and of the replay task can meet there: each has written it in full before
  either renames it, and the mailbox's file ends up with the contents of the replay cache.
\<close>

definition interleaved_writes :: "fs \<Rightarrow> string \<Rightarrow> string \<Rightarrow> bytes \<Rightarrow> bytes \<Rightarrow> fs" where
  "interleaved_writes fs p1 p2 b1 b2 =
     (let fs1 = fs(with_extension_tmp p1 \<mapsto> b1);
          fs2 = fs1(with_extension_tmp p2 \<mapsto> b2)
      in (fs2(p1 := fs2 (with_extension_tmp p1)))(with_extension_tmp p1 := None))"

lemma shared_temporary_file:
  "interleaved_writes fs ''state/relay.mbx'' ''state/relay.bin'' b1 b2 ''state/relay.mbx'' = Some b2"
  by (simp add: interleaved_writes_def with_extension_tmp_def Let_def)

end
