(* ===== verification/Authority_Service.thy ===== *)
theory Authority_Service
  imports Turn_Service Key_Files
begin

text \<open>
  The directory authority as a service, crypto-gotham-authority/src/main.rs: its command line, the
  state \<open>main\<close> starts with, the routes of \<open>build_router\<close> and the requests it answers one after the
  other. The HTTP library is a parameter: which registered handler it calls for a request, and
  whether a body is the JSON of an enrolment.
\<close>

section \<open>Start\<close>

text \<open>The struct \<open>Cli\<close>, without the verbosity.\<close>

record authority_cli =
  ac_authority_key :: string
  ac_listen :: sockaddr
  ac_enroll_token :: string
  ac_valid_secs :: nat
  ac_enroll_rate_per_min :: nat
  ac_skip_liveness_probe :: bool
  ac_accept_legacy_pop :: bool
  ac_probe_timeout_secs :: nat
  ac_turn_url :: "string list"
  ac_turn_secret_file :: "string option"
  ac_turn_cred_ttl_secs :: nat

text \<open>The values of the options that are left out; only the key has to be given.\<close>

definition authority_cli_default :: "string \<Rightarrow> authority_cli" where
  "authority_cli_default key =
     \<lparr>ac_authority_key = key, ac_listen = \<lparr>sa_ip = V4 [0, 0, 0, 0], sa_port = 8443\<rparr>, ac_enroll_token = '''', ac_valid_secs = 3600,
      ac_enroll_rate_per_min = 30, ac_skip_liveness_probe = False, ac_accept_legacy_pop = False, ac_probe_timeout_secs = 10,
      ac_turn_url = [], ac_turn_secret_file = None, ac_turn_cred_ttl_secs = 300\<rparr>"

definition MAX_INFLIGHT_PROBES :: nat where "MAX_INFLIGHT_PROBES = 128"

text \<open>\<open>AppState\<close>: what the enrolment and the directory read, what \<open>/turn\<close> reads, and the settings of the probes.\<close>

record authority_service =
  sv_app :: app_state
  sv_turn :: turn_config
  sv_probe_sk :: bytes
  sv_probe_timeout :: nat
  sv_probe_limit :: nat

text \<open>Which bytes are UTF-8, for \<open>read_to_string\<close>.\<close>

definition utf8_cont :: "byte \<Rightarrow> bool" where
  "utf8_cont b \<longleftrightarrow> 0x80 \<le> b \<and> b \<le> 0xBF"

fun utf8_valid :: "bytes \<Rightarrow> bool" where
  "utf8_valid [] = True"
| "utf8_valid (a # bs) =
     (if a \<le> 0x7F then utf8_valid bs
      else if 0xC2 \<le> a \<and> a \<le> 0xDF then (case bs of b # cs \<Rightarrow> utf8_cont b \<and> utf8_valid cs | _ \<Rightarrow> False)
      else if 0xE0 \<le> a \<and> a \<le> 0xEF then
        (case bs of
           b # c # cs \<Rightarrow> utf8_cont b \<and> utf8_cont c \<and> (a = 0xE0 \<longrightarrow> 0xA0 \<le> b) \<and> (a = 0xED \<longrightarrow> b \<le> 0x9F) \<and> utf8_valid cs
         | _ \<Rightarrow> False)
      else if 0xF0 \<le> a \<and> a \<le> 0xF4 then
        (case bs of
           b # c # d # cs \<Rightarrow> utf8_cont b \<and> utf8_cont c \<and> utf8_cont d \<and> (a = 0xF0 \<longrightarrow> 0x90 \<le> b) \<and> (a = 0xF4 \<longrightarrow> b \<le> 0x8F)
             \<and> utf8_valid cs
         | _ \<Rightarrow> False)
      else False)"

text \<open>The secret shared with the TURN server; an empty file is no secret.\<close>

definition read_turn_secret :: "fs \<Rightarrow> string option \<Rightarrow> file_error + bytes option" where
  "read_turn_secret fs path =
     (case path of
        None \<Rightarrow> Inr None
      | Some p \<Rightarrow>
          (case fs p of
             None \<Rightarrow> Inl NotFound
           | Some raw \<Rightarrow>
               if \<not> utf8_valid raw then Inl (InvalidData ''stream did not contain valid UTF-8'')
               else let s = trim (text_of raw) in Inr (if s = '''' then None else Some (ascii s))))"

text \<open>\<open>main\<close> up to the listener: the state, or the error it ends with. \<open>draw\<close> are the random bytes of the probe key.\<close>

definition authority_start :: "prims \<Rightarrow> fs \<Rightarrow> authority_cli \<Rightarrow> (nat \<Rightarrow> byte) \<Rightarrow> file_error + authority_service" where
  "authority_start P fs cli draw =
     (case fs (ac_authority_key cli) of
        None \<Rightarrow> Inl NotFound
      | Some raw \<Rightarrow>
     (case read_ed25519_seed P (text_of raw) of
        None \<Rightarrow> Inl (InvalidData ''authority key must be 32 bytes (or 64 hex chars)'')
      | Some seed \<Rightarrow>
          let enroll_token = (if ac_enroll_token cli = '''' then None else Some (ac_enroll_token cli));
              probe_sk = arr 32 draw;
              probe_sk = probe_sk[0 := probe_sk ! 0 AND 248];
              probe_sk = probe_sk[31 := probe_sk ! 31 AND 127];
              probe_sk = probe_sk[31 := probe_sk ! 31 OR 64]
          in case read_turn_secret fs (ac_turn_secret_file cli) of
               Inl e \<Rightarrow> Inl e
             | Inr secret \<Rightarrow>
                 Inr \<lparr>sv_app = \<lparr>st_registry = [], st_authority = seed, st_enroll_token = enroll_token,
                        st_valid_secs = ac_valid_secs cli, st_rate_per_min = ac_enroll_rate_per_min cli, st_rate = [],
                        st_require_liveness = (\<not> ac_skip_liveness_probe cli), st_pop_sk = derive_authority_pop_sk P seed,
                        st_accept_legacy_pop = ac_accept_legacy_pop cli, st_admissions_cache = None, st_directory_cache = None\<rparr>,
                      sv_turn = \<lparr>turn_urls = ac_turn_url cli, turn_secret = secret, turn_ttl = max (ac_turn_cred_ttl_secs cli) 60\<rparr>,
                      sv_probe_sk = probe_sk, sv_probe_timeout = max (ac_probe_timeout_secs cli) 1,
                      sv_probe_limit = MAX_INFLIGHT_PROBES\<rparr>))"

section \<open>Routes\<close>

datatype http_method = GET | POST | OtherMethod

datatype handler = HealthHandler | PopHandler | TurnHandler | EnrollHandler | DirectoryHandler | AdmissionsHandler

type_synonym route = "string \<times> http_method \<times> handler"

definition build_router :: "route list" where
  "build_router =
     [(''/health'', GET, HealthHandler),
      (''/pop'', GET, PopHandler),
      (''/turn'', GET, TurnHandler),
      (''/enroll'', POST, EnrollHandler),
      (''/directory'', GET, DirectoryHandler),
      (''/admissions'', GET, AdmissionsHandler)]"

text \<open>
  What is used of the router: it calls the handler registered for the path and the method of a
  request, and calls none that is not registered for the path.
\<close>

type_synonym router = "route list \<Rightarrow> http_method \<Rightarrow> string \<Rightarrow> handler option"

definition router_ok :: "router \<Rightarrow> bool" where
  "router_ok D \<longleftrightarrow> (\<forall>rs m p h. distinct (map (\<lambda>(q, k, _). (q, k)) rs) \<longrightarrow>
      ((p, m, h) \<in> set rs \<longrightarrow> D rs m p = Some h) \<and> (D rs m p = Some h \<longrightarrow> (\<exists>k. (p, k, h) \<in> set rs)))"

record http_request =
  rq_method :: http_method
  rq_path :: string
  rq_peer :: ipaddr
  rq_auth :: "string option"
  rq_body :: bytes

text \<open>The outside of a request: the probes it makes and the clock as the handler reads it, three times at most.\<close>

record request_env =
  re_probes :: probes
  re_t0 :: nat
  re_t1 :: nat
  re_t2 :: nat
  re_clock :: "nat option"

datatype response =
    NoRoute
  | BadBody
  | TextReply string
  | TurnReply turn_response
  | EnrollReply enroll_reply
  | DirectoryReply "gerror + signed_directory"
  | AdmissionsReply "admission_entry list"

text \<open>The libraries: the router, the JSON of enrolments and of the servers, HMAC.\<close>

record libs =
  li_router :: router
  li_json :: json
  li_enroll_json :: "bytes \<Rightarrow> enrollment option"
  li_ice_json :: "ice_server list \<Rightarrow> bytes"
  li_hmac :: "bytes \<Rightarrow> bytes \<Rightarrow> string"

definition health :: string where "health = ''ok''"

definition call_handler :: "prims \<Rightarrow> libs \<Rightarrow> authority_service \<Rightarrow> request_env \<Rightarrow> http_request \<Rightarrow> handler \<Rightarrow> response \<times> authority_service" where
  "call_handler P L sv E rq h =
     (case h of
        HealthHandler \<Rightarrow> (TextReply health, sv)
      | PopHandler \<Rightarrow> (TextReply (pop_handler P (sv_app sv)), sv)
      | TurnHandler \<Rightarrow>
          (case turn_handler P (li_hmac L) (li_ice_json L) (sv_turn sv) (sv_app sv) (rq_peer rq) (re_t0 E) (re_t1 E) (re_t2 E) of
             (r, st) \<Rightarrow> (TurnReply r, sv\<lparr>sv_app := st\<rparr>))
      | EnrollHandler \<Rightarrow>
          (case li_enroll_json L (rq_body rq) of
             None \<Rightarrow> (BadBody, sv)
           | Some e \<Rightarrow>
               (case enroll_handler P (re_probes E) (sv_app sv) (rq_peer rq) (rq_auth rq) e (re_t0 E) (re_t1 E) (re_t2 E) of
                  (r, st) \<Rightarrow> (EnrollReply r, sv\<lparr>sv_app := st\<rparr>)))
      | DirectoryHandler \<Rightarrow>
          (case directory_handler P (li_json L) (sv_app sv) (re_t0 E) (re_clock E) of
             (r, st) \<Rightarrow> (DirectoryReply r, sv\<lparr>sv_app := st\<rparr>))
      | AdmissionsHandler \<Rightarrow>
          (case admissions_handler P (sv_app sv) (re_t0 E) of
             (r, st) \<Rightarrow> (AdmissionsReply r, sv\<lparr>sv_app := st\<rparr>)))"

definition serve_http :: "prims \<Rightarrow> libs \<Rightarrow> authority_service \<Rightarrow> request_env \<times> http_request \<Rightarrow> response \<times> authority_service" where
  "serve_http P L sv q =
     (case q of (E, rq) \<Rightarrow>
        (case li_router L build_router (rq_method rq) (rq_path rq) of
           None \<Rightarrow> (NoRoute, sv)
         | Some h \<Rightarrow> call_handler P L sv E rq h))"

fun serve_all :: "prims \<Rightarrow> libs \<Rightarrow> authority_service \<Rightarrow> (request_env \<times> http_request) list \<Rightarrow> response list \<times> authority_service" where
  "serve_all P L sv [] = ([], sv)"
| "serve_all P L sv (q # qs) =
     (case serve_http P L sv q of (r, sv1) \<Rightarrow> (case serve_all P L sv1 qs of (rs, sv2) \<Rightarrow> (r # rs, sv2)))"

section \<open>What a started authority signs\<close>

definition admission_ok :: "prims \<Rightarrow> app_state \<Rightarrow> admission_entry \<Rightarrow> bool" where
  "admission_ok P st a \<longleftrightarrow> (\<exists>e. proven P st e \<and> ae_identity_hex a = en_kem_hex e \<and> ae_operator a = en_operator e
     \<and> ae_attestation a = attest P (st_authority st) (ae_identity_hex a) (ae_epoch a) (ae_operator a))"

text \<open>The replies that carry a signature, and what each of them says.\<close>

fun reply_ok :: "prims \<Rightarrow> libs \<Rightarrow> authority_service \<Rightarrow> response \<Rightarrow> bool" where
  "reply_ok P L sv (DirectoryReply (Inr sd)) \<longleftrightarrow> published_ok P (li_json L) (sv_app sv) sd"
| "reply_ok P L sv (TurnReply (TurnOk r)) \<longleftrightarrow> turn_secret (sv_turn sv) \<noteq> None \<and> turn_urls (sv_turn sv) \<noteq> []
     \<and> turn_signature_ok P (li_ice_json L) (arr 32 (ed_public P (st_authority (sv_app sv)))) r"
| "reply_ok P L sv (EnrollReply (EnrollOk (Some att) ep)) \<longleftrightarrow> (\<exists>e epoch. ep = Some epoch \<and> proven P (sv_app sv) e
     \<and> att = attest P (st_authority (sv_app sv)) (en_kem_hex e) epoch (en_operator e))"
| "reply_ok P L sv (AdmissionsReply as) \<longleftrightarrow> list_all (admission_ok P (sv_app sv)) as"
| "reply_ok P L sv _ \<longleftrightarrow> True"

text \<open>The invariant, relative to the state the service started with.\<close>

definition service_inv :: "prims \<Rightarrow> libs \<Rightarrow> authority_service \<Rightarrow> authority_service \<Rightarrow> bool" where
  "service_inv P L sv0 sv \<longleftrightarrow> auth_inv P (li_json L) (sv_app sv) \<and> same_config (sv_app sv0) (sv_app sv) \<and> sv_turn sv = sv_turn sv0
     \<and> (\<forall>t as. st_admissions_cache (sv_app sv) = Some (t, as) \<longrightarrow> list_all (admission_ok P (sv_app sv0)) as)"

lemma service_inv_start: "authority_start P fs cli draw = Inr sv \<Longrightarrow> service_inv P L sv sv"
  by (auto simp: service_inv_def auth_inv_def same_config_def authority_start_def Let_def hm_simps split: option.splits sum.splits)

lemma same_config_trans: "same_config a b \<Longrightarrow> same_config b c \<Longrightarrow> same_config a c"
  by (simp add: same_config_def)

lemma admissions_vouch:
  assumes "auth_inv P J st" "(i, ep, op) \<in> set (admission_inputs P (fst (reg_prune_at (st_registry st) now)))"
  shows "\<exists>e. proven P st e \<and> i = en_kem_hex e \<and> op = en_operator e"
proof -
  have wf: "hm_wf (st_registry st)" using assms(1) by (simp add: auth_inv_def)
  obtain k x where x: "hm_get (fst (reg_prune_at (st_registry st) now)) k = Some x" "i = en_kem_hex (reg_enrollment x)" "op = en_operator (reg_enrollment x)"
    using assms(2) by (auto simp: admission_inputs_def in_map_filter Let_def split: option.splits)
  with prune_entries(2) [OF wf x(1)] assms(1) show ?thesis by (auto simp: auth_inv_def)
qed

lemma admissions_handler_ok:
  assumes "auth_inv P J st" "\<And>t as. st_admissions_cache st = Some (t, as) \<Longrightarrow> list_all (admission_ok P st) as"
    and "admissions_handler P st now = (as, st')"
  shows "list_all (admission_ok P st) as" "st_admissions_cache st' = Some (t, bs) \<Longrightarrow> list_all (admission_ok P st) bs"
proof -
  let ?reg = "fst (reg_prune_at (st_registry st) now)"
  have new: "list_all (admission_ok P st) (map (\<lambda>(identity, ep, op). \<lparr>ae_identity_hex = identity, ae_epoch = ep, ae_operator = op,
      ae_attestation = attest P (st_authority st) identity ep op\<rparr>) (filter (\<lambda>(_, ep, _). epoch_acceptable ep now) (admission_inputs P ?reg)))"
    by (auto simp: list_all_iff admission_ok_def dest!: admissions_vouch [OF assms(1)])
  show "list_all (admission_ok P st) as" "st_admissions_cache st' = Some (t, bs) \<Longrightarrow> list_all (admission_ok P st) bs"
    using assms(2,3) new by (auto simp: admissions_handler_def Let_def split: option.splits if_splits)
qed

lemma admission_ok_config: "same_config st st' \<Longrightarrow> admission_ok P st' a = admission_ok P st a"
  unfolding admission_ok_def by (simp add: same_config_facts) (simp add: same_config_def)

lemma enroll_attests:
  assumes "enroll_handler P Q st ip ah e t1 t2 t3 = (EnrollOk (Some att) ep, st')"
  shows "\<exists>epoch. ep = Some epoch \<and> proven P st e \<and> att = attest P (st_authority st) (en_kem_hex e) epoch (en_operator e)"
proof -
  note c = enroll_handler_cases [of P Q st ip ah e t1 t2 t3]
  have ent: "entitled P Q st ip ah e t1" using c assms by auto
  then have "proven P st e" using liveness_possession by (auto simp: entitled_def proven_def)
  then show ?thesis using ent c assms by (auto simp: Let_def eq_commute [of "Some att"])
qed

text \<open>A handler keeps the invariant, and its reply is as it should be.\<close>

lemma call_handler_inv:
  assumes "hex_ok P" "ed_ok P" "service_inv P L sv0 sv" "call_handler P L sv E rq h = (r, sv')"
  shows "service_inv P L sv0 sv' \<and> reply_ok P L sv0 r"
proof -
  let ?st = "sv_app sv"
  have inv: "auth_inv P (li_json L) ?st" and cfg: "same_config (sv_app sv0) ?st" and turn: "sv_turn sv = sv_turn sv0"
    and cache: "\<And>t as. st_admissions_cache ?st = Some (t, as) \<Longrightarrow> list_all (admission_ok P (sv_app sv0)) as"
    using assms(3) by (auto simp: service_inv_def)
  note facts = same_config_facts [OF cfg] and adm = admission_ok_config [OF cfg]
  have au: "st_authority ?st = st_authority (sv_app sv0)" using cfg by (simp add: same_config_def)
  have keep: "service_inv P L sv0 (sv\<lparr>sv_app := st\<rparr>)"
    if "auth_inv P (li_json L) st" "same_config ?st st" "st_admissions_cache st = st_admissions_cache ?st" for st
    using that cfg turn cache by (auto simp: service_inv_def intro: same_config_trans)
  show ?thesis
  proof (cases h)
    case TurnHandler
    let ?h = "turn_handler P (li_hmac L) (li_ice_json L) (sv_turn sv) ?st (rq_peer rq) (re_t0 E) (re_t1 E) (re_t2 E)"
    have st: "snd ?h = ?st \<or> snd ?h = snd (rate_ok ?st (rq_peer rq) (re_t0 E))"
      by (auto simp: turn_handler_def Let_def case_prod_beta split: option.split)
    then have "st_registry (snd ?h) = st_registry ?st" "st_directory_cache (snd ?h) = st_directory_cache ?st"
      "st_admissions_cache (snd ?h) = st_admissions_cache ?st" "same_config ?st (snd ?h)"
      by (auto simp: same_config_def) (auto simp: rate_ok_def Let_def)
    moreover from this have "auth_inv P (li_json L) (snd ?h)"
      using inv by (intro auth_invI [OF inv]) (auto simp: auth_inv_def)
    moreover have "reply_ok P L sv0 (TurnReply (fst ?h))"
    proof (cases ?h)
      case (Pair x st)
      show ?thesis
      proof (cases x)
        case (TurnOk t)
        note h = Pair [unfolded TurnOk]
        have f: "fst ?h = TurnOk t" by (simp add: h)
        show ?thesis unfolding f using turn_issued [OF h] turn_issued_signature [OF assms(1,2) h] au turn by auto
      qed (simp_all add: Pair)
    qed
    ultimately show ?thesis using assms(4) keep [of "snd ?h"] TurnHandler by (auto simp: call_handler_def split: prod.splits)
  next
    case EnrollHandler
    show ?thesis
    proof (cases "li_enroll_json L (rq_body rq)")
      case (Some e)
      let ?h = "enroll_handler P (re_probes E) ?st (rq_peer rq) (rq_auth rq) e (re_t0 E) (re_t1 E) (re_t2 E)"
      note i = auth_inv_enroll [OF inv, of "re_probes E" "rq_peer rq" "rq_auth rq" e "re_t0 E" "re_t1 E" "re_t2 E"]
      have "st_admissions_cache (snd ?h) = st_admissions_cache ?st"
        by (auto simp: enroll_handler_def Let_def case_prod_beta split: sum.split option.split)
          (auto simp: rate_ok_def Let_def)
      moreover have "reply_ok P L sv0 (EnrollReply (fst ?h))"
        using enroll_attests [of P "re_probes E" ?st "rq_peer rq" "rq_auth rq" e "re_t0 E" "re_t1 E" "re_t2 E"]
        by (cases ?h; cases "fst ?h"; cases "case fst ?h of EnrollOk a _ \<Rightarrow> a | _ \<Rightarrow> None") (auto simp: au facts)
      ultimately show ?thesis using assms(4) keep [OF i] EnrollHandler Some by (auto simp: call_handler_def split: prod.splits)
    qed (use assms(3,4) EnrollHandler in \<open>auto simp: call_handler_def\<close>)
  next
    case DirectoryHandler
    let ?h = "directory_handler P (li_json L) ?st (re_t0 E) (re_clock E)"
    note d = directory_handler_ok [OF assms(1,2) inv, of "re_t0 E" "re_clock E"]
    have "st_admissions_cache (snd ?h) = st_admissions_cache ?st"
      by (auto simp: directory_handler_def Let_def split: sum.split option.split)
    moreover have "reply_ok P L sv0 (DirectoryReply (fst ?h))" using d(3) by (cases "fst ?h") (auto simp: facts)
    ultimately show ?thesis using assms(4) keep [OF d(1,2)] DirectoryHandler by (auto simp: call_handler_def split: prod.splits)
  next
    case AdmissionsHandler
    obtain as st where h: "admissions_handler P ?st (re_t0 E) = (as, st)" by force
    note a = admissions_handler_ok [OF inv _ h] and i = auth_inv_admissions [OF inv, of "re_t0 E"]
    have c: "st_admissions_cache ?st = Some (t, as) \<Longrightarrow> list_all (admission_ok P ?st) as" for t as
      using cache by (simp add: adm list_all_iff)
    show ?thesis using assms(4) AdmissionsHandler h a [OF c] i same_config_trans [OF cfg] turn
      by (auto simp: call_handler_def service_inv_def adm list_all_iff)
  qed (use assms(3,4) in \<open>auto simp: call_handler_def\<close>)
qed

lemma serve_http_inv:
  assumes "hex_ok P" "ed_ok P" "service_inv P L sv0 sv" "serve_http P L sv q = (r, sv')"
  shows "service_inv P L sv0 sv' \<and> reply_ok P L sv0 r"
  using assms call_handler_inv [OF assms(1-3)] by (auto simp: serve_http_def split: prod.splits option.splits)

lemma serve_all_inv:
  assumes "hex_ok P" "ed_ok P" "service_inv P L sv0 sv" "serve_all P L sv qs = (rs, sv')"
  shows "service_inv P L sv0 sv' \<and> list_all (reply_ok P L sv0) rs"
  using assms(3,4)
proof (induction qs arbitrary: sv rs sv')
  case (Cons q qs)
  obtain r sv1 where h: "serve_http P L sv q = (r, sv1)" by force
  obtain rs1 sv2 where a: "serve_all P L sv1 qs = (rs1, sv2)" by force
  note i = serve_http_inv [OF assms(1,2) Cons.prems(1) h]
  from Cons.IH [OF conjunct1 [OF i] a] i Cons.prems(2) h a show ?case by clarsimp
qed simp

lemma authority_start_Inr:
  assumes "authority_start P fs cli draw = Inr sv"
  shows "\<exists>raw seed secret. fs (ac_authority_key cli) = Some raw \<and> read_ed25519_seed P (text_of raw) = Some seed
    \<and> read_turn_secret fs (ac_turn_secret_file cli) = Inr secret
    \<and> st_authority (sv_app sv) = seed \<and> st_pop_sk (sv_app sv) = derive_authority_pop_sk P seed
    \<and> st_require_liveness (sv_app sv) = (\<not> ac_skip_liveness_probe cli) \<and> st_accept_legacy_pop (sv_app sv) = ac_accept_legacy_pop cli
    \<and> st_registry (sv_app sv) = [] \<and> turn_urls (sv_turn sv) = ac_turn_url cli \<and> turn_secret (sv_turn sv) = secret"
  using assms by (auto simp: authority_start_def Let_def split: option.splits sum.splits)

text \<open>What the options of an authority make of an enrolment that it may sign for.\<close>

definition vetted :: "prims \<Rightarrow> authority_cli \<Rightarrow> bytes \<Rightarrow> enrollment \<Rightarrow> bool" where
  "vetted P cli seed e \<longleftrightarrow> (\<exists>a. validate P e = Inr a)
     \<and> (\<not> ac_skip_liveness_probe cli \<longrightarrow> possession P (derive_authority_pop_sk P seed) (ac_accept_legacy_pop cli) e)"


section \<open>An enrolled relay is published\<close>

text \<open>The registry has the key, seen at \<open>t\<close> or later.\<close>

definition reg_has :: "string \<Rightarrow> nat \<Rightarrow> registry \<Rightarrow> bool" where
  "reg_has k t reg \<longleftrightarrow> hm_wf reg \<and> (\<exists>x. hm_get reg k = Some x \<and> en_kem_hex (reg_enrollment x) = k \<and> t \<le> last_seen x)"

lemma reg_has_prune: "reg_has k t reg \<Longrightarrow> now \<le> t + ENROLL_STALE_AFTER_SECS \<Longrightarrow> reg_has k t (fst (reg_prune_at reg now))"
  by (auto simp: reg_has_def reg_prune_at_def Let_def hm_simps sat_sub_def)

lemma reg_has_enroll:
  assumes "reg_has k t (st_registry st)" "t \<le> t2"
  shows "reg_has k t (st_registry (snd (enroll_handler P Q st ip ah e t1 t2 t3)))"
  using assms enroll_handler_cases [of P Q st ip ah e t1 t2 t3]
  by (cases "entitled P Q st ip ah e t1") (auto simp: reg_has_def hm_simps)

text \<open>The clock readings of a request lie between the enrolment and the moment it would lapse.\<close>

definition in_time :: "nat \<Rightarrow> request_env \<Rightarrow> bool" where
  "in_time t E \<longleftrightarrow> re_t0 E \<le> t + ENROLL_STALE_AFTER_SECS \<and> t \<le> re_t1 E"

lemma reg_has_serve:
  assumes "reg_has k t (st_registry (sv_app sv))" "in_time t (fst q)" "serve_http P L sv q = (r, sv')"
  shows "reg_has k t (st_registry (sv_app sv'))"
proof -
  obtain E rq where q: "q = (E, rq)" by force
  let ?st = "sv_app sv"
  have T: "st_registry (snd (turn_handler P h J c ?st ip t0 t1 t2)) = st_registry ?st" for h J c ip t0 t1 t2
    by (auto simp: turn_handler_def Let_def case_prod_beta split: option.split)
  have E: "reg_has k t (st_registry (snd (enroll_handler P Q ?st ip ah e t0 (re_t1 E) t2)))" for Q ip ah e t0 t2
    using reg_has_enroll [OF assms(1)] assms(2) by (simp add: in_time_def q)
  have pr: "reg_has k t (fst (reg_prune_at (st_registry ?st) (re_t0 E)))"
    using reg_has_prune [OF assms(1)] assms(2) by (simp add: in_time_def q)
  have D: "reg_has k t (st_registry (snd (directory_handler P J ?st (re_t0 E) c)))"
    "reg_has k t (st_registry (snd (admissions_handler P ?st (re_t0 E))))" for J c
    using assms(1) pr by (auto simp: directory_handler_def admissions_handler_def Let_def split: option.split sum.split)
  show ?thesis using assms(1,3) T E D unfolding q
    by (auto simp: serve_http_def call_handler_def case_prod_beta split: option.splits handler.splits)
qed

lemma reg_has_serve_all:
  "reg_has k t (st_registry (sv_app sv)) \<Longrightarrow> list_all (in_time t \<circ> fst) qs \<Longrightarrow> serve_all P L sv qs = (rs, sv')
     \<Longrightarrow> reg_has k t (st_registry (sv_app sv'))"
proof (induction qs arbitrary: sv rs sv')
  case (Cons q qs)
  obtain r sv1 where h: "serve_http P L sv q = (r, sv1)" by force
  obtain rs1 sv2 where a: "serve_all P L sv1 qs = (rs1, sv2)" by force
  have "in_time t (fst q)" using Cons.prems(2) by simp
  from Cons.IH [OF reg_has_serve [OF Cons.prems(1) this h] _ a] Cons.prems(2,3) h a show ?case by clarsimp
qed simp

lemma enrolled_reg_has:
  assumes "hm_wf (st_registry (sv_app sv))" "serve_http P L sv (E, rq) = (EnrollReply (EnrollOk att ep), sv')"
  shows "\<exists>e. li_enroll_json L (rq_body rq) = Some e \<and> reg_has (en_kem_hex e) (re_t1 E) (st_registry (sv_app sv'))"
proof -
  obtain e where e: "li_enroll_json L (rq_body rq) = Some e"
    and h: "enroll_handler P (re_probes E) (sv_app sv) (rq_peer rq) (rq_auth rq) e (re_t0 E) (re_t1 E) (re_t2 E) = (EnrollOk att ep, sv_app sv')"
    using assms(2) by (auto simp: serve_http_def call_handler_def split: option.splits handler.splits prod.splits)
  note c = enroll_handler_cases [of P "re_probes E" "sv_app sv" "rq_peer rq" "rq_auth rq" e "re_t0 E" "re_t1 E" "re_t2 E"]
  have "entitled P (re_probes E) (sv_app sv) (rq_peer rq) (rq_auth rq) e (re_t0 E)" using c h by auto
  then have "sv_app sv' = (snd (rate_ok (sv_app sv) (rq_peer rq) (re_t0 E)))\<lparr>st_registry := hm_insert (en_kem_hex e)
      \<lparr>reg_enrollment = e, last_seen = re_t1 E, first_seen = (case hm_get (st_registry (sv_app sv)) (en_kem_hex e) of
         Some x \<Rightarrow> first_seen x | None \<Rightarrow> re_t1 E)\<rparr> (st_registry (sv_app sv))\<rparr>"
    using c h by simp
  then show ?thesis using e assms(1) by (simp add: reg_has_def hm_simps)
qed

lemma build_signed_ok:
  assumes "\<forall>d. J d \<noteq> None" "now + valid \<le> u64_max"
  shows "\<exists>sd. build_signed P J reg sk valid (Some now) = Inr sd \<and> valid_after (doc sd) = now
    \<and> relays (doc sd) = sort_key id_pubkey_hex (reg_descriptors P reg)"
proof -
  let ?d = "\<lparr>doc_version = DIRECTORY_VERSION, valid_after = now, valid_until = now + valid, relays = sort_key id_pubkey_hex (reg_descriptors P reg)\<rparr>"
  obtain b where "J ?d = Some b" using assms(1) by blast
  with assms(2) show ?thesis by (simp add: build_signed_def doc_new_def checked_add_def directory_sign_def canonical_bytes_def)
qed

lemma routes_distinct: "distinct (map (\<lambda>(q, k, _). (q, k)) build_router)"
  by (simp add: build_router_def)

lemma directory_routed: "router_ok D \<Longrightarrow> D build_router GET ''/directory'' = Some DirectoryHandler"
  using routes_distinct by (auto simp: router_ok_def) (simp add: build_router_def)


subsection \<open>A concrete service\<close>

definition demo_libs :: libs where
  "demo_libs = \<lparr>li_router = (\<lambda>rs m p. map_of (map (\<lambda>(q, k, h). ((q, k), h)) rs) (p, m)), li_json = demo_json,
     li_enroll_json = (\<lambda>b. if b = [1] then Some demo_request else None), li_ice_json = (\<lambda>_. []), li_hmac = (\<lambda>_ _. [])\<rparr>"

definition demo_key_fs :: fs where
  "demo_key_fs = [''authority.key'' \<mapsto> replicate 32 16]"

definition demo_request_env :: "nat \<Rightarrow> request_env" where
  "demo_request_env t = \<lparr>re_probes = demo_probes, re_t0 = t, re_t1 = t, re_t2 = t, re_clock = Some t\<rparr>"

definition enroll_rq :: http_request where
  "enroll_rq = \<lparr>rq_method = POST, rq_path = ''/enroll'', rq_peer = V4 [1, 2, 3, 4], rq_auth = None, rq_body = [1]\<rparr>"

definition directory_rq :: http_request where
  "directory_rq = \<lparr>rq_method = GET, rq_path = ''/directory'', rq_peer = V4 [5, 6, 7, 8], rq_auth = None, rq_body = []\<rparr>"

lemma demo_router_ok: "router_ok (li_router demo_libs)"
proof -
  have "distinct (map (\<lambda>(q, k, _). (q, k)) rs) \<Longrightarrow> map_of (map (\<lambda>(q, k, h). ((q, k), h)) rs) (p, m) = Some h \<longleftrightarrow> (p, m, h) \<in> set rs"
    for rs :: "route list" and p m h
    by (induction rs) (auto simp: image_iff)
  then show ?thesis by (auto simp: router_ok_def demo_libs_def)
qed

lemma demo_service_start:
  "\<exists>sv. authority_start demo_prims demo_key_fs (authority_cli_default ''authority.key'') (\<lambda>_. 0) = Inr sv
     \<and> sv_app sv = demo_app\<lparr>st_authority := replicate 32 16\<rparr>"
proof -
  have k: "read_ed25519_seed demo_prims (text_of (replicate 32 16)) = Some (replicate 32 16)"
    by (simp add: read_ed25519_seed_def text_of_def list_all_iff is_space_def Let_def ascii_def ascii_byte_def)
  have "derive_authority_pop_sk demo_prims (replicate 32 16) = replicate 32 16"
    by (simp add: derive_authority_pop_sk_def demo_prims_def arr_def list_eq_iff_nth_eq)
  with k show ?thesis
    by (simp add: authority_start_def demo_key_fs_def authority_cli_default_def read_turn_secret_def demo_app_def Let_def)
qed

lemma entitled_authority:
  "entitled P Q (st\<lparr>st_authority := k\<rparr>) ip ah e t = entitled P Q st ip ah e t"
proof -
  have "token_ok (st\<lparr>st_authority := k\<rparr>) ah = token_ok st ah" by (simp add: token_ok_def)
  moreover have "fst (rate_ok (st\<lparr>st_authority := k\<rparr>) ip t) = fst (rate_ok st ip t)" by (simp add: rate_ok_def Let_def)
  moreover have "liveness_check P Q (st\<lparr>st_authority := k\<rparr>) e a = liveness_check P Q st e a" for a
    by (simp add: liveness_check_def cong: option.case_cong if_cong)
  ultimately show ?thesis by (simp add: entitled_def)
qed

lemma demo_enrolled:
  assumes "sv_app sv = demo_app\<lparr>st_authority := replicate 32 16\<rparr>"
  shows "\<exists>att ep sv1. serve_http demo_prims demo_libs sv (demo_request_env 1000, enroll_rq) = (EnrollReply (EnrollOk att ep), sv1)
    \<and> st_directory_cache (sv_app sv1) = None \<and> st_valid_secs (sv_app sv1) = 3600
    \<and> st_registry (sv_app sv1) = [(cfg_kem_hex demo_cfg, \<lparr>reg_enrollment = demo_request, last_seen = 1000, first_seen = 1000\<rparr>)]"
proof -
  let ?st = "sv_app sv"
  have "entitled demo_prims demo_probes ?st (V4 [1, 2, 3, 4]) None demo_request 1000"
    using demo_entitled by (simp add: assms entitled_authority)
  moreover have "st_registry ?st = []" "st_directory_cache ?st = None" "st_valid_secs ?st = 3600" by (simp_all add: assms demo_app_def)
  ultimately show ?thesis
    using enroll_handler_cases [of demo_prims demo_probes ?st "V4 [1, 2, 3, 4]" None demo_request 1000 1000 1000]
    by (simp add: serve_http_def call_handler_def demo_libs_def enroll_rq_def demo_request_env_def build_router_def demo_request_fields
        Let_def hm_insert_def hm_simps) (simp add: rate_ok_def Let_def hm_simps)
qed

lemma demo_published:
  assumes "st_directory_cache (sv_app sv) = None" "st_valid_secs (sv_app sv) = 3600"
    and "st_registry (sv_app sv) = [(cfg_kem_hex demo_cfg, \<lparr>reg_enrollment = demo_request, last_seen = 1000, first_seen = 1000\<rparr>)]"
  shows "\<exists>sd sv'. serve_http demo_prims demo_libs sv (demo_request_env 1500, directory_rq) = (DirectoryReply (Inr sd), sv')
    \<and> relays (doc sd) = [to_descriptor demo_request] \<and> valid_after (doc sd) = 1500 \<and> valid_until (doc sd) = 5100"
proof -
  have "rendezvous (to_descriptor demo_request) = None" by (simp add: to_descriptor_def demo_request_fields)
  then have rd: "reg_descriptors demo_prims (st_registry (sv_app sv)) = [to_descriptor demo_request]"
    by (simp add: reg_descriptors_def order_for_diversity_caps_def assms(3) single_capped)
  have pr: "fst (reg_prune_at (st_registry (sv_app sv)) 1500) = st_registry (sv_app sv)"
    by (simp add: reg_prune_at_def Let_def hm_retain_def assms(3) sat_sub_def ENROLL_STALE_AFTER_SECS_def)
  show ?thesis
    by (simp add: serve_http_def call_handler_def demo_libs_def directory_rq_def demo_request_env_def build_router_def directory_handler_def
        assms(1,2) pr build_signed_def rd doc_new_def checked_add_def u64_max_def directory_sign_def canonical_bytes_def demo_json_def)
qed



end
