(* ===== verification/Roster_Correct.thy ===== *)
theory Roster_Correct
  imports Roster
begin

text \<open>
  Correctness of the roster: what it holds is what verified advertisements and quorum
  certificates put there, an entry only ever gives way to a newer one, and exactly when an
  exchange makes two nodes agree.
\<close>

section \<open>What a roster holds for a key\<close>

type_synonym item = "advertisement \<times> admission_cert"

definition item_of :: "roster \<Rightarrow> string \<Rightarrow> item option" where
  "item_of r k = (case hm_get (entries r) k of None \<Rightarrow> None | Some ad \<Rightarrow> map_option (Pair ad) (hm_get (admissions r) k))"

definition paired :: "roster \<Rightarrow> bool" where
  "paired r \<longleftrightarrow> hm_wf (entries r) \<and> hm_wf (admissions r) \<and> (\<forall>k. hm_get (entries r) k = None \<longleftrightarrow> hm_get (admissions r) k = None)"

text \<open>Which of two items a merge keeps.\<close>

definition supersedes :: "item \<Rightarrow> item \<Rightarrow> bool" where
  "supersedes y x \<longleftrightarrow> ad_seq (fst x) < ad_seq (fst y) \<and> cert_epoch (snd x) \<le> cert_epoch (snd y)"

definition newer :: "item option \<Rightarrow> item \<Rightarrow> item" where
  "newer x y = (case x of None \<Rightarrow> y | Some x \<Rightarrow> if supersedes y x then y else x)"

lemma paired_new: "paired roster_new" "item_of roster_new k = None"
  by (simp_all add: paired_def roster_new_def item_of_def hm_simps)

lemma item_of_None: "paired r \<Longrightarrow> item_of r k = None \<longleftrightarrow> hm_get (entries r) k = None"
  by (auto simp: item_of_def paired_def split: option.splits)

lemma item_of_Some: "item_of r k = Some (ad, c) \<longleftrightarrow> hm_get (entries r) k = Some ad \<and> hm_get (admissions r) k = Some c"
  by (auto simp: item_of_def split: option.splits)

lemma paired_put:
  assumes "paired r"
  shows "paired (r\<lparr>admissions := hm_insert k c (admissions r), entries := hm_insert k ad (entries r)\<rparr>)"
    "item_of (r\<lparr>admissions := hm_insert k c (admissions r), entries := hm_insert k ad (entries r)\<rparr>) k'
       = (if k' = k then Some (ad, c) else item_of r k')"
  using assms by (auto simp: paired_def item_of_def hm_simps split: option.split)

lemma paired_put_out:
  assumes "paired r"
  shows "paired (r\<lparr>entries := hm_insert k ad (entries r), admissions := hm_insert k c (admissions r)\<rparr>)"
    "item_of (r\<lparr>entries := hm_insert k ad (entries r), admissions := hm_insert k c (admissions r)\<rparr>) k'
       = (if k' = k then Some (ad, c) else item_of r k')"
  using assms by (auto simp: paired_def item_of_def hm_simps split: option.split)

lemma paired_cases:
  assumes "paired r"
  obtains "hm_get (entries r) k = None" "hm_get (admissions r) k = None" "item_of r k = None"
  | ad c where "hm_get (entries r) k = Some ad" "hm_get (admissions r) k = Some c" "item_of r k = Some (ad, c)"
proof (cases "hm_get (entries r) k")
  case None
  then show ?thesis using assms that(1) by (simp add: paired_def item_of_def)
next
  case (Some ad)
  then obtain c where "hm_get (admissions r) k = Some c" using assms unfolding paired_def by (metis not_Some_eq option.distinct(1))
  with Some show ?thesis using that(2) by (simp add: item_of_def)
qed

lemma take_newer_item:
  assumes "paired r"
  shows "paired (fst (take_newer k ad c (r, d)))"
    "item_of (fst (take_newer k ad c (r, d))) k' = (if k' = k then Some (newer (item_of r k) (ad, c)) else item_of r k')"
  using assms
  by (cases rule: paired_cases [OF assms, of k]; auto simp: take_newer_def newer_def supersedes_def paired_put)+

lemma splice_fold:
  fixes adm :: "(string, admission_cert) hashmap" and kvs :: "(string \<times> advertisement) list"
  assumes "paired r" "distinct (map fst kvs)"
  defines "out \<equiv> \<lambda>rd. fold (\<lambda>(key, ad) rd. case hm_get adm key of None \<Rightarrow> rd | Some cert \<Rightarrow> take_newer key ad cert rd) kvs rd"
  shows "paired (fst (out (r, d)))
    \<and> item_of (fst (out (r, d))) k = (case map_of kvs k of None \<Rightarrow> item_of r k
        | Some ad \<Rightarrow> (case hm_get adm k of None \<Rightarrow> item_of r k | Some c \<Rightarrow> Some (newer (item_of r k) (ad, c))))"
  using assms(1,2) unfolding out_def
proof (induction kvs arbitrary: r d)
  case Nil
  then show ?case by simp
next
  case (Cons kv kvs)
  obtain key ad where kv: "kv = (key, ad)" by (cases kv)
  have nk: "map_of kvs key = None" using Cons.prems(2) kv by (auto simp: map_of_eq_None_iff)
  show ?case
  proof (cases "hm_get adm key")
    case None
    then show ?thesis using Cons.IH [OF Cons.prems(1)] Cons.prems(2) kv nk by (auto split: option.splits)
  next
    case (Some cert)
    obtain r' d' where t: "take_newer key ad cert (r, d) = (r', d')" by force
    note s = take_newer_item [OF Cons.prems(1), of key ad cert d, unfolded t fst_conv]
    from Cons.IH [OF s(1), of d'] Cons.prems(2) kv nk Some t s(2) show ?thesis by (auto split: option.splits)
  qed
qed

lemma splice_item:
  assumes "paired r" "paired v"
  shows "paired (fst (splice_verified r v))"
    "item_of (fst (splice_verified r v)) k = (case item_of v k of None \<Rightarrow> item_of r k | Some y \<Rightarrow> Some (newer (item_of r k) y))"
  using splice_fold [OF assms(1), of "entries v" "admissions v" 0 k] assms(2)
  by (auto simp: splice_verified_def paired_def hm_wf_def item_of_def hm_get_def split: option.splits)

section \<open>Only admitted relays\<close>

lemma lower_lower: "lower (lower s) = lower s"
proof -
  have "to_ascii_lower (to_ascii_lower c) = to_ascii_lower c" for c
    by (cases "65 \<le> (of_char c :: nat) \<and> (of_char c :: nat) \<le> 90") (auto simp: to_ascii_lower_def Let_def)
  then show ?thesis by (simp add: lower_def)
qed

lemma eq_ignore_lower: "eq_ignore_ascii_case a b \<longleftrightarrow> lower a = lower b"
  by (simp add: eq_ignore_ascii_case_def lower_def)

definition item_ok :: "prims \<Rightarrow> ad_json \<Rightarrow> authority_set \<Rightarrow> string \<Rightarrow> item \<Rightarrow> bool" where
  "item_ok P J S k x \<longleftrightarrow> k = lower (ad_identity_hex (fst x)) \<and> ad_verify P J (fst x) = Inr ()
     \<and> lower (cert_identity_hex (snd x)) = k \<and> (\<exists>n. cert_verify P (snd x) S = Inr n)"

definition roster_ok :: "prims \<Rightarrow> ad_json \<Rightarrow> authority_set \<Rightarrow> roster \<Rightarrow> bool" where
  "roster_ok P J S r \<longleftrightarrow> paired r \<and> (\<forall>k x. item_of r k = Some x \<longrightarrow> item_ok P J S k x)"

lemma vet_entry_ok:
  "vet_entry P J S now other pk ad = Some (key, c) \<Longrightarrow>
     item_ok P J S key (ad, c) \<and> is_fresh c now \<and> sat_sub now (ad_signed_at ad) \<le> STALE_AFTER_SECS"
  by (auto simp: vet_entry_def item_ok_def Let_def eq_ignore_lower lower_lower split: if_splits sum.splits option.splits)

lemma roster_ok_take_newer:
  assumes "roster_ok P J S r" "item_ok P J S k (ad, c)"
  shows "roster_ok P J S (fst (take_newer k ad c (r, d)))"
  using assms take_newer_item [of r k ad c d]
  by (auto simp: roster_ok_def newer_def split: if_splits option.splits)

lemma roster_ok_merge: "roster_ok P J S r \<Longrightarrow> roster_ok P J S (fst (merge_admitted P J S r other now))"
proof -
  have "roster_ok P J S r \<Longrightarrow> roster_ok P J S (fst (fold (\<lambda>(peer_key, ad) rd.
      case vet_entry P J S now other peer_key ad of None \<Rightarrow> rd | Some (key, cert) \<Rightarrow> take_newer key ad cert rd) kvs (r, d)))" for kvs d
  proof (induction kvs arbitrary: r d)
    case (Cons kv kvs)
    obtain pk ad where kv: "kv = (pk, ad)" by (cases kv)
    show ?case
    proof (cases "vet_entry P J S now other pk ad")
      case None
      then show ?thesis using Cons.IH [OF Cons.prems] kv by simp
    next
      case (Some kc)
      obtain key c where kc: "kc = (key, c)" by (cases kc)
      obtain r' d' where t: "take_newer key ad c (r, d) = (r', d')" by force
      have "roster_ok P J S r'"
        using roster_ok_take_newer [OF Cons.prems vet_entry_ok [OF Some [unfolded kc], THEN conjunct1], where d = d] t by simp
      with Cons.IH kv Some kc t show ?thesis by simp
    qed
  qed simp
  then show "roster_ok P J S r \<Longrightarrow> ?thesis" by (simp add: merge_admitted_def)
qed

lemma verify_incoming_fold:
  fixes other :: roster and kvs :: "(string \<times> advertisement) list"
  assumes "roster_ok P J S out" "\<forall>k ad c. item_of out k = Some (ad, c) \<longrightarrow> is_fresh c now \<and> sat_sub now (ad_signed_at ad) \<le> STALE_AFTER_SECS"
  defines "f \<equiv> \<lambda>(peer_key, ad) out. case vet_entry P J S now other peer_key ad of
             None \<Rightarrow> out
           | Some (key, cert) \<Rightarrow> out\<lparr>entries := hm_insert key ad (entries out), admissions := hm_insert key cert (admissions out)\<rparr>"
  shows "roster_ok P J S (fold f kvs out) \<and> (\<forall>k ad c. item_of (fold f kvs out) k = Some (ad, c) \<longrightarrow> is_fresh c now \<and> sat_sub now (ad_signed_at ad) \<le> STALE_AFTER_SECS)"
  using assms(1,2)
proof (induction kvs arbitrary: out)
  case (Cons kv kvs)
  obtain pk ad where kv: "kv = (pk, ad)" by (cases kv)
  show ?case
  proof (cases "vet_entry P J S now other pk ad")
    case None
    then have "fold f (kv # kvs) out = fold f kvs out" by (simp add: kv f_def)
    then show ?thesis using Cons.IH [OF Cons.prems] by metis
  next
    case (Some kc)
    obtain key c where kc: "kc = (key, c)" by (cases kc)
    let ?out = "out\<lparr>entries := hm_insert key ad (entries out), admissions := hm_insert key c (admissions out)\<rparr>"
    note v = vet_entry_ok [OF Some [unfolded kc]]
    have p: "paired out" using Cons.prems(1) by (simp add: roster_ok_def)
    have "roster_ok P J S ?out" using Cons.prems(1) v paired_put_out [OF p, where k = key and ad = ad and c = c] by (auto simp: roster_ok_def)
    moreover have "\<forall>k ad' c'. item_of ?out k = Some (ad', c') \<longrightarrow> is_fresh c' now \<and> sat_sub now (ad_signed_at ad') \<le> STALE_AFTER_SECS"
      using Cons.prems(2) v paired_put_out(2) [OF p, where k = key and ad = ad and c = c] by auto
    moreover have "fold f (kv # kvs) out = fold f kvs ?out" by (simp add: kv f_def Some kc)
    ultimately show ?thesis using Cons.IH [of ?out] by metis
  qed
qed simp

lemma roster_ok_new: "roster_ok P J S roster_new"
  by (simp add: roster_ok_def paired_new)

lemma verify_incoming_ok:
  "roster_ok P J S (verify_incoming P J S other now)"
  unfolding verify_incoming_def
  using verify_incoming_fold [OF roster_ok_new, of now P J S other "take MAX_GOSSIP_ENTRIES (entries other)"]
  by (simp add: paired_new)

lemma roster_ok_gossip:
  assumes "roster_ok P J S r"
  shows "roster_ok P J S (fst (gossip_receive P J S now r peer))"
proof -
  note v = verify_incoming_ok [of P J S peer now]
  have p: "paired r" "paired (verify_incoming P J S peer now)" using assms v by (simp_all add: roster_ok_def)
  show ?thesis using assms v splice_item [OF p]
    by (auto simp: roster_ok_def gossip_receive_def newer_def split: option.splits if_splits)
qed

lemma roster_ok_insert:
  assumes "roster_ok P J S r" "insert_admitted P J S r ad c now = Inr r'"
  shows "roster_ok P J S r'"
proof -
  have p: "paired r" using assms(1) by (simp add: roster_ok_def)
  from assms(2) have "item_ok P J S (lower (ad_identity_hex ad)) (ad, c)"
    and r': "r' = r\<lparr>admissions := hm_insert (lower (ad_identity_hex ad)) c (admissions r), entries := hm_insert (lower (ad_identity_hex ad)) ad (entries r)\<rparr>"
    by (auto simp: insert_admitted_def item_ok_def Let_def eq_ignore_lower split: sum.splits if_splits option.splits)
  then show ?thesis using assms(1) paired_put [OF p] by (auto simp: roster_ok_def)
qed

lemma prune_item:
  assumes "paired r"
  shows "paired (fst (prune_stale r now))"
    "item_of (fst (prune_stale r now)) k = (case item_of r k of None \<Rightarrow> None
       | Some x \<Rightarrow> if sat_sub now STALE_AFTER_SECS \<le> ad_signed_at (fst x) then Some x else None)"
proof -
  have w: "hm_wf (entries r)" "hm_wf (admissions r)" "\<forall>k. hm_get (entries r) k = None \<longleftrightarrow> hm_get (admissions r) k = None"
    using assms by (auto simp: paired_def)
  have "hm_get (entries (fst (prune_stale r now))) k = None \<longleftrightarrow> hm_get (admissions (fst (prune_stale r now))) k = None" for k
    using w(1,2) by (cases rule: paired_cases [OF assms, of k]) (auto simp: prune_stale_def Let_def hm_simps hm_contains_def)
  then show "paired (fst (prune_stale r now))"
    using w(1,2) by (simp add: paired_def prune_stale_def Let_def hm_simps)
  show "item_of (fst (prune_stale r now)) k = (case item_of r k of None \<Rightarrow> None
       | Some x \<Rightarrow> if sat_sub now STALE_AFTER_SECS \<le> ad_signed_at (fst x) then Some x else None)"
    unfolding item_of_def [of "fst (prune_stale r now)"] using w(1,2)
    by (cases rule: paired_cases [OF assms, of k]) (auto simp: prune_stale_def Let_def hm_simps hm_contains_def)
qed

text \<open>The operations a node performs on its roster.\<close>

datatype roster_op =
    OpInsert advertisement admission_cert nat
  | OpMerge roster nat
  | OpGossip roster nat
  | OpPrune nat

fun roster_apply :: "prims \<Rightarrow> ad_json \<Rightarrow> authority_set \<Rightarrow> roster \<Rightarrow> roster_op \<Rightarrow> roster" where
  "roster_apply P J S r (OpInsert ad c now) = (case insert_admitted P J S r ad c now of Inl _ \<Rightarrow> r | Inr r' \<Rightarrow> r')"
| "roster_apply P J S r (OpMerge other now) = fst (merge_admitted P J S r other now)"
| "roster_apply P J S r (OpGossip peer now) = fst (gossip_receive P J S now r peer)"
| "roster_apply P J S r (OpPrune now) = fst (prune_stale r now)"

lemma roster_ok_apply: "roster_ok P J S r \<Longrightarrow> roster_ok P J S (roster_apply P J S r opn)"
proof (cases opn)
  case (OpInsert ad c now)
  then show "roster_ok P J S r \<Longrightarrow> ?thesis" using roster_ok_insert by (auto split: sum.split)
next
  case (OpPrune now)
  then show "roster_ok P J S r \<Longrightarrow> ?thesis"
    using prune_item [of r now] by (auto simp: roster_ok_def split: option.splits if_splits)
qed (simp_all add: roster_ok_merge roster_ok_gossip)

lemma roster_ok_run: "roster_ok P J S r \<Longrightarrow> roster_ok P J S (foldl (roster_apply P J S) r ops)"
  by (induction ops arbitrary: r) (simp_all add: roster_ok_apply)


section \<open>When an exchange makes two nodes agree\<close>

text \<open>A roster whose entries a peer would accept at a given time.\<close>

definition current :: "prims \<Rightarrow> ad_json \<Rightarrow> authority_set \<Rightarrow> nat \<Rightarrow> roster \<Rightarrow> bool" where
  "current P J S now r \<longleftrightarrow> roster_ok P J S r \<and> length (entries r) \<le> MAX_GOSSIP_ENTRIES
     \<and> (\<forall>k ad c. item_of r k = Some (ad, c) \<longrightarrow> is_fresh c now \<and> sat_sub now (ad_signed_at ad) \<le> STALE_AFTER_SECS)"

lemma vet_current:
  assumes "current P J S now r" "hm_get (entries r) k = Some ad"
  shows "\<exists>c. hm_get (admissions r) k = Some c \<and> vet_entry P J S now r k ad = Some (k, c)"
proof -
  have p: "paired r" using assms(1) by (simp add: current_def roster_ok_def)
  from paired_cases [OF p, of k] assms(2) obtain c where c: "hm_get (admissions r) k = Some c" "item_of r k = Some (ad, c)"
    by (metis option.distinct(1) option.inject)
  with assms(1) have "item_ok P J S k (ad, c)" "is_fresh c now" "\<not> STALE_AFTER_SECS < sat_sub now (ad_signed_at ad)"
    by (force simp: current_def roster_ok_def)+
  with c show ?thesis by (auto simp: vet_entry_def item_ok_def Let_def eq_ignore_lower lower_lower)
qed

lemma incoming_fold:
  fixes other :: roster and kvs :: "(string \<times> advertisement) list"
  assumes "paired out" "distinct (map fst kvs)" "\<forall>(k, ad) \<in> set kvs. \<exists>c. hm_get (admissions other) k = Some c \<and> vet_entry P J S now other k ad = Some (k, c)"
  defines "f \<equiv> \<lambda>(peer_key, ad) out. case vet_entry P J S now other peer_key ad of
             None \<Rightarrow> out
           | Some (key, cert) \<Rightarrow> out\<lparr>entries := hm_insert key ad (entries out), admissions := hm_insert key cert (admissions out)\<rparr>"
  shows "item_of (fold f kvs out) k = (case map_of kvs k of None \<Rightarrow> item_of out k
        | Some ad \<Rightarrow> map_option (Pair ad) (hm_get (admissions other) k))"
  using assms(1-3)
proof (induction kvs arbitrary: out)
  case (Cons kv kvs)
  obtain pk ad where kv: "kv = (pk, ad)" by (cases kv)
  from Cons.prems(3) kv obtain c where c: "hm_get (admissions other) pk = Some c" "vet_entry P J S now other pk ad = Some (pk, c)" by auto
  have nk: "map_of kvs pk = None" using Cons.prems(2) kv by (auto simp: map_of_eq_None_iff)
  note put = paired_put_out [OF Cons.prems(1), where k = pk and ad = ad and c = c]
  have step: "fold f (kv # kvs) out = fold f kvs (out\<lparr>entries := hm_insert pk ad (entries out), admissions := hm_insert pk c (admissions out)\<rparr>)"
    by (simp add: kv f_def c(2))
  have "distinct (map fst kvs)" "\<forall>(k, ad) \<in> set kvs. \<exists>c. hm_get (admissions other) k = Some c \<and> vet_entry P J S now other k ad = Some (k, c)"
    using Cons.prems(2,3) by simp_all
  note ih = Cons.IH [OF put(1) this]
  show ?case
  proof (cases "k = pk")
    case True
    then show ?thesis unfolding step ih using nk c(1) kv put(2) by simp
  next
    case False
    then show ?thesis unfolding step ih using kv put(2) by (simp split: option.split)
  qed
qed simp

lemma incoming_current:
  assumes "current P J S now r"
  shows "item_of (verify_incoming P J S r now) k = item_of r k"
proof -
  have r: "hm_wf (entries r)" "take MAX_GOSSIP_ENTRIES (entries r) = entries r" using assms by (simp_all add: current_def roster_ok_def paired_def)
  have "\<forall>(k, ad) \<in> set (entries r). \<exists>c. hm_get (admissions r) k = Some c \<and> vet_entry P J S now r k ad = Some (k, c)"
    using vet_current [OF assms] r(1) by (auto simp: hm_get_in)
  then show ?thesis unfolding verify_incoming_def r(2)
    using incoming_fold [OF paired_new(1) _ , of "entries r" r P J S now k] r(1)
    by (simp add: hm_wf_def item_of_def [of r] paired_new(2) hm_get_def split: option.split)
qed

lemma receive_item:
  assumes "paired r" "current P J S now peer"
  shows "item_of (fst (gossip_receive P J S now r peer)) k
    = (case item_of peer k of None \<Rightarrow> item_of r k | Some y \<Rightarrow> Some (newer (item_of r k) y))"
  using splice_item(2) [OF assms(1)] verify_incoming_ok [of P J S peer now] incoming_current [OF assms(2)]
  by (simp add: gossip_receive_def roster_ok_def)

text \<open>Two items for a key are in order when one supersedes the other or they are the same.\<close>

definition in_order :: "item option \<Rightarrow> item option \<Rightarrow> bool" where
  "in_order x y = (case (x, y) of (Some a, Some b) \<Rightarrow> a = b \<or> supersedes a b \<or> supersedes b a | _ \<Rightarrow> True)"

lemma newer_agree:
  assumes "supersedes y x \<longrightarrow> \<not> supersedes x y"
  shows "newer (Some x) (newer (Some y) x) = newer (Some y) x \<longleftrightarrow> x = y \<or> supersedes x y \<or> supersedes y x"
  using assms by (auto simp: newer_def)

lemma supersedes_asym: "supersedes y x \<Longrightarrow> \<not> supersedes x y"
  by (simp add: supersedes_def)

text \<open>
  C22: when gossip makes two nodes agree. After an exchange between two nodes whose rosters are
  valid and current, the two hold the same for every key exactly when, for every key both hold
  an entry for, the entries are the same or one has both the higher sequence number and an
  epoch not lower. Then each holds the newer of the two; otherwise each keeps its own.
\<close>

theorem gossip_exchange_agrees:
  assumes "current P J S now a" and "current P J S now b"
    and "length (entries (snd (gossip_exchange P J S now a b))) \<le> MAX_GOSSIP_ENTRIES"
  shows "(\<forall>k. item_of (fst (gossip_exchange P J S now a b)) k = item_of (snd (gossip_exchange P J S now a b)) k)
    \<longleftrightarrow> (\<forall>k. in_order (item_of a k) (item_of b k))"
proof -
  have p: "paired a" "paired b" using assms by (simp_all add: current_def roster_ok_def)
  have b': "item_of (snd (gossip_exchange P J S now a b)) k
      = (case item_of a k of None \<Rightarrow> item_of b k | Some x \<Rightarrow> Some (newer (item_of b k) x))" for k
    using receive_item [OF p(2) assms(1)] by (simp add: gossip_exchange_def Let_def)
  have "roster_ok P J S (snd (gossip_exchange P J S now a b))"
    using roster_ok_gossip assms(2) by (simp add: gossip_exchange_def Let_def current_def)
  moreover have "\<exists>r \<in> {a, b}. item_of r k = Some x" if "item_of (snd (gossip_exchange P J S now a b)) k = Some x" for k x
    using that by (auto simp: b' newer_def split: option.splits if_splits)
  ultimately have c': "current P J S now (snd (gossip_exchange P J S now a b))"
    using assms unfolding current_def by blast
  have a': "item_of (fst (gossip_exchange P J S now a b)) k
      = (case item_of (snd (gossip_exchange P J S now a b)) k of None \<Rightarrow> item_of a k | Some y \<Rightarrow> Some (newer (item_of a k) y))" for k
    using receive_item [OF p(1) c'] by (simp add: gossip_exchange_def Let_def)
  have "item_of (fst (gossip_exchange P J S now a b)) k = item_of (snd (gossip_exchange P J S now a b)) k
      \<longleftrightarrow> in_order (item_of a k) (item_of b k)" for k
  proof (cases "item_of a k")
    case None
    then show ?thesis by (simp add: a' b' in_order_def newer_def split: option.split)
  next
    case (Some x)
    then show ?thesis using newer_agree [OF impI [OF supersedes_asym], of x]
      by (cases "item_of b k") (auto simp: a' b' in_order_def newer_def)
  qed
  then show ?thesis by blast
qed

subsection \<open>A concrete disagreement\<close>

definition demo_ad_json :: ad_json where
  "demo_ad_json a = Some (be_bytes 8 (ad_seq a))"

definition demo_identity :: string where
  "demo_identity = hex_encode hex_prims (arr 32 (ed_public hex_prims [9]))"

definition demo_ad :: "nat \<Rightarrow> advertisement" where
  "demo_ad sq = \<lparr>ad_wire_version = WIRE_VERSION, ad_identity_hex = demo_identity, ad_kem_hex = hex_encode hex_prims (replicate 32 1),
     ad_address = ''abcd'', ad_capabilities = CapMix, ad_seq = sq, ad_signed_at = 2500, ad_rendezvous = None,
     ad_rendezvous_capable = False, ad_signature_hex = hex_encode hex_prims (arr 64 (ed_sign hex_prims [9] (be_bytes 8 sq)))\<rparr>"

definition demo_cert :: "nat \<Rightarrow> admission_cert" where
  "demo_cert ep = assemble demo_identity ep None (map (\<lambda>sk. attest hex_prims sk demo_identity ep None) [[1], [2]])"

definition demo_roster :: "nat \<Rightarrow> nat \<Rightarrow> roster" where
  "demo_roster sq ep = \<lparr>entries = [(demo_identity, demo_ad sq)], admissions = [(demo_identity, demo_cert ep)]\<rparr>"

lemma demo_cert_verifies: "cert_verify hex_prims (demo_cert ep) demo_authorities = Inr 2"
proof -
  have d: "distinct (map (\<lambda>sk. arr 32 (ed_public hex_prims sk)) [[1], [2]])" using demo_keys_distinct by simp
  have s: "\<forall>sk \<in> set [[1], [2]]. authority_contains demo_authorities (hex_encode hex_prims (arr 32 (ed_public hex_prims sk)))"
    using demo_authority by simp
  have "inj_on (\<lambda>sk. hex_encode hex_prims (arr 32 (ed_public hex_prims sk))) {[1], [2]}"
    using d by (auto simp: hex_encode_inj [OF hex_prims_laws(1)])
  then have "card {k. vouches hex_prims demo_authorities (admission_bytes demo_identity ep None)
      (map (\<lambda>sk. attest hex_prims sk demo_identity ep None) [[1], [2]]) k} = 2"
    unfolding vouches_attested [OF hex_prims_laws d s] by (simp add: card_image)
  then show ?thesis by (simp add: cert_verify_def Let_def count_card demo_cert_def assemble_def demo_authorities_def del: list.map)
qed

lemma lower_demo_identity: "lower demo_identity = demo_identity"
  using hex_prims_laws(3) by (simp add: demo_identity_def hex_lower_def)

lemma demo_ad_verifies: "ad_verify hex_prims demo_ad_json (demo_ad sq) = Inr ()"
proof -
  have h: "hex_decode hex_prims (hex_encode hex_prims b) = Some b" for b using hex_prims_laws(1) by (simp add: hex_ok_def)
  have e: "ed_key_ok hex_prims (arr 32 (ed_public hex_prims [9]))"
    "ed_verify hex_prims (arr 32 (ed_public hex_prims [9])) m (arr 64 (ed_sign hex_prims [9] m))" for m
    using hex_prims_laws(2) by (simp_all add: ed_ok_def)
  have p: "parse_sockaddr hex_prims ''abcd'' = Some \<lparr>sa_ip = V4 [97, 98, 99, 100], sa_port = 443\<rparr>"
    by (simp add: hex_prims_def demo_prims_def ascii_byte_def)
  show ?thesis
    by (simp add: ad_verify_def demo_ad_def demo_identity_def h e p ad_canonical_bytes_def demo_ad_json_def
        ad_canonical.truncate_def ad_kem_pubkey_bytes_def is_unspecified_def)
qed

lemma item_demo_roster: "item_of (demo_roster sq ep) k = (if k = demo_identity then Some (demo_ad sq, demo_cert ep) else None)"
  by (simp add: item_of_def demo_roster_def hm_get_def)

lemma demo_cert_fresh: "1000 \<le> ep \<Longrightarrow> ep \<le> 3000 \<Longrightarrow> is_fresh (demo_cert ep) 3000"
  by (simp add: is_fresh_def demo_cert_def assemble_def sat_add_def sat_sub_def u64_max_def ADMISSION_CLOCK_SKEW_SECS_def
      MAX_ADMISSION_AGE_SECS_def)

lemma demo_item_ok: "item_ok hex_prims demo_ad_json demo_authorities demo_identity (demo_ad sq, demo_cert ep)"
  using demo_ad_verifies demo_cert_verifies lower_demo_identity
  by (simp add: item_ok_def) (simp add: demo_ad_def demo_cert_def assemble_def)

lemma demo_roster_current:
  assumes "1000 \<le> ep" "ep \<le> 3000"
  shows "current hex_prims demo_ad_json demo_authorities 3000 (demo_roster sq ep)"
proof -
  have "paired (demo_roster sq ep)" by (simp add: paired_def demo_roster_def hm_wf_def hm_get_def)
  moreover have "sat_sub 3000 (ad_signed_at (demo_ad sq)) \<le> STALE_AFTER_SECS"
    by (simp add: demo_ad_def sat_sub_def STALE_AFTER_SECS_def)
  ultimately show ?thesis using demo_item_ok demo_cert_fresh [OF assms]
    by (simp add: current_def roster_ok_def item_demo_roster MAX_GOSSIP_ENTRIES_def) (simp add: demo_roster_def)
qed

theorem gossip_exchange_agrees_witness:
  "\<not> (\<forall>k. item_of (fst (gossip_exchange hex_prims demo_ad_json demo_authorities 3000 (demo_roster 7 2000) (demo_roster 8 1000))) k
     = item_of (snd (gossip_exchange hex_prims demo_ad_json demo_authorities 3000 (demo_roster 7 2000) (demo_roster 8 1000))) k)"
proof -
  let ?a = "demo_roster 7 2000" and ?b = "demo_roster 8 1000"
  let ?r = "snd (gossip_exchange hex_prims demo_ad_json demo_authorities 3000 ?a ?b)"
  have a: "current hex_prims demo_ad_json demo_authorities 3000 ?a" and b: "current hex_prims demo_ad_json demo_authorities 3000 ?b"
    by (simp_all add: demo_roster_current)
  have ok: "roster_ok hex_prims demo_ad_json demo_authorities ?b" using b by (simp add: current_def)
  then have pb: "paired ?b" by (simp add: roster_ok_def)
  have "roster_ok hex_prims demo_ad_json demo_authorities ?r"
    using roster_ok_gossip [OF ok] by (simp add: gossip_exchange_def Let_def)
  then have pr: "paired ?r" by (simp add: roster_ok_def)
  have "item_of ?r k = None" if "k \<noteq> demo_identity" for k
    using that receive_item [OF pb a, of k] by (simp add: gossip_exchange_def Let_def item_demo_roster)
  then have "k \<in> {k. hm_get (entries ?r) k \<noteq> None} \<Longrightarrow> k \<in> {demo_identity}" for k
    unfolding item_of_None [OF pr] mem_Collect_eq singleton_iff by metis
  then have "{k. hm_get (entries ?r) k \<noteq> None} \<subseteq> {demo_identity}" by (rule subsetI)
  then have "card {k. hm_get (entries ?r) k \<noteq> None} \<le> 1" using card_mono [of "{demo_identity}"] by simp
  then have l: "length (entries ?r) \<le> MAX_GOSSIP_ENTRIES"
    using hm.len_card [of "entries ?r"] pr by (simp add: paired_def MAX_GOSSIP_ENTRIES_def)
  have "\<not> in_order (item_of ?a demo_identity) (item_of ?b demo_identity)"
    by (simp add: in_order_def item_demo_roster supersedes_def demo_ad_def demo_cert_def assemble_def)
  then show ?thesis unfolding gossip_exchange_agrees [OF a b l] by blast
qed

lemma demo_inserted:
  "foldl (roster_apply hex_prims demo_ad_json demo_authorities) roster_new [OpInsert (demo_ad 7) (demo_cert 2000) 3000] = demo_roster 7 2000"
proof -
  have i: "ad_identity_hex (demo_ad 7) = demo_identity" "cert_identity_hex (demo_cert 2000) = demo_identity"
    by (simp_all add: demo_ad_def demo_cert_def assemble_def)
  show ?thesis
    by (simp add: insert_admitted_def demo_ad_verifies demo_cert_verifies demo_cert_fresh i eq_ignore_lower lower_demo_identity
        roster_new_def hm_get_def hm_insert_def demo_roster_def)
qed


end
