(* ===== verification/Noise_Framing.thy ===== *)
theory Noise_Framing
  imports Mailbox Relay_Process
begin

text \<open>
  The messages on a QUIC stream, crypto-gotham-relay/src/transport.rs: the handshake messages,
  the fixed-size frames that carry packets, and the length-prefixed blobs of the mailbox, gossip
  and query protocols.

  QUIC (\<open>quinn\<close>) and Noise (\<open>snow\<close>) are parameters. An established session encrypts its
  \<open>n\<close>-th message with a function of \<open>n\<close>. A stream is the list of bytes still to be read; a read
  beyond its end is the error \<open>ReadError\<close>.
\<close>

section \<open>Framing over a Noise session\<close>

datatype transport_error =
    IoError
  | ConnectError
  | ConnectionError
  | WriteError
  | ReadError
  | RustlsError
  | RcgenError
  | NoiseError
  | BadHandshake
  | Unreachable nat

definition NOISE_TAG_LEN :: nat where "NOISE_TAG_LEN = 16"
definition NOISE_CHUNK :: nat where "NOISE_CHUNK = 32 * 1024"

record noise =
  write_message :: "nat \<Rightarrow> bytes \<Rightarrow> bytes"
  read_message :: "nat \<Rightarrow> bytes \<Rightarrow> bytes option"

text \<open>What a session promises: the peer reads what was written, and the tag adds 16 bytes.\<close>

definition noise_ok :: "noise \<Rightarrow> bool" where
  "noise_ok N \<longleftrightarrow> (\<forall>n m. read_message N n (write_message N n m) = Some m \<and> length (write_message N n m) = length m + NOISE_TAG_LEN)"

definition write_one_noise_msg :: "noise \<Rightarrow> nat \<Rightarrow> bytes \<Rightarrow> transport_error + bytes" where
  "write_one_noise_msg N n msg =
     (let buf = write_message N n msg
      in if 2 ^ 16 \<le> length buf then Inl BadHandshake else Inr (be_bytes 2 (length buf) @ buf))"

definition read_one_noise_msg :: "noise \<Rightarrow> nat \<Rightarrow> bytes \<Rightarrow> transport_error + (bytes \<times> bytes)" where
  "read_one_noise_msg N n stream =
     (if length stream < 2 then Inl ReadError
      else let clen = be_val (take 2 stream); rest = drop 2 stream
           in if \<not> (NOISE_TAG_LEN + 1 \<le> clen \<and> clen \<le> NOISE_CHUNK + NOISE_TAG_LEN) then Inl BadHandshake
              else if length rest < clen then Inl ReadError
              else case read_message N n (take clen rest) of
                None \<Rightarrow> Inl NoiseError
              | Some msg \<Rightarrow> Inr (msg, drop clen rest))"

lemma read_one_shorter: "read_one_noise_msg N n stream = Inr (msg, rest) \<Longrightarrow> length rest < length stream"
  by (auto simp: read_one_noise_msg_def Let_def split: if_splits option.splits)

text \<open>\<open>blob.chunks(NOISE_CHUNK)\<close>.\<close>

fun chunks :: "nat \<Rightarrow> 'a list \<Rightarrow> 'a list list" where
  "chunks n xs = (if xs = [] \<or> n = 0 then [] else take n xs # chunks n (drop n xs))"

declare chunks.simps [simp del]

fun write_chunks :: "noise \<Rightarrow> nat \<Rightarrow> bytes list \<Rightarrow> transport_error + bytes" where
  "write_chunks N n [] = Inr []"
| "write_chunks N n (c # cs) =
     (case write_one_noise_msg N n c of
        Inl e \<Rightarrow> Inl e
      | Inr s \<Rightarrow> (case write_chunks N (Suc n) cs of Inl e \<Rightarrow> Inl e | Inr r \<Rightarrow> Inr (s @ r)))"

text \<open>The bytes sent for a blob, the session having sent \<open>n\<close> messages before.\<close>

definition write_noise_blob :: "noise \<Rightarrow> nat \<Rightarrow> bytes \<Rightarrow> transport_error + bytes" where
  "write_noise_blob N n blob =
     (if MAX_MAILBOX_FRAME < length blob then Inl BadHandshake
      else write_chunks N n (be_bytes 4 (length blob) # chunks NOISE_CHUNK blob))"

text \<open>The loop of \<open>read_noise_blob_capped\<close>; every turn consumes a part of the stream.\<close>

function read_loop :: "noise \<Rightarrow> nat \<Rightarrow> nat \<Rightarrow> bytes \<Rightarrow> bytes \<Rightarrow> transport_error + (bytes \<times> bytes \<times> nat)" where
  "read_loop N n tot out stream =
     (if length out < tot
      then (case read_one_noise_msg N n stream of
              Inl e \<Rightarrow> Inl e
            | Inr (msg, rest) \<Rightarrow>
                if length (out @ msg) \<le> length out \<or> tot < length (out @ msg) then Inl BadHandshake
                else read_loop N (Suc n) tot (out @ msg) rest)
      else Inr (out, stream, n))"
  by pat_completeness auto
termination
  by (relation "measure (\<lambda>(N, n, tot, out, stream). length stream)") (auto dest: read_one_shorter)

declare read_loop.simps [simp del]

definition read_noise_blob_capped :: "noise \<Rightarrow> nat \<Rightarrow> nat \<Rightarrow> bytes \<Rightarrow> transport_error + (bytes \<times> bytes \<times> nat)" where
  "read_noise_blob_capped N n max_frame stream =
     (case read_one_noise_msg N n stream of
        Inl e \<Rightarrow> Inl e
      | Inr (header, rest) \<Rightarrow>
          if length header \<noteq> 4 then Inl BadHandshake
          else let tot = be_val header
               in if max_frame < tot then Inl BadHandshake else read_loop N (Suc n) tot [] rest)"

definition read_noise_blob :: "noise \<Rightarrow> nat \<Rightarrow> bytes \<Rightarrow> transport_error + (bytes \<times> bytes \<times> nat)" where
  "read_noise_blob N n stream = read_noise_blob_capped N n MAX_MAILBOX_FRAME stream"

subsection \<open>What is written is read\<close>

lemma concat_chunks: "0 < n \<Longrightarrow> concat (chunks n xs) = xs"
  by (induction n xs rule: chunks.induct) (subst chunks.simps, auto)

lemma chunks_sizes: "c \<in> set (chunks n xs) \<Longrightarrow> c \<noteq> [] \<and> length c \<le> n"
  by (induction n xs rule: chunks.induct) (subst (asm) (2) chunks.simps, auto split: if_splits)

lemma read_written:
  assumes "noise_ok N" "msg \<noteq> []" "length msg \<le> NOISE_CHUNK"
  shows "\<exists>s. write_one_noise_msg N n msg = Inr s \<and> read_one_noise_msg N n (s @ rest) = Inr (msg, rest)"
proof -
  have w: "length (write_message N n msg) = length msg + NOISE_TAG_LEN" "read_message N n (write_message N n msg) = Some msg"
    using assms(1) by (simp_all add: noise_ok_def)
  have l: "length msg + NOISE_TAG_LEN < 2 ^ 16" "NOISE_TAG_LEN + 1 \<le> length msg + NOISE_TAG_LEN"
    using assms(2,3) by (simp_all add: NOISE_CHUNK_def NOISE_TAG_LEN_def Suc_le_eq)
  then have "be_val (be_bytes 2 (length msg + NOISE_TAG_LEN)) = length msg + NOISE_TAG_LEN" by (intro be_val_be_bytes) simp
  with w l assms(3) show ?thesis by (simp add: write_one_noise_msg_def read_one_noise_msg_def)
qed

lemma read_loop_chunks:
  assumes "noise_ok N" "\<forall>c \<in> set cs. c \<noteq> [] \<and> length c \<le> NOISE_CHUNK"
  shows "\<exists>s. write_chunks N n cs = Inr s
    \<and> read_loop N n (length (out @ concat cs)) out (s @ rest) = Inr (out @ concat cs, rest, n + length cs)"
  using assms(2)
proof (induction cs arbitrary: n out)
  case Nil
  then show ?case by (simp add: read_loop.simps)
next
  case (Cons c cs)
  from Cons.prems have c: "c \<noteq> []" "length c \<le> NOISE_CHUNK" by simp_all
  obtain r where r: "write_chunks N (Suc n) cs = Inr r"
    "read_loop N (Suc n) (length ((out @ c) @ concat cs)) (out @ c) (r @ rest) = Inr ((out @ c) @ concat cs, rest, Suc n + length cs)"
    using Cons.IH [of "Suc n" "out @ c"] Cons.prems by auto
  obtain s where s: "write_one_noise_msg N n c = Inr s" "read_one_noise_msg N n (s @ r @ rest) = Inr (c, r @ rest)"
    using read_written [OF assms(1) c] by blast
  have "read_loop N n (length (out @ concat (c # cs))) out (s @ r @ rest) = Inr (out @ concat (c # cs), rest, n + length (c # cs))"
    using c s r(2) by (subst read_loop.simps) simp
  with s(1) r(1) show ?case by simp
qed

lemma blob_roundtrip_capped:
  assumes "noise_ok N" and "length blob \<le> cap" and "cap \<le> MAX_MAILBOX_FRAME"
  shows "\<exists>s. write_noise_blob N n blob = Inr s
    \<and> read_noise_blob_capped N n cap (s @ rest) = Inr (blob, rest, Suc n + length (chunks NOISE_CHUNK blob))"
proof -
  have ch: "\<forall>c \<in> set (chunks NOISE_CHUNK blob). c \<noteq> [] \<and> length c \<le> NOISE_CHUNK" using chunks_sizes by blast
  have cc: "concat (chunks NOISE_CHUNK blob) = blob" by (rule concat_chunks) (simp add: NOISE_CHUNK_def)
  obtain r where r: "write_chunks N (Suc n) (chunks NOISE_CHUNK blob) = Inr r"
    "read_loop N (Suc n) (length blob) [] (r @ rest) = Inr (blob, rest, Suc n + length (chunks NOISE_CHUNK blob))"
    using read_loop_chunks [OF assms(1) ch, of "Suc n" "[]" rest] cc by auto
  have "be_bytes 4 (length blob) \<noteq> []" "length (be_bytes 4 (length blob)) \<le> NOISE_CHUNK"
    by (simp_all add: NOISE_CHUNK_def flip: length_0_conv)
  from read_written [OF assms(1) this] obtain s where
    s: "write_one_noise_msg N n (be_bytes 4 (length blob)) = Inr s"
    "read_one_noise_msg N n (s @ r @ rest) = Inr (be_bytes 4 (length blob), r @ rest)" by blast
  have "length blob < 256 ^ 4" using assms(2,3) by (simp add: MAX_MAILBOX_FRAME_def)
  then have "be_val (be_bytes 4 (length blob)) = length blob" by (rule be_val_be_bytes)
  with s r assms(2,3) show ?thesis
    by (simp add: write_noise_blob_def read_noise_blob_capped_def)
qed

text \<open>
  A blob crosses a Noise session intact. Every blob up to 16 MiB is sent, and the peer
  reads back exactly it and nothing of what follows on the stream, with the message counters of
  the two ends still in step; the reader always finishes.
\<close>

theorem noise_blob_roundtrip:
  assumes "noise_ok N" and "length blob \<le> MAX_MAILBOX_FRAME"
  shows "\<exists>s. write_noise_blob N n blob = Inr s
    \<and> read_noise_blob N n (s @ rest) = Inr (blob, rest, Suc n + length (chunks NOISE_CHUNK blob))"
  using blob_roundtrip_capped [OF assms order.refl] by (simp add: read_noise_blob_def)

definition demo_noise :: noise where
  "demo_noise = \<lparr>write_message = (\<lambda>n m. m @ replicate 16 (word_of_nat n)),
     read_message = (\<lambda>n c. if 16 \<le> length c \<and> drop (length c - 16) c = replicate 16 (word_of_nat n)
        then Some (take (length c - 16) c) else None)\<rparr>"

lemma demo_noise_ok: "noise_ok demo_noise"
  by (simp add: noise_ok_def demo_noise_def NOISE_TAG_LEN_def)

theorem noise_blob_roundtrip_witness:
  "\<exists>s n. write_noise_blob demo_noise 5 (replicate 40000 7) = Inr s
     \<and> read_noise_blob demo_noise 5 (s @ [1, 2]) = Inr (replicate 40000 7, [1, 2], n)"
proof -
  have l: "length (replicate 40000 (7 :: byte)) \<le> MAX_MAILBOX_FRAME" unfolding length_replicate by (simp add: MAX_MAILBOX_FRAME_def)
  show ?thesis using noise_blob_roundtrip [OF demo_noise_ok l, of 5 "[1, 2]"] by blast
qed

section \<open>Frames that carry packets\<close>

definition FRAME_LEN :: nat where "FRAME_LEN = PACKET_SIZE + NOISE_TAG_LEN"

text \<open>
  Both functions work in buffers of fixed size that start as zeroes; \<open>snow\<close> reports an error
  when its output does not fit.
\<close>

definition write_noise_frame :: "noise \<Rightarrow> nat \<Rightarrow> bytes \<Rightarrow> transport_error + bytes" where
  "write_noise_frame N n pkt =
     (if length pkt \<noteq> PACKET_SIZE then Inl BadHandshake
      else let c = write_message N n pkt
           in if FRAME_LEN < length c then Inl NoiseError else Inr (c @ replicate (FRAME_LEN - length c) 0))"

definition read_noise_frame :: "noise \<Rightarrow> nat \<Rightarrow> bytes \<Rightarrow> transport_error + (bytes \<times> bytes \<times> nat)" where
  "read_noise_frame N n stream =
     (if length stream < FRAME_LEN then Inl ReadError
      else case read_message N n (take FRAME_LEN stream) of
        None \<Rightarrow> Inl NoiseError
      | Some p \<Rightarrow>
          if PACKET_SIZE < length p then Inl NoiseError
          else Inr (p @ replicate (PACKET_SIZE - length p) 0, drop FRAME_LEN stream, Suc n))"

lemma read_frame_shorter: "read_noise_frame N n stream = Inr (p, rest, n') \<Longrightarrow> length rest < length stream"
  by (auto simp: read_noise_frame_def FRAME_LEN_def NOISE_TAG_LEN_def split: if_splits option.splits)

lemma read_frame_length: "read_noise_frame N n stream = Inr (p, rest, n') \<Longrightarrow> length p = PACKET_SIZE"
  by (auto simp: read_noise_frame_def split: if_splits option.splits)

lemma frame_roundtrip:
  assumes "noise_ok N" and "length pkt = PACKET_SIZE"
  shows "\<exists>s. write_noise_frame N n pkt = Inr s \<and> length s = FRAME_LEN
    \<and> read_noise_frame N n (s @ rest) = Inr (pkt, rest, Suc n)"
proof -
  have "length (write_message N n pkt) = FRAME_LEN" "read_message N n (write_message N n pkt) = Some pkt"
    using assms by (simp_all add: noise_ok_def FRAME_LEN_def)
  with assms(2) show ?thesis by (simp add: write_noise_frame_def read_noise_frame_def)
qed

section \<open>Sequences of messages\<close>

text \<open>
  Sending a list of messages one after the other, and reading a given number of them, for any
  framing. A framing whose single messages survive the trip carries every sequence of them in
  order: the contract is the locale, the packet frames and the blobs are its instances.
\<close>

fun send_all :: "(nat \<Rightarrow> 'm \<Rightarrow> transport_error + bytes) \<Rightarrow> (nat \<Rightarrow> 'm \<Rightarrow> nat) \<Rightarrow> nat \<Rightarrow> 'm list \<Rightarrow> transport_error + bytes" where
  "send_all put nxt n [] = Inr []"
| "send_all put nxt n (m # ms) =
     (case put n m of
        Inl e \<Rightarrow> Inl e
      | Inr s \<Rightarrow> (case send_all put nxt (nxt n m) ms of Inl e \<Rightarrow> Inl e | Inr r \<Rightarrow> Inr (s @ r)))"

fun recv_count :: "(nat \<Rightarrow> bytes \<Rightarrow> transport_error + ('m \<times> bytes \<times> nat)) \<Rightarrow> nat \<Rightarrow> nat \<Rightarrow> bytes
    \<Rightarrow> transport_error + ('m list \<times> bytes \<times> nat)" where
  "recv_count get 0 n stream = Inr ([], stream, n)"
| "recv_count get (Suc k) n stream =
     (case get n stream of
        Inl e \<Rightarrow> Inl e
      | Inr (m, rest, n') \<Rightarrow>
          (case recv_count get k n' rest of Inl e \<Rightarrow> Inl e | Inr (ms, rest', n'') \<Rightarrow> Inr (m # ms, rest', n'')))"

locale framing =
  fixes put :: "nat \<Rightarrow> 'm \<Rightarrow> transport_error + bytes"
    and get :: "nat \<Rightarrow> bytes \<Rightarrow> transport_error + ('m \<times> bytes \<times> nat)"
    and nxt :: "nat \<Rightarrow> 'm \<Rightarrow> nat"
    and fits :: "'m \<Rightarrow> bool"
  assumes get_put: "fits m \<Longrightarrow> \<exists>s. put n m = Inr s \<and> get n (s @ rest) = Inr (m, rest, nxt n m)"
begin

lemma recv_send:
  "\<forall>m \<in> set ms. fits m \<Longrightarrow>
     \<exists>s. send_all put nxt n ms = Inr s \<and> recv_count get (length ms) n (s @ rest) = Inr (ms, rest, foldl nxt n ms)"
proof (induction ms arbitrary: n)
  case Nil
  then show ?case by simp
next
  case (Cons m ms)
  obtain r where r: "send_all put nxt (nxt n m) ms = Inr r"
    "recv_count get (length ms) (nxt n m) (r @ rest) = Inr (ms, rest, foldl nxt (nxt n m) ms)"
    using Cons.IH [of "nxt n m"] Cons.prems by auto
  obtain s where "put n m = Inr s" "get n (s @ r @ rest) = Inr (m, r @ rest, nxt n m)"
    using get_put [of m n "r @ rest"] Cons.prems by auto
  with r show ?case by simp
qed

end

interpretation frames: framing "write_noise_frame N" "read_noise_frame N" "\<lambda>n _. Suc n"
    "\<lambda>pkt. noise_ok N \<and> length pkt = PACKET_SIZE" for N
  by unfold_locales (use frame_roundtrip in blast)

section \<open>The sending end of a link\<close>

text \<open>
  A stream together with the session that encrypts what is written to it, as the rendezvous
  tunnels and the pooled connections hold it: the session's direction, the messages sent so far,
  the bytes given to QUIC, and whether the connection still takes bytes.
\<close>

record link =
  lk_noise :: noise
  lk_sent :: nat
  lk_out :: bytes
  lk_up :: bool

definition link_write :: "'a link_scheme \<Rightarrow> bytes \<Rightarrow> transport_error + 'a link_scheme" where
  "link_write c pkt =
     (case write_noise_frame (lk_noise c) (lk_sent c) pkt of
        Inl e \<Rightarrow> Inl e
      | Inr s \<Rightarrow> if lk_up c then Inr (c\<lparr>lk_sent := Suc (lk_sent c), lk_out := lk_out c @ s\<rparr>) else Inl WriteError)"

lemma send_all_snoc:
  assumes "send_all put nxt n ms = Inr s" and "put (foldl nxt n ms) m = Inr r"
  shows "send_all put nxt n (ms @ [m]) = Inr (s @ r)"
  using assms by (induction ms arbitrary: n s) (auto split: sum.splits)

text \<open>The packets a link has been given so far.\<close>

definition carries :: "'a link_scheme \<Rightarrow> bytes list \<Rightarrow> bool" where
  "carries c ps \<longleftrightarrow> send_all (write_noise_frame (lk_noise c)) (\<lambda>n _. Suc n) 0 ps = Inr (lk_out c) \<and> lk_sent c = length ps"

lemma carries_write:
  assumes "carries c ps" and "link_write c pkt = Inr c'"
  shows "carries c' (ps @ [pkt])"
proof -
  have n: "foldl (\<lambda>n _. Suc n) k ps = k + length ps" for k by (induction ps arbitrary: k) auto
  from assms show ?thesis
    by (auto simp: carries_def link_write_def n intro!: send_all_snoc split: sum.splits if_splits)
qed

lemma link_write_ok:
  assumes "noise_ok (lk_noise c)"
  shows "(\<exists>c'. link_write c pkt = Inr c') \<longleftrightarrow> length pkt = PACKET_SIZE \<and> lk_up c"
proof (cases "length pkt = PACKET_SIZE")
  case True
  then obtain s where "write_noise_frame (lk_noise c) (lk_sent c) pkt = Inr s"
    using frame_roundtrip [OF assms, of pkt "lk_sent c" "[]"] by blast
  with True show ?thesis by (simp add: link_write_def)
next
  case False
  then show ?thesis by (simp add: link_write_def write_noise_frame_def)
qed

section \<open>Handshakes\<close>

definition MAX_HANDSHAKE_MSG :: nat where "MAX_HANDSHAKE_MSG = 1024"

definition write_handshake_msg :: "bytes \<Rightarrow> transport_error + bytes" where
  "write_handshake_msg msg =
     (if MAX_HANDSHAKE_MSG < length msg then Inl BadHandshake else Inr (be_bytes 2 (length msg) @ msg))"

text \<open>
  A read that finds too few bytes fails when the peer has \<open>ended\<close> its stream, and runs into the
  handshake timeout otherwise.
\<close>

definition read_handshake_msg :: "bool \<Rightarrow> bytes \<Rightarrow> transport_error + (bytes \<times> bytes)" where
  "read_handshake_msg ended stream =
     (let short = (if ended then Inl ReadError else Inl BadHandshake)
      in if length stream < 2 then short
         else let len = be_val (take 2 stream); rest = drop 2 stream
              in if MAX_HANDSHAKE_MSG < len then Inl BadHandshake
                 else if length rest < len then short
                 else Inr (take len rest, drop len rest))"

lemma handshake_msg_roundtrip:
  assumes "length msg \<le> MAX_HANDSHAKE_MSG"
  shows "\<exists>s. write_handshake_msg msg = Inr s \<and> read_handshake_msg ended (s @ rest) = Inr (msg, rest)"
proof -
  have "be_val (be_bytes 2 (length msg)) = length msg"
    using assms by (intro be_val_be_bytes) (simp add: MAX_HANDSHAKE_MSG_def)
  with assms show ?thesis by (simp add: write_handshake_msg_def read_handshake_msg_def)
qed

text \<open>
  The handshake states of \<open>snow\<close>: \<open>hs_write\<close> writes the next message into a buffer of
  \<open>MAX_HANDSHAKE_MSG\<close> bytes, \<open>hs_split\<close> gives the two directions of the session, from the
  initiator to the responder and back.
\<close>

record 'h snow =
  build_initiator :: "string \<Rightarrow> bytes \<Rightarrow> bytes \<Rightarrow> 'h option"
  build_responder :: "string \<Rightarrow> bytes \<Rightarrow> 'h option"
  hs_write :: "'h \<Rightarrow> (bytes \<times> 'h) option"
  hs_read :: "'h \<Rightarrow> bytes \<Rightarrow> 'h option"
  hs_hash :: "'h \<Rightarrow> bytes"
  hs_remote :: "'h \<Rightarrow> bytes option"
  hs_split :: "'h \<Rightarrow> (noise \<times> noise) option"

definition NOISE_PARAMS :: string where "NOISE_PARAMS = ''Noise_XK_25519_ChaChaPoly_BLAKE2s''"
definition NOISE_IK_PARAMS :: string where "NOISE_IK_PARAMS = ''Noise_IK_25519_ChaChaPoly_BLAKE2s''"

definition opt_noise :: "'a option \<Rightarrow> transport_error + 'a" where
  "opt_noise x = (case x of None \<Rightarrow> Inl NoiseError | Some y \<Rightarrow> Inr y)"

text \<open>One message out, and one message in.\<close>

definition hs_send :: "'h snow \<Rightarrow> 'h \<Rightarrow> transport_error + (bytes \<times> 'h)" where
  "hs_send H h =
     (case opt_noise (hs_write H h) of
        Inl e \<Rightarrow> Inl e
      | Inr (m, h') \<Rightarrow> (case write_handshake_msg m of Inl e \<Rightarrow> Inl e | Inr s \<Rightarrow> Inr (s, h')))"

definition hs_recv :: "'h snow \<Rightarrow> bool \<Rightarrow> 'h \<Rightarrow> bytes \<Rightarrow> transport_error + ('h \<times> bytes)" where
  "hs_recv H ended h stream =
     (case read_handshake_msg ended stream of
        Inl e \<Rightarrow> Inl e
      | Inr (m, rest) \<Rightarrow> (case opt_noise (hs_read H h m) of Inl e \<Rightarrow> Inl e | Inr h' \<Rightarrow> Inr (h', rest)))"

text \<open>
  Each side of a handshake is a function of the bytes it receives: the bytes it sends, and how it
  ends, with the rest of its input.
\<close>

definition noise_responder_handshake_bound :: "'h snow \<Rightarrow> bool \<Rightarrow> bytes \<Rightarrow> bytes
    \<Rightarrow> bytes \<times> (transport_error + ((noise \<times> noise) \<times> bytes \<times> bytes))" where
  "noise_responder_handshake_bound H ended static_sk inb =
     (case opt_noise (build_responder H NOISE_PARAMS static_sk) of
        Inl e \<Rightarrow> ([], Inl e)
      | Inr h0 \<Rightarrow> (case hs_recv H ended h0 inb of
        Inl e \<Rightarrow> ([], Inl e)
      | Inr (h1, inb1) \<Rightarrow> (case hs_send H h1 of
        Inl e \<Rightarrow> ([], Inl e)
      | Inr (outb, h2) \<Rightarrow> (case hs_recv H ended h2 inb1 of
        Inl e \<Rightarrow> (outb, Inl e)
      | Inr (h3, inb2) \<Rightarrow> (case opt_noise (hs_split H h3) of
        Inl e \<Rightarrow> (outb, Inl e)
      | Inr session \<Rightarrow> (outb, Inr (session, hs_hash H h3, inb2)))))))"

definition noise_initiator_handshake_bound :: "'h snow \<Rightarrow> bool \<Rightarrow> bytes \<Rightarrow> bytes \<Rightarrow> bytes
    \<Rightarrow> bytes \<times> (transport_error + ((noise \<times> noise) \<times> bytes \<times> bytes))" where
  "noise_initiator_handshake_bound H ended initiator_sk server_static_pk inb =
     (case opt_noise (build_initiator H NOISE_PARAMS initiator_sk server_static_pk) of
        Inl e \<Rightarrow> ([], Inl e)
      | Inr h0 \<Rightarrow> (case hs_send H h0 of
        Inl e \<Rightarrow> ([], Inl e)
      | Inr (out1, h1) \<Rightarrow> (case hs_recv H ended h1 inb of
        Inl e \<Rightarrow> (out1, Inl e)
      | Inr (h2, inb1) \<Rightarrow> (case hs_send H h2 of
        Inl e \<Rightarrow> (out1, Inl e)
      | Inr (out2, h3) \<Rightarrow> (case opt_noise (hs_split H h3) of
        Inl e \<Rightarrow> (out1 @ out2, Inl e)
      | Inr session \<Rightarrow> (out1 @ out2, Inr (session, hs_hash H h3, inb1)))))))"

definition noise_ik_responder_handshake :: "'h snow \<Rightarrow> bool \<Rightarrow> bytes \<Rightarrow> bytes
    \<Rightarrow> bytes \<times> (transport_error + ((noise \<times> noise) \<times> bytes \<times> bytes))" where
  "noise_ik_responder_handshake H ended static_sk inb =
     (case opt_noise (build_responder H NOISE_IK_PARAMS static_sk) of
        Inl e \<Rightarrow> ([], Inl e)
      | Inr h0 \<Rightarrow> (case hs_recv H ended h0 inb of
        Inl e \<Rightarrow> ([], Inl e)
      | Inr (h1, inb1) \<Rightarrow> (case hs_remote H h1 of
        None \<Rightarrow> ([], Inl BadHandshake)
      | Some remote_pk \<Rightarrow>
          if length remote_pk \<noteq> 32 then ([], Inl BadHandshake)
          else (case hs_send H h1 of
        Inl e \<Rightarrow> ([], Inl e)
      | Inr (outb, h2) \<Rightarrow> (case opt_noise (hs_split H h2) of
        Inl e \<Rightarrow> (outb, Inl e)
      | Inr session \<Rightarrow> (outb, Inr (session, remote_pk, inb1)))))))"

definition noise_ik_initiator_handshake :: "'h snow \<Rightarrow> bool \<Rightarrow> bytes \<Rightarrow> bytes \<Rightarrow> bytes
    \<Rightarrow> bytes \<times> (transport_error + ((noise \<times> noise) \<times> bytes))" where
  "noise_ik_initiator_handshake H ended initiator_sk responder_static_pk inb =
     (case opt_noise (build_initiator H NOISE_IK_PARAMS initiator_sk responder_static_pk) of
        Inl e \<Rightarrow> ([], Inl e)
      | Inr h0 \<Rightarrow> (case hs_send H h0 of
        Inl e \<Rightarrow> ([], Inl e)
      | Inr (outb, h1) \<Rightarrow> (case hs_recv H ended h1 inb of
        Inl e \<Rightarrow> (outb, Inl e)
      | Inr (h2, inb1) \<Rightarrow> (case opt_noise (hs_split H h2) of
        Inl e \<Rightarrow> (outb, Inl e)
      | Inr session \<Rightarrow> (outb, Inr (session, inb1))))))"

subsection \<open>Both ends of a handshake agree\<close>

text \<open>
  What \<open>snow\<close> documents of the two patterns: the messages one side writes are accepted by the
  other when the initiator knows the responder's public key, none is longer than the buffers, and
  both sides end with the same transcript hash and the same two directions; in IK the responder
  learns the initiator's public key from the first message.
\<close>

definition sessions_ok :: "noise \<times> noise \<Rightarrow> bool" where
  "sessions_ok ch \<longleftrightarrow> noise_ok (fst ch) \<and> noise_ok (snd ch)"

definition xk_ok :: "prims \<Rightarrow> 'h snow \<Rightarrow> bool" where
  "xk_ok P H \<longleftrightarrow> (\<forall>isk ssk. \<exists>i0 i1 i2 i3 r0 r1 r2 r3 m1 m2 m3 ch.
     build_initiator H NOISE_PARAMS isk (x25519 P ssk x25519_base) = Some i0
     \<and> build_responder H NOISE_PARAMS ssk = Some r0
     \<and> hs_write H i0 = Some (m1, i1) \<and> hs_read H r0 m1 = Some r1
     \<and> hs_write H r1 = Some (m2, r2) \<and> hs_read H i1 m2 = Some i2
     \<and> hs_write H i2 = Some (m3, i3) \<and> hs_read H r2 m3 = Some r3
     \<and> length m1 \<le> MAX_HANDSHAKE_MSG \<and> length m2 \<le> MAX_HANDSHAKE_MSG \<and> length m3 \<le> MAX_HANDSHAKE_MSG
     \<and> hs_hash H i3 = hs_hash H r3 \<and> hs_split H i3 = Some ch \<and> hs_split H r3 = Some ch \<and> sessions_ok ch)"

definition ik_ok :: "prims \<Rightarrow> 'h snow \<Rightarrow> bool" where
  "ik_ok P H \<longleftrightarrow> (\<forall>isk ssk. \<exists>i0 i1 i2 r0 r1 r2 m1 m2 ch.
     build_initiator H NOISE_IK_PARAMS isk (x25519 P ssk x25519_base) = Some i0
     \<and> build_responder H NOISE_IK_PARAMS ssk = Some r0
     \<and> hs_write H i0 = Some (m1, i1) \<and> hs_read H r0 m1 = Some r1
     \<and> hs_remote H r1 = Some (x25519 P isk x25519_base)
     \<and> hs_write H r1 = Some (m2, r2) \<and> hs_read H i1 m2 = Some i2
     \<and> length m1 \<le> MAX_HANDSHAKE_MSG \<and> length m2 \<le> MAX_HANDSHAKE_MSG
     \<and> hs_split H i2 = Some ch \<and> hs_split H r2 = Some ch \<and> sessions_ok ch)"

lemma hs_message:
  assumes "hs_write H h = Some (m, h')" "length m \<le> MAX_HANDSHAKE_MSG" "hs_read H g m = Some g'"
  shows "\<exists>s. hs_send H h = Inr (s, h') \<and> (\<forall>rest. hs_recv H ended g (s @ rest) = Inr (g', rest))"
proof -
  obtain s where s: "write_handshake_msg m = Inr s" using handshake_msg_roundtrip [OF assms(2)] by blast
  have "read_handshake_msg ended (s @ rest) = Inr (m, rest)" for rest
    using handshake_msg_roundtrip [OF assms(2), of ended rest] s by auto
  with s assms show ?thesis by (simp add: hs_send_def hs_recv_def opt_noise_def)
qed

lemma xk_session:
  assumes "xk_ok P H"
  shows "\<exists>a b ch binding. sessions_ok ch
    \<and> (\<forall>rest. noise_initiator_handshake_bound H ended isk (x25519 P ssk x25519_base) (b @ rest) = (a, Inr (ch, binding, rest)))
    \<and> (\<forall>rest. noise_responder_handshake_bound H ended ssk (a @ rest) = (b, Inr (ch, binding, rest)))"
proof -
  obtain i0 i1 i2 i3 r0 r1 r2 r3 m1 m2 m3 ch where
    b: "build_initiator H NOISE_PARAMS isk (x25519 P ssk x25519_base) = Some i0" "build_responder H NOISE_PARAMS ssk = Some r0"
    and w: "hs_write H i0 = Some (m1, i1)" "hs_write H r1 = Some (m2, r2)" "hs_write H i2 = Some (m3, i3)"
    and r: "hs_read H r0 m1 = Some r1" "hs_read H i1 m2 = Some i2" "hs_read H r2 m3 = Some r3"
    and l: "length m1 \<le> MAX_HANDSHAKE_MSG" "length m2 \<le> MAX_HANDSHAKE_MSG" "length m3 \<le> MAX_HANDSHAKE_MSG"
    and e: "hs_hash H i3 = hs_hash H r3" "hs_split H i3 = Some ch" "hs_split H r3 = Some ch" "sessions_ok ch"
    using assms [unfolded xk_ok_def, rule_format, of isk ssk] by blast
  obtain s1 s2 s3 where
    s: "hs_send H i0 = Inr (s1, i1)" "hs_send H r1 = Inr (s2, r2)" "hs_send H i2 = Inr (s3, i3)"
    and t: "\<forall>rest. hs_recv H ended r0 (s1 @ rest) = Inr (r1, rest)" "\<forall>rest. hs_recv H ended i1 (s2 @ rest) = Inr (i2, rest)"
      "\<forall>rest. hs_recv H ended r2 (s3 @ rest) = Inr (r3, rest)"
    using hs_message [OF w(1) l(1) r(1), of ended] hs_message [OF w(2) l(2) r(2), of ended]
      hs_message [OF w(3) l(3) r(3), of ended] by blast
  have "noise_initiator_handshake_bound H ended isk (x25519 P ssk x25519_base) (s2 @ rest) = (s1 @ s3, Inr (ch, hs_hash H r3, rest))"
    for rest using b s t e by (simp add: noise_initiator_handshake_bound_def opt_noise_def)
  moreover have "noise_responder_handshake_bound H ended ssk ((s1 @ s3) @ rest) = (s2, Inr (ch, hs_hash H r3, rest))"
    for rest using b s t e by (simp add: noise_responder_handshake_bound_def opt_noise_def)
  ultimately show ?thesis using e(4) by blast
qed

lemma ik_session:
  assumes "ik_ok P H"
  shows "\<exists>a b ch. sessions_ok ch
    \<and> (\<forall>rest. noise_ik_initiator_handshake H ended isk (x25519 P ssk x25519_base) (b @ rest) = (a, Inr (ch, rest)))
    \<and> (\<forall>rest. noise_ik_responder_handshake H ended ssk (a @ rest) = (b, Inr (ch, x25519 P isk x25519_base, rest)))"
proof -
  obtain i0 i1 i2 r0 r1 r2 m1 m2 ch where
    b: "build_initiator H NOISE_IK_PARAMS isk (x25519 P ssk x25519_base) = Some i0" "build_responder H NOISE_IK_PARAMS ssk = Some r0"
    and w: "hs_write H i0 = Some (m1, i1)" "hs_write H r1 = Some (m2, r2)"
    and r: "hs_read H r0 m1 = Some r1" "hs_read H i1 m2 = Some i2" "hs_remote H r1 = Some (x25519 P isk x25519_base)"
    and l: "length m1 \<le> MAX_HANDSHAKE_MSG" "length m2 \<le> MAX_HANDSHAKE_MSG"
    and e: "hs_split H i2 = Some ch" "hs_split H r2 = Some ch" "sessions_ok ch"
    using assms [unfolded ik_ok_def, rule_format, of isk ssk] by blast
  obtain s1 s2 where s: "hs_send H i0 = Inr (s1, i1)" "hs_send H r1 = Inr (s2, r2)"
    and t: "\<forall>rest. hs_recv H ended r0 (s1 @ rest) = Inr (r1, rest)" "\<forall>rest. hs_recv H ended i1 (s2 @ rest) = Inr (i2, rest)"
    using hs_message [OF w(1) l(1) r(1), of ended] hs_message [OF w(2) l(2) r(2), of ended] by blast
  have "noise_ik_initiator_handshake H ended isk (x25519 P ssk x25519_base) (s2 @ rest) = (s1, Inr (ch, rest))" for rest
    using b s t e by (simp add: noise_ik_initiator_handshake_def opt_noise_def)
  moreover have "noise_ik_responder_handshake H ended ssk (s1 @ rest) = (s2, Inr (ch, x25519 P isk x25519_base, rest))" for rest
    using b s t e r(3) by (simp add: noise_ik_responder_handshake_def opt_noise_def)
  ultimately show ?thesis using e(3) by blast
qed

end
