(* ===== verification/Gossip_Node.thy ===== *)
theory Gossip_Node
  imports Roster_Correct Noise_Framing
begin

text \<open>
  A node that gossips, crypto-gotham-relay/src/gossip.rs, and the other end of its connections,
  \<open>serve_gossip_connection\<close> of crypto-gotham-relay/src/transport.rs. MessagePack is a parameter, a
  codec for rosters. A dialled peer is the session in each direction with a function from the bytes
  sent to the bytes that come back.
\<close>

section \<open>Rosters over a Noise session\<close>

definition MAX_GOSSIP_FRAME :: nat where "MAX_GOSSIP_FRAME = 4 * 1024 * 1024"

record roster_codec =
  roster_enc :: "roster \<Rightarrow> bytes option"
  roster_dec :: "bytes \<Rightarrow> roster option"

definition codec_ok :: "roster_codec \<Rightarrow> bool" where
  "codec_ok C \<longleftrightarrow> (\<forall>r b. roster_enc C r = Some b \<longrightarrow> roster_dec C b = Some r)"

datatype gossip_error = GossipTransport transport_error | GossipCodec

text \<open>
  One turn of the loop of \<open>serve_gossip_connection\<close>: the bytes it sends, how it goes on (the end of
  the stream ends the loop without an error), and the roster.
\<close>

datatype serve_end = Served bytes | StreamEnded | ServeFailed transport_error

definition serve_gossip_turn :: "prims \<Rightarrow> ad_json \<Rightarrow> authority_set \<Rightarrow> roster_codec \<Rightarrow> nat \<Rightarrow> noise \<Rightarrow> noise \<Rightarrow> nat \<Rightarrow> nat
    \<Rightarrow> roster \<Rightarrow> bytes \<Rightarrow> bytes \<times> serve_end \<times> roster" where
  "serve_gossip_turn P J S C now Nin Nout n_in n_out r stream =
     (case read_noise_blob_capped Nin n_in MAX_GOSSIP_FRAME stream of
        Inl e \<Rightarrow> ([], if e = ReadError \<or> e = IoError then StreamEnded else ServeFailed e, r)
      | Inr (blob, rest, _) \<Rightarrow>
          let r' = (case roster_dec C blob of Some peer \<Rightarrow> fst (gossip_receive P J S now r peer) | None \<Rightarrow> r)
          in case roster_enc C r' of
               None \<Rightarrow> ([], ServeFailed BadHandshake, r')
             | Some b \<Rightarrow> (case write_noise_blob Nout n_out b of
                   Inl e \<Rightarrow> ([], ServeFailed e, r')
                 | Inr s \<Rightarrow> (s, Served rest, r')))"

definition gossip_round_client :: "prims \<Rightarrow> ad_json \<Rightarrow> authority_set \<Rightarrow> roster_codec \<Rightarrow> nat
    \<Rightarrow> transport_error + (noise \<times> noise \<times> (bytes \<Rightarrow> bytes)) \<Rightarrow> roster \<Rightarrow> (gossip_error + nat) \<times> roster" where
  "gossip_round_client P J S C now dialled r =
     (case dialled of
        Inl e \<Rightarrow> (Inl (GossipTransport e), r)
      | Inr (Nout, Nin, peer) \<Rightarrow>
          (case roster_enc C r of
             None \<Rightarrow> (Inl GossipCodec, r)
           | Some ours \<Rightarrow>
               (case write_noise_blob Nout 0 ours of
                  Inl e \<Rightarrow> (Inl (GossipTransport e), r)
                | Inr s \<Rightarrow>
                    (case read_noise_blob_capped Nin 0 MAX_GOSSIP_FRAME (peer s) of
                       Inl e \<Rightarrow> (Inl (GossipTransport e), r)
                     | Inr (blob, _, _) \<Rightarrow>
                         (case roster_dec C blob of
                            None \<Rightarrow> (Inl GossipCodec, r)
                          | Some theirs \<Rightarrow> (case gossip_receive P J S now r theirs of (r', delta) \<Rightarrow> (Inr delta, r')))))))"

section \<open>The node\<close>

record gossip_config =
  gc_identity :: bytes
  gc_kem_hex :: string
  gc_advertise_addr :: string
  gc_capabilities :: capabilities
  gc_admission :: admission_cert
  gc_bootstrap :: "(sockaddr \<times> bytes) list"

record gossip_node =
  gn_cfg :: gossip_config
  gn_authority_set :: authority_set
  gn_roster :: roster
  gn_seq :: nat

definition gossip_node_new :: "gossip_config \<Rightarrow> roster \<Rightarrow> authority_set \<Rightarrow> nat \<Rightarrow> gossip_node" where
  "gossip_node_new cfg r S now = \<lparr>gn_cfg = cfg, gn_authority_set = S, gn_roster = r, gn_seq = now\<rparr>"

definition identity_hex :: "prims \<Rightarrow> gossip_node \<Rightarrow> string" where
  "identity_hex P n = hex_encode P (arr 32 (ed_public P (gc_identity (gn_cfg n))))"

text \<open>\<open>fetch_add\<close> on an \<open>AtomicU64\<close> wraps around.\<close>

definition refresh_self :: "prims \<Rightarrow> ad_json \<Rightarrow> nat option \<Rightarrow> nat \<Rightarrow> gossip_node \<Rightarrow> gossip_node" where
  "refresh_self P J clock now n =
     (let sq = gn_seq n; n = n\<lparr>gn_seq := (sq + 1) mod 2 ^ 64\<rparr>; c = gn_cfg n
      in case ad_sign P J clock (gc_identity c) (gc_kem_hex c) (gc_advertise_addr c) (gc_capabilities c) sq of
           Inl _ \<Rightarrow> n
         | Inr ad \<Rightarrow>
             (case insert_admitted P J (gn_authority_set n) (gn_roster n) ad (gc_admission c) now of
                Inl _ \<Rightarrow> n
              | Inr r \<Rightarrow> n\<lparr>gn_roster := r\<rparr>))"

fun add_bootstrap :: "(sockaddr \<times> bytes) list \<Rightarrow> (sockaddr \<times> bytes) list \<Rightarrow> (sockaddr \<times> bytes) list" where
  "add_bootstrap peers [] = peers"
| "add_bootstrap peers (bp # bps) =
     add_bootstrap (if list_ex (\<lambda>(a, _). a = fst bp) peers then peers else peers @ [bp]) bps"

fun gossip_rounds :: "prims \<Rightarrow> ad_json \<Rightarrow> authority_set \<Rightarrow> roster_codec
    \<Rightarrow> (sockaddr \<times> bytes \<Rightarrow> nat \<times> (transport_error + (noise \<times> noise \<times> (bytes \<Rightarrow> bytes))))
    \<Rightarrow> (sockaddr \<times> bytes) list \<Rightarrow> roster \<Rightarrow> nat \<Rightarrow> roster \<times> nat" where
  "gossip_rounds P J S C dial [] r merged = (r, merged)"
| "gossip_rounds P J S C dial (p # ps) r merged =
     (case dial p of (now, dialled) \<Rightarrow>
        (case gossip_round_client P J S C now dialled r of
           (Inr d, r') \<Rightarrow> gossip_rounds P J S C dial ps r' (merged + d)
         | (Inl _, r') \<Rightarrow> gossip_rounds P J S C dial ps r' merged))"

definition gossip_once :: "prims \<Rightarrow> ad_json \<Rightarrow> roster_codec \<Rightarrow> ((sockaddr \<times> bytes) list \<Rightarrow> (sockaddr \<times> bytes) list)
    \<Rightarrow> (sockaddr \<times> bytes \<Rightarrow> nat \<times> (transport_error + (noise \<times> noise \<times> (bytes \<Rightarrow> bytes))))
    \<Rightarrow> nat option \<Rightarrow> nat \<Rightarrow> gossip_node \<Rightarrow> nat \<times> gossip_node" where
  "gossip_once P J C shuffle dial clock now n =
     (let n = refresh_self P J clock now n;
          r = fst (prune_stale (gn_roster n) now);
          peers = add_bootstrap (pick_peers P shuffle (identity_hex P n) r now) (gc_bootstrap (gn_cfg n));
          (r', merged) = gossip_rounds P J (gn_authority_set n) C dial peers r 0
      in (merged, n\<lparr>gn_roster := r'\<rparr>))"

definition routable_descriptors :: "prims \<Rightarrow> ad_json \<Rightarrow> gossip_node \<Rightarrow> nat \<Rightarrow> descriptor list" where
  "routable_descriptors P J n now = to_relay_descriptors P J (gn_authority_set n) (gn_roster n) now"

definition gossip_seed :: "prims \<Rightarrow> ad_json \<Rightarrow> gossip_node \<Rightarrow> advertisement \<Rightarrow> admission_cert \<Rightarrow> nat \<Rightarrow> gossip_node" where
  "gossip_seed P J n ad cert now =
     (case insert_admitted P J (gn_authority_set n) (gn_roster n) ad cert now of Inl _ \<Rightarrow> n | Inr r \<Rightarrow> n\<lparr>gn_roster := r\<rparr>)"

section \<open>The protocol is the exchange of rosters\<close>

text \<open>
  C20: the two ends of a gossip connection implement the abstract exchange of rosters: the bytes the
  client writes make the server merge the client's roster and answer with the result, and the
  client, from the bytes the server writes, merges that. Both succeed and end with the rosters of
  \<open>gossip_exchange\<close>, when each encoded roster fits in a frame.
\<close>

theorem gossip_wire_refines:
  assumes "noise_ok Nout" and "noise_ok Nin" and "codec_ok C"
    and "gossip_exchange P J S now a b = (a', b')"
    and "roster_enc C a = Some ea" and "length ea \<le> MAX_GOSSIP_FRAME"
    and "roster_enc C b' = Some eb" and "length eb \<le> MAX_GOSSIP_FRAME"
  shows "\<exists>delta out. gossip_round_client P J S C now
        (Inr (Nout, Nin, \<lambda>s. fst (serve_gossip_turn P J S C now Nout Nin 0 0 b s))) a = (Inr delta, a')
     \<and> write_noise_blob Nout 0 ea = Inr out
     \<and> snd (serve_gossip_turn P J S C now Nout Nin 0 0 b out) = (Served [], b')"
proof -
  have cap: "MAX_GOSSIP_FRAME \<le> MAX_MAILBOX_FRAME" by (simp add: MAX_GOSSIP_FRAME_def MAX_MAILBOX_FRAME_def)
  have dec: "roster_dec C ea = Some a" "roster_dec C eb = Some b'" using assms(3,5,7) by (auto simp: codec_ok_def)
  have ex: "b' = fst (gossip_receive P J S now b a)" "a' = fst (gossip_receive P J S now a b')"
    using assms(4) by (auto simp: gossip_exchange_def Let_def)
  obtain s1 n1 where s1: "write_noise_blob Nout 0 ea = Inr s1" "read_noise_blob_capped Nout 0 MAX_GOSSIP_FRAME (s1 @ []) = Inr (ea, [], n1)"
    using blob_roundtrip_capped [OF assms(1,6) cap, of 0 "[]"] by blast
  obtain s2 n2 where s2: "write_noise_blob Nin 0 eb = Inr s2" "read_noise_blob_capped Nin 0 MAX_GOSSIP_FRAME (s2 @ []) = Inr (eb, [], n2)"
    using blob_roundtrip_capped [OF assms(2,8) cap, of 0 "[]"] by blast
  have serve: "serve_gossip_turn P J S C now Nout Nin 0 0 b s1 = (s2, Served [], b')"
    using s1(2) s2(1) dec(1) assms(7) ex(1) by (simp add: serve_gossip_turn_def)
  obtain delta where d: "gossip_receive P J S now a b' = (a', delta)" using ex(2) by (metis prod.collapse)
  have "gossip_round_client P J S C now (Inr (Nout, Nin, \<lambda>s. fst (serve_gossip_turn P J S C now Nout Nin 0 0 b s))) a = (Inr delta, a')"
    using serve s1(1) s2(2) dec(2) assms(5) d by (simp add: gossip_round_client_def)
  then show ?thesis using s1(1) serve by auto
qed

section \<open>A node keeps itself on the map\<close>

text \<open>What a round does to the entry of a key: it is only replaced by one with a higher sequence number.\<close>

definition holds :: "prims \<Rightarrow> ad_json \<Rightarrow> authority_set \<Rightarrow> string \<Rightarrow> nat \<Rightarrow> roster \<Rightarrow> bool" where
  "holds P J S k sq r \<longleftrightarrow> roster_ok P J S r \<and> (\<exists>ad c. item_of r k = Some (ad, c) \<and> sq \<le> ad_seq ad)"

lemma holds_receive:
  assumes "holds P J S k sq r"
  shows "holds P J S k sq (fst (gossip_receive P J S now r peer))"
proof -
  obtain x where x: "roster_ok P J S r" "item_of r k = Some x" "sq \<le> ad_seq (fst x)" using assms by (auto simp: holds_def)
  have p: "paired r" "paired (verify_incoming P J S peer now)" using x(1) verify_incoming_ok [of P J S peer now] by (simp_all add: roster_ok_def)
  have "\<exists>y. item_of (fst (gossip_receive P J S now r peer)) k = Some y \<and> sq \<le> ad_seq (fst y)"
    unfolding gossip_receive_def splice_item(2) [OF p] using x(2,3)
    by (cases x) (auto simp: newer_def supersedes_def split: option.split)
  then show ?thesis using roster_ok_gossip [OF x(1)] by (auto simp: holds_def)
qed

lemma holds_client:
  "holds P J S k sq r \<Longrightarrow> holds P J S k sq (snd (gossip_round_client P J S C now dialled r))"
  using holds_receive [of P J S k sq r now]
  by (auto simp: gossip_round_client_def split: sum.split option.split prod.split) (metis fst_conv)

lemma holds_rounds: "holds P J S k sq r \<Longrightarrow> holds P J S k sq (fst (gossip_rounds P J S C dial ps r merged))"
proof (induction ps arbitrary: r merged)
  case (Cons p ps)
  obtain now dialled res r' where g: "dial p = (now, dialled)" "gossip_round_client P J S C now dialled r = (res, r')"
    by (metis prod.collapse)
  have "holds P J S k sq r'" using holds_client [OF Cons.prems, of C now dialled] g by simp
  then show ?case using Cons.IH g by (cases res) simp_all
qed simp

lemma ad_sign_verifies:
  assumes "hex_ok P" and "ed_ok P" and "hex_decode P kem = Some k" and "length k = 32"
    and "parse_sockaddr P address = Some sa" and "\<not> is_unspecified (sa_ip sa)" and "sa_port sa \<noteq> 0"
    and "\<forall>c. J c \<noteq> None"
  shows "\<exists>ad. ad_sign P J (Some t) sk kem address caps sq = Inr ad \<and> ad_verify P J ad = Inr ()
    \<and> ad_identity_hex ad = hex_encode P (arr 32 (ed_public P sk)) \<and> ad_seq ad = sq \<and> ad_signed_at ad = t"
proof -
  let ?id = "arr 32 (ed_public P sk)"
  let ?ad = "\<lparr>ad_wire_version = WIRE_VERSION, ad_identity_hex = hex_encode P ?id, ad_kem_hex = kem, ad_address = address, ad_capabilities = caps,
    ad_seq = sq, ad_signed_at = t, ad_rendezvous = None, ad_rendezvous_capable = False, ad_signature_hex = []\<rparr>"
  obtain m where m: "J (ad_canonical.truncate ?ad) = Some m" using assms(8) by blast
  let ?signed = "?ad\<lparr>ad_signature_hex := hex_encode P (arr 64 (ed_sign P sk m))\<rparr>"
  have tr: "ad_canonical.truncate ?signed = ad_canonical.truncate ?ad" by (simp add: ad_canonical.truncate_def)
  have sg: "ad_sign P J (Some t) sk kem address caps sq = Inr ?signed"
    using m by (simp add: ad_sign_def sign_full_def ad_canonical_bytes_def)
  have "ad_canonical_bytes J ?signed = Inr m" unfolding ad_canonical_bytes_def tr using m by simp
  then have "ad_verify P J ?signed = Inr ()"
    using assms(1-7) by (simp add: ad_verify_def hex_ok_def ed_ok_def ad_kem_pubkey_bytes_def)
  then show ?thesis using sg by auto
qed


subsection \<open>A concrete node\<close>

definition demo_node :: "string \<Rightarrow> gossip_node" where
  "demo_node cert_for = gossip_node_new \<lparr>gc_identity = [9], gc_kem_hex = hex_encode hex_prims (replicate 32 1), gc_advertise_addr = ''abcd'',
     gc_capabilities = CapMix, gc_admission = (demo_cert 2000)\<lparr>cert_identity_hex := cert_for\<rparr>, gc_bootstrap = []\<rparr>
     roster_new demo_authorities 7"

text \<open>A codec that carries one roster.\<close>

definition one_codec :: roster_codec where
  "one_codec = \<lparr>roster_enc = (\<lambda>r. if r = demo_roster 7 2000 then Some [1] else None),
     roster_dec = (\<lambda>b. if b = [1] then Some (demo_roster 7 2000) else None)\<rparr>"

lemma demo_receive:
  "fst (gossip_receive hex_prims demo_ad_json demo_authorities 3000 roster_new (demo_roster 7 2000)) = demo_roster 7 2000"
  "fst (gossip_receive hex_prims demo_ad_json demo_authorities 3000 (demo_roster 7 2000) (demo_roster 7 2000)) = demo_roster 7 2000"
proof -
  have "current hex_prims demo_ad_json demo_authorities 3000 (demo_roster 7 2000)" by (rule demo_roster_current) simp_all
  from vet_current [OF this, of demo_identity "demo_ad 7"]
  have v: "vet_entry hex_prims demo_ad_json demo_authorities 3000 (demo_roster 7 2000) demo_identity (demo_ad 7) = Some (demo_identity, demo_cert 2000)"
    by (simp add: demo_roster_def hm_get_def)
  have i: "verify_incoming hex_prims demo_ad_json demo_authorities (demo_roster 7 2000) 3000 = demo_roster 7 2000"
    using v unfolding verify_incoming_def
    by (simp add: demo_roster_def MAX_GOSSIP_ENTRIES_def roster_new_def hm_insert_def)
  show "fst (gossip_receive hex_prims demo_ad_json demo_authorities 3000 roster_new (demo_roster 7 2000)) = demo_roster 7 2000"
    "fst (gossip_receive hex_prims demo_ad_json demo_authorities 3000 (demo_roster 7 2000) (demo_roster 7 2000)) = demo_roster 7 2000"
    unfolding gossip_receive_def i splice_verified_def
    by (simp_all add: demo_roster_def roster_new_def take_newer_def hm_get_def hm_insert_def)
qed

theorem gossip_wire_refines_witness:
  "\<exists>delta out. gossip_round_client hex_prims demo_ad_json demo_authorities one_codec 3000
        (Inr (demo_noise, demo_noise, \<lambda>s. fst (serve_gossip_turn hex_prims demo_ad_json demo_authorities one_codec 3000 demo_noise demo_noise 0 0 roster_new s)))
        (demo_roster 7 2000) = (Inr delta, demo_roster 7 2000)
     \<and> write_noise_blob demo_noise 0 [1] = Inr out
     \<and> snd (serve_gossip_turn hex_prims demo_ad_json demo_authorities one_codec 3000 demo_noise demo_noise 0 0 roster_new out)
         = (Served [], demo_roster 7 2000)"
proof (rule gossip_wire_refines [OF demo_noise_ok demo_noise_ok, where eb = "[1]"])
  show "codec_ok one_codec" by (simp add: codec_ok_def one_codec_def)
  show "gossip_exchange hex_prims demo_ad_json demo_authorities 3000 (demo_roster 7 2000) roster_new = (demo_roster 7 2000, demo_roster 7 2000)"
    by (simp add: gossip_exchange_def Let_def demo_receive)
qed (simp_all add: one_codec_def MAX_GOSSIP_FRAME_def)


end
