(* ===== verification/Nat_Mapping.thy ===== *)
theory Nat_Mapping
  imports Primitives
begin

unbundle bit_operations_syntax

text \<open>
  The automatic port mapping of a relay behind a home router, crypto-gotham-relay/src/nat.rs. The
  router (\<open>igd_next\<close>) and the host's routing table are parameters: what they answer, if anything.
\<close>

section \<open>Addresses that are not reachable from the internet\<close>

text \<open>\<open>Ipv4Addr::is_private\<close>, \<open>is_loopback\<close>, \<open>is_link_local\<close> and \<open>is_unspecified\<close> of the standard library.\<close>

definition v4_is_private :: "bytes \<Rightarrow> bool" where
  "v4_is_private o4 \<longleftrightarrow> o4 ! 0 = 10 \<or> (o4 ! 0 = 172 \<and> 16 \<le> o4 ! 1 \<and> o4 ! 1 \<le> 31) \<or> (o4 ! 0 = 192 \<and> o4 ! 1 = 168)"

definition v4_is_link_local :: "bytes \<Rightarrow> bool" where
  "v4_is_link_local o4 \<longleftrightarrow> o4 ! 0 = 169 \<and> o4 ! 1 = 254"

fun is_private_or_cgnat :: "ipaddr \<Rightarrow> bool" where
  "is_private_or_cgnat (V4 o4) \<longleftrightarrow>
     v4_is_private o4 \<or> o4 ! 0 = 127 \<or> v4_is_link_local o4 \<or> o4 = [0, 0, 0, 0]
     \<or> (o4 ! 0 = 100 \<and> 64 \<le> o4 ! 1 \<and> o4 ! 1 \<le> 127)"
| "is_private_or_cgnat (V6 o6) \<longleftrightarrow>
     o6 = replicate 15 0 @ [1] \<or> o6 = replicate 16 0
     \<or> o6 ! 0 AND 0xfe = 0xfc \<or> (o6 ! 0 = 0xfe \<and> o6 ! 1 AND 0xc0 = 0x80)"

section \<open>The mapping\<close>

record nat_mapping =
  external :: sockaddr
  cgnat :: bool

datatype nat_error = NoGateway | NoExternalIp | NoLanAddress | PortRefused

text \<open>\<open>primary_lan_ipv4\<close>: the source address the host would use, an error when there is none or it is IPv6.\<close>

definition primary_lan_ipv4 :: "ipaddr option \<Rightarrow> bytes option" where
  "primary_lan_ipv4 local = (case local of Some (V4 o4) \<Rightarrow> Some o4 | _ \<Rightarrow> None)"

text \<open>
  \<open>upnp_autoconfigure\<close>: whether a gateway is found, the external address it reports, the host's own
  address, and whether the gateway grants the mapping from the external port to an internal one.
\<close>

definition upnp_autoconfigure :: "bool \<Rightarrow> ipaddr option \<Rightarrow> ipaddr option \<Rightarrow> (16 word \<Rightarrow> sockaddr \<Rightarrow> 32 word \<Rightarrow> bool)
    \<Rightarrow> 16 word \<Rightarrow> 32 word \<Rightarrow> nat_error + nat_mapping" where
  "upnp_autoconfigure gateway external_ip local add_port listen_port lease_secs =
     (if \<not> gateway then Inl NoGateway
      else case external_ip of
        None \<Rightarrow> Inl NoExternalIp
      | Some ip \<Rightarrow>
          (case primary_lan_ipv4 local of
             None \<Rightarrow> Inl NoLanAddress
           | Some o4 \<Rightarrow>
               if \<not> add_port listen_port \<lparr>sa_ip = V4 o4, sa_port = listen_port\<rparr> lease_secs then Inl PortRefused
               else Inr \<lparr>external = \<lparr>sa_ip = ip, sa_port = listen_port\<rparr>, cgnat = is_private_or_cgnat ip\<rparr>))"

definition renew_every :: "32 word \<Rightarrow> nat" where
  "renew_every lease_secs = max (unat lease_secs div 2) 60"

text \<open>A lease of at least a minute is renewed no later than it ends, one of two minutes with half of it left.\<close>

lemma renewed_in_time: "60 \<le> unat lease \<Longrightarrow> renew_every lease \<le> unat lease"
  by (simp add: renew_every_def)

section \<open>The classification as address blocks\<close>

text \<open>\<open>in_block b n a\<close>: the first \<open>n\<close> bits of the address \<open>a\<close> are those of \<open>b\<close>, in CIDR notation \<open>b/n\<close>.\<close>

definition in_block :: "bytes \<Rightarrow> nat \<Rightarrow> bytes \<Rightarrow> bool" where
  "in_block b n a \<longleftrightarrow> length a = length b \<and> be_val a div 2 ^ (8 * length b - n) = be_val b div 2 ^ (8 * length b - n)"

text \<open>
  RFC 1918, loopback, link-local, the unspecified address and the shared space of RFC 6598 for
  IPv4; loopback, unspecified, unique local and link-local for IPv6.
\<close>

definition unreachable_blocks :: "(bytes \<times> nat) list" where
  "unreachable_blocks =
     [([10, 0, 0, 0], 8), ([172, 16, 0, 0], 12), ([192, 168, 0, 0], 16), ([127, 0, 0, 0], 8),
      ([169, 254, 0, 0], 16), ([0, 0, 0, 0], 32), ([100, 64, 0, 0], 10),
      (replicate 15 0 @ [1], 128), (replicate 16 0, 128), (0xfc # replicate 15 0, 7), (0xfe # 0x80 # replicate 14 0, 10)]"

lemma be_val_append: "be_val (xs @ ys) = be_val xs * 256 ^ length ys + be_val ys"
proof (induction ys rule: rev_induct)
  case (snoc y ys)
  have "be_val (xs @ ys @ [y]) = 256 * be_val (xs @ ys) + unat y" by (metis append_assoc be_val_snoc)
  with snoc show ?case by (simp add: algebra_simps)
qed simp

lemma be_val_eq: "length xs = length ys \<Longrightarrow> be_val xs = be_val ys \<longleftrightarrow> xs = ys"
  by (metis be_bytes_be_val)

lemma block_div:
  assumes "k \<le> 8"
  shows "be_val (p @ x # r) div 2 ^ (8 * length r + (8 - k)) = be_val p * 2 ^ k + unat x div 2 ^ (8 - k)"
proof -
  have v: "be_val (p @ x # r) = (256 * be_val p + unat x) * 256 ^ length r + be_val r"
    using be_val_append [of "p @ [x]" r] by simp
  have w: "(2 :: nat) ^ (8 * length r + (8 - k)) = 256 ^ length r * 2 ^ (8 - k)"
    by (simp add: power_add power_mult)
  have "be_val (p @ x # r) div 256 ^ length r = 256 * be_val p + unat x"
    using be_val_bound [of r] by (simp add: v)
  moreover have "256 * be_val p = be_val p * 2 ^ k * 2 ^ (8 - k)" using assms by (simp add: mult.assoc flip: power_add)
  ultimately have "be_val (p @ x # r) div 256 ^ length r = unat x + be_val p * 2 ^ k * 2 ^ (8 - k)" by simp
  then show ?thesis unfolding w div_mult2_eq by simp
qed

text \<open>A block boundary inside a byte: the bytes before it are equal and the byte agrees in its first \<open>k\<close> bits.\<close>

lemma digits_eq:
  fixes a b m x y :: nat
  assumes "x < m" and "y < m"
  shows "a * m + x = b * m + y \<longleftrightarrow> a = b \<and> x = y"
proof -
  have "(a * m + x) div m = a" "(b * m + y) div m = b" using assms by simp_all
  then show ?thesis by auto
qed

lemma in_block_at:
  assumes "k \<le> 8" and "length p = length q" and "length r = length s"
  shows "in_block (q @ y # s) (8 * length q + k) (p @ x # r) \<longleftrightarrow> p = q \<and> unat x div 2 ^ (8 - k) = unat y div 2 ^ (8 - k)"
proof -
  have e: "8 * length (q @ y # s) - (8 * length q + k) = 8 * length s + (8 - k)" using assms(1) by simp
  have less: "unat (z :: byte) div 2 ^ (8 - k) < 2 ^ k" for z
  proof -
    have "unat z < 2 ^ k * 2 ^ (8 - k)" using assms(1) unsigned_less [of z] by (simp flip: power_add)
    then show ?thesis by (simp add: less_mult_imp_div_less)
  qed
  have "in_block (q @ y # s) (8 * length q + k) (p @ x # r)
    \<longleftrightarrow> be_val p * 2 ^ k + unat x div 2 ^ (8 - k) = be_val q * 2 ^ k + unat y div 2 ^ (8 - k)"
    unfolding in_block_def e using block_div [OF assms(1), of p x r] block_div [OF assms(1), of q y s] assms(2,3) by simp
  also have "\<dots> \<longleftrightarrow> be_val p = be_val q \<and> unat x div 2 ^ (8 - k) = unat y div 2 ^ (8 - k)"
    by (rule digits_eq [OF less less])
  finally show ?thesis using be_val_eq [OF assms(2)] by simp
qed

lemma masked_bits:
  "(x :: byte) AND 0xfe = 0xfc \<longleftrightarrow> unat x div 2 = 126"
  "(x :: byte) AND 0xc0 = 0x80 \<longleftrightarrow> unat x div 64 = 2"
proof -
  have d: "unat (drop_bit k x) = unat x div 2 ^ k" for k unfolding unat_drop_bit_eq by (rule drop_bit_eq_div)
  have m: "x AND NOT (mask k) = push_bit k (drop_bit k x)" for k
    by (rule bit_word_eqI) (auto simp: bit_simps)
  have r: "drop_bit k (push_bit k (drop_bit k x)) = drop_bit k x" for k
    by (rule bit_word_eqI) (auto simp: bit_simps dest: bit_imp_le_length)
  have n: "(0xfe :: byte) = NOT (mask 1)" "(0xc0 :: byte) = NOT (mask 6)" by code_simp+
  have v: "drop_bit 1 (0xfc :: byte) = 126" "push_bit 1 (126 :: byte) = 0xfc" "drop_bit 6 (0x80 :: byte) = 2" "push_bit 6 (2 :: byte) = 0x80"
    by code_simp+
  have "x AND 0xfe = 0xfc \<longleftrightarrow> drop_bit 1 x = 126" unfolding n m using r [of 1] v(1,2) by metis
  moreover have "x AND 0xc0 = 0x80 \<longleftrightarrow> drop_bit 6 x = 2" unfolding n m using r [of 6] v(3,4) by metis
  ultimately show "x AND 0xfe = 0xfc \<longleftrightarrow> unat x div 2 = 126" "x AND 0xc0 = 0x80 \<longleftrightarrow> unat x div 64 = 2"
    using d [of 1] d [of 6] by (auto simp: word_unat_eq_iff)
qed

lemma byte_bounds: "(a :: byte) \<le> b \<longleftrightarrow> unat a \<le> unat b" "(a :: byte) = b \<longleftrightarrow> unat a = unat b"
  by (simp_all add: word_le_nat_alt word_unat_eq_iff)

lemma v4_blocks:
  fixes a b c d :: byte
  shows "in_block [10, 0, 0, 0] 8 [a, b, c, d] \<longleftrightarrow> a = 10"
    and "in_block [127, 0, 0, 0] 8 [a, b, c, d] \<longleftrightarrow> a = 127"
    and "in_block [172, 16, 0, 0] 12 [a, b, c, d] \<longleftrightarrow> a = 172 \<and> 16 \<le> b \<and> b \<le> 31"
    and "in_block [100, 64, 0, 0] 10 [a, b, c, d] \<longleftrightarrow> a = 100 \<and> 64 \<le> b \<and> b \<le> 127"
    and "in_block [192, 168, 0, 0] 16 [a, b, c, d] \<longleftrightarrow> a = 192 \<and> b = 168"
    and "in_block [169, 254, 0, 0] 16 [a, b, c, d] \<longleftrightarrow> a = 169 \<and> b = 254"
    and "in_block [0, 0, 0, 0] 32 [a, b, c, d] \<longleftrightarrow> [a, b, c, d] = [0, 0, 0, 0]"
proof -
  note at = in_block_at [where p = "[]" and q = "[]" and k = 8 and x = a and r = "[b, c, d]", simplified]
    in_block_at [where p = "[a]" and x = b and r = "[c, d]" and k = 4, simplified]
    in_block_at [where p = "[a]" and x = b and r = "[c, d]" and k = 2, simplified]
    in_block_at [where p = "[a]" and x = b and r = "[c, d]" and k = 8, simplified]
    in_block_at [where p = "[a, b, c]" and x = d and r = "[]" and k = 8, simplified]
  show "in_block [10, 0, 0, 0] 8 [a, b, c, d] \<longleftrightarrow> a = 10" using at(1) [of "[0, 0, 0]" 10] by (simp add: byte_bounds)
  show "in_block [127, 0, 0, 0] 8 [a, b, c, d] \<longleftrightarrow> a = 127" using at(1) [of "[0, 0, 0]" 127] by (simp add: byte_bounds)
  show "in_block [172, 16, 0, 0] 12 [a, b, c, d] \<longleftrightarrow> a = 172 \<and> 16 \<le> b \<and> b \<le> 31"
    using at(2) [of "[172]" "[0, 0]" 16] by (auto simp: byte_bounds)
  show "in_block [100, 64, 0, 0] 10 [a, b, c, d] \<longleftrightarrow> a = 100 \<and> 64 \<le> b \<and> b \<le> 127"
    using at(3) [of "[100]" "[0, 0]" 64] by (auto simp: byte_bounds)
  show "in_block [192, 168, 0, 0] 16 [a, b, c, d] \<longleftrightarrow> a = 192 \<and> b = 168"
    using at(4) [of "[192]" "[0, 0]" 168] by (simp add: byte_bounds)
  show "in_block [169, 254, 0, 0] 16 [a, b, c, d] \<longleftrightarrow> a = 169 \<and> b = 254"
    using at(4) [of "[169]" "[0, 0]" 254] by (simp add: byte_bounds)
  show "in_block [0, 0, 0, 0] 32 [a, b, c, d] \<longleftrightarrow> [a, b, c, d] = [0, 0, 0, 0]"
    using at(5) [of "[0, 0, 0]" "[]" 0] by (simp add: byte_bounds)
qed

lemma in_block_exact: "in_block b (8 * length b) a \<longleftrightarrow> a = b"
  using be_val_eq [of a b] by (auto simp: in_block_def)

lemma in_block_length: "in_block b n a \<Longrightarrow> length a = length b"
  by (simp add: in_block_def)

lemma v6_blocks:
  assumes "length o6 = 16"
  shows "in_block (replicate 15 0 @ [1]) 128 o6 \<longleftrightarrow> o6 = replicate 15 0 @ [1]"
    and "in_block (replicate 16 0) 128 o6 \<longleftrightarrow> o6 = replicate 16 0"
    and "in_block (0xfc # replicate 15 0) 7 o6 \<longleftrightarrow> o6 ! 0 AND 0xfe = 0xfc"
    and "in_block (0xfe # 0x80 # replicate 14 0) 10 o6 \<longleftrightarrow> o6 ! 0 = 0xfe \<and> o6 ! 1 AND 0xc0 = 0x80"
proof -
  obtain x y r where o6: "o6 = x # y # r" and r: "length r = 14" using assms by (cases o6; cases "tl o6") auto
  show "in_block (replicate 15 0 @ [1]) 128 o6 \<longleftrightarrow> o6 = replicate 15 0 @ [1]"
    using in_block_exact [of "replicate 15 0 @ [1]" o6] by simp
  show "in_block (replicate 16 0) 128 o6 \<longleftrightarrow> o6 = replicate 16 0"
    using in_block_exact [of "replicate 16 0" o6] by simp
  show "in_block (0xfc # replicate 15 0) 7 o6 \<longleftrightarrow> o6 ! 0 AND 0xfe = 0xfc"
    using in_block_at [where k = 7 and p = "[]" and q = "[]" and r = "y # r" and s = "replicate 15 0" and y = "0xfc" and x = x] r by (simp add: o6 masked_bits)
  show "in_block (0xfe # 0x80 # replicate 14 0) 10 o6 \<longleftrightarrow> o6 ! 0 = 0xfe \<and> o6 ! 1 AND 0xc0 = 0x80"
    using in_block_at [where k = 2 and p = "[x]" and q = "[0xfe]" and r = r and s = "replicate 14 0" and y = "0x80" and x = y] r by (simp add: o6 masked_bits)
qed

fun octets :: "ipaddr \<Rightarrow> bytes" where
  "octets (V4 o4) = o4"
| "octets (V6 o6) = o6"

fun wf_ip :: "ipaddr \<Rightarrow> bool" where
  "wf_ip (V4 o4) \<longleftrightarrow> length o4 = 4"
| "wf_ip (V6 o6) \<longleftrightarrow> length o6 = 16"

text \<open>
  The test on the octets of an address is membership in the listed blocks: an address counts
  as unreachable exactly when it lies in one of the private, shared, loopback, link-local, unique
  local or unspecified ranges, for both address families.
\<close>

theorem cgnat_is_block_membership:
  assumes "wf_ip ip"
  shows "is_private_or_cgnat ip \<longleftrightarrow> list_ex (\<lambda>(b, n). in_block b n (octets ip)) unreachable_blocks"
proof (cases ip)
  case (V4 o4)
  with assms obtain a b c d where "o4 = [a, b, c, d]" by (auto simp: length_Suc_conv numeral_eq_Suc)
  with V4 show ?thesis

    by (auto simp: unreachable_blocks_def v4_blocks v4_is_private_def v4_is_link_local_def dest: in_block_length)
next
  case (V6 o6)
  with assms have "length o6 = 16" by simp
  with V6 v6_blocks [OF this] show ?thesis
    by (auto simp: unreachable_blocks_def dest: in_block_length)
qed

theorem cgnat_is_block_membership_witness:
  "list_ex (\<lambda>(b, n). in_block b n [100, 127, 255, 254]) unreachable_blocks
   \<and> \<not> list_ex (\<lambda>(b, n). in_block b n [100, 128, 0, 1]) unreachable_blocks"
  using cgnat_is_block_membership [of "V4 [100, 127, 255, 254]"] cgnat_is_block_membership [of "V4 [100, 128, 0, 1]"]
  by (simp add: v4_is_private_def v4_is_link_local_def)

end
