(* ===== verification/Operator_Commands.thy ===== *)
theory Operator_Commands
  imports Key_Files Gossip_Node Nat_Mapping Authority "HOL-Library.Multiset"
begin

text \<open>
  The command line of a relay, crypto-gotham-relay/src/main.rs: the checks on the options of \<open>run\<close>,
  the diagnosis of \<open>doctor\<close>, the watch on the relay's own listing, and \<open>sign-directory\<close>. What an
  authority answers, the parsing of addresses and of JSON are arguments; printing and logging are
  left out.
\<close>

section \<open>Options of \<open>run\<close>\<close>

definition parse_listen_addr :: "(string \<Rightarrow> ipaddr option) \<Rightarrow> string \<Rightarrow> 16 word \<Rightarrow> file_error + sockaddr" where
  "parse_listen_addr parse_ip host listen_port =
     (case parse_ip (trim host) of
        None \<Rightarrow> Inl (InvalidInput ''--listen-host must be a numeric IP (v4/v6)'')
      | Some ip \<Rightarrow> Inr \<lparr>sa_ip = ip, sa_port = listen_port\<rparr>)"

text \<open>The address to advertise, when an authority is given; \<open>upnp\<close> is the result of the port mapping.\<close>

definition advertise_address :: "prims \<Rightarrow> (sockaddr \<Rightarrow> string) \<Rightarrow> string option \<Rightarrow> string option \<Rightarrow> bool
    \<Rightarrow> nat_error + nat_mapping \<Rightarrow> file_error + string" where
  "advertise_address P show_addr rendezvous_key advertise_addr no_upnp upnp =
     (if rendezvous_key \<noteq> None then Inr []
      else case advertise_addr of
        Some a \<Rightarrow> (case parse_sockaddr P a of None \<Rightarrow> Inl (InvalidInput ''--advertise-addr must be ip:port'') | Some _ \<Rightarrow> Inr a)
      | None \<Rightarrow>
          if \<not> no_upnp
          then (case upnp of Inl e \<Rightarrow> Inl (OtherError ''UPnP'') | Inr m \<Rightarrow> Inr (show_addr (external m)))
          else Inl (InvalidInput ''--advertise-addr is required with --authority-url (UPnP disabled via --no-upnp)''))"

definition rendezvous_dial :: "prims \<Rightarrow> string option \<Rightarrow> string option \<Rightarrow> file_error + (sockaddr \<times> bytes) option" where
  "rendezvous_dial P rendezvous_key rendezvous_addr =
     (case (rendezvous_key, rendezvous_addr) of
        (Some k, Some a) \<Rightarrow>
          (case hex32 P k of
             None \<Rightarrow> Inl (InvalidInput ''--rendezvous-key must be 32-byte hex'')
           | Some r_pk \<Rightarrow>
               (case parse_sockaddr P a of
                  None \<Rightarrow> Inl (InvalidInput ''--rendezvous-addr must be ip:port'')
                | Some r_addr \<Rightarrow> Inr (Some (r_addr, r_pk))))
      | (None, None) \<Rightarrow> Inr None
      | _ \<Rightarrow> Inl (InvalidInput ''--rendezvous-key and --rendezvous-addr must be set together''))"

definition parse_gossip_caps :: "string \<Rightarrow> file_error + capabilities" where
  "parse_gossip_caps s =
     (if s = ''entry'' then Inr CapEntry else if s = ''mix'' then Inr CapMix else if s = ''exit'' then Inr CapExit
      else if s = ''all'' then Inr CapAll else Inl (InvalidInput ''unknown --gossip-caps (entry|mix|exit|all)''))"

text \<open>A \<open>--gossip-seed\<close>, \<open>ip:port@kem-hex\<close>: split at the first \<open>@\<close>.\<close>

definition parse_gossip_seed :: "prims \<Rightarrow> string \<Rightarrow> file_error + (sockaddr \<times> bytes)" where
  "parse_gossip_seed P s =
     (let addr_s = takeWhile (\<lambda>c. c \<noteq> CHR ''@'') s; rest = dropWhile (\<lambda>c. c \<noteq> CHR ''@'') s
      in case rest of
           [] \<Rightarrow> Inl (InvalidInput ''--gossip-seed must be ip:port@<kem-hex>'')
         | _ # kem_s \<Rightarrow>
             (case parse_sockaddr P addr_s of
                None \<Rightarrow> Inl (InvalidInput ''bad --gossip-seed addr'')
              | Some a \<Rightarrow>
                  (case hex_decode P kem_s of
                     None \<Rightarrow> Inl (InvalidInput ''--gossip-seed kem is not hex'')
                   | Some kem \<Rightarrow>
                       if length kem \<noteq> 32 then Inl (InvalidInput ''--gossip-seed kem must be 32 bytes'') else Inr (a, kem))))"

fun parse_gossip_seeds :: "prims \<Rightarrow> string list \<Rightarrow> file_error + (sockaddr \<times> bytes) list" where
  "parse_gossip_seeds P [] = Inr []"
| "parse_gossip_seeds P (s # ss) =
     (case parse_gossip_seed P s of
        Inl e \<Rightarrow> Inl e
      | Inr p \<Rightarrow> (case parse_gossip_seeds P ss of Inl e \<Rightarrow> Inl e | Inr ps \<Rightarrow> Inr (p # ps)))"

text \<open>
  \<open>build_gossip\<close> up to the start of the loop: the node, or nothing when gossip is off. The files of
  the key, the authority set and the certificate are read in this order; their JSON is a parameter.
\<close>

definition build_gossip :: "prims \<Rightarrow> (bytes \<Rightarrow> authority_set option) \<Rightarrow> (bytes \<Rightarrow> admission_cert option) \<Rightarrow> fs \<Rightarrow> bool \<Rightarrow> string
    \<Rightarrow> string option \<Rightarrow> string option \<Rightarrow> string option \<Rightarrow> string option \<Rightarrow> string list \<Rightarrow> string \<Rightarrow> nat
    \<Rightarrow> file_error + gossip_node option" where
  "build_gossip P set_json cert_json fs enabled kem_hex advertise_addr advert_key admission_cert authority_set gossip_seeds gossip_caps now =
     (if \<not> enabled then Inr None
      else case advertise_addr of
        None \<Rightarrow> Inl (InvalidInput ''--advertise-addr is required with --gossip'')
      | Some advertise \<Rightarrow>
      (case advert_key of
        None \<Rightarrow> Inl (InvalidInput ''--advert-key is required with --gossip'')
      | Some key_path \<Rightarrow>
      (case admission_cert of
        None \<Rightarrow> Inl (InvalidInput ''--admission-cert is required with --gossip'')
      | Some cert_path \<Rightarrow>
      (case authority_set of
        None \<Rightarrow> Inl (InvalidInput ''--authority-set is required with --gossip'')
      | Some set_path \<Rightarrow>
      (case fs key_path of
        None \<Rightarrow> Inl NotFound
      | Some raw \<Rightarrow>
      (case read_ed25519_seed P (text_of raw) of
        None \<Rightarrow> Inl (InvalidData ''authority key must be 32 bytes (or 64 hex chars)'')
      | Some ident \<Rightarrow>
      (case fs set_path of
        None \<Rightarrow> Inl NotFound
      | Some set_bytes \<Rightarrow>
      (case set_json set_bytes of
        None \<Rightarrow> Inl (InvalidInput ''authority-set JSON'')
      | Some S \<Rightarrow>
      (case fs cert_path of
        None \<Rightarrow> Inl NotFound
      | Some cert_bytes \<Rightarrow>
      (case cert_json cert_bytes of
        None \<Rightarrow> Inl (InvalidInput ''admission-cert JSON'')
      | Some cert \<Rightarrow>
      (case parse_gossip_caps gossip_caps of
        Inl e \<Rightarrow> Inl e
      | Inr caps \<Rightarrow>
      (case parse_gossip_seeds P gossip_seeds of
        Inl e \<Rightarrow> Inl e
      | Inr bootstrap \<Rightarrow>
          Inr (Some (gossip_node_new \<lparr>gc_identity = ident, gc_kem_hex = kem_hex, gc_advertise_addr = advertise, gc_capabilities = caps,
            gc_admission = cert, gc_bootstrap = bootstrap\<rparr> roster_new S now))))))))))))))"

section \<open>The diagnosis\<close>

text \<open>
  What the diagnosis reads of the body an authority answers with: nothing when no body arrives;
  otherwise the listed relays, none when the body is not the JSON of a directory.
\<close>

record json_relay =
  jr_id :: "string option"
  jr_tier :: "string option"
  jr_operator :: "string option"
  jr_addr :: "string option"
  jr_rendezvous_capable :: "bool option"

record authority_view =
  av_url :: string
  av_reachable :: bool
  av_listed :: bool
  av_tier :: "string option"
  av_operator :: "string option"
  av_addr :: "string option"
  av_rendezvous_capable :: bool

definition ask_authority :: "string \<Rightarrow> string \<Rightarrow> json_relay list option \<Rightarrow> authority_view" where
  "ask_authority url pk_hex body =
     (let view = \<lparr>av_url = url, av_reachable = False, av_listed = False, av_tier = None, av_operator = None, av_addr = None,
          av_rendezvous_capable = False\<rparr>
      in case body of
           None \<Rightarrow> view
         | Some rs \<Rightarrow>
             (case find (\<lambda>r. jr_id r = Some pk_hex) rs of
                None \<Rightarrow> view\<lparr>av_reachable := True\<rparr>
              | Some r \<Rightarrow> view\<lparr>av_reachable := True, av_listed := True, av_tier := jr_tier r, av_operator := jr_operator r,
                  av_addr := jr_addr r, av_rendezvous_capable := (jr_rendezvous_capable r = Some True)\<rparr>))"

text \<open>How \<open>run_doctor\<close> ends: its exit code, or the panic of an index out of bounds.\<close>

datatype doctor_end = ExitCode nat | Panicked

definition run_doctor :: "string \<Rightarrow> (string \<times> json_relay list option) list \<Rightarrow> nat \<Rightarrow> doctor_end" where
  "run_doctor pk_hex answers quorum =
     (let views = map (\<lambda>(url, body). ask_authority url pk_hex body) answers;
          listed = filter av_listed views
      in if length listed < quorum then ExitCode 1
         else case listed of
           [] \<Rightarrow> Panicked
         | sample # _ \<Rightarrow> if av_operator sample = None then ExitCode 1 else ExitCode 0)"

text \<open>
  One period of \<open>watch_own_listing\<close>. An authority does not answer, answers without a readable
  body, or with one; the report is due when the verdict differs from the last one.
\<close>

definition WATCH_QUORUM :: nat where "WATCH_QUORUM = 2"

datatype watch_answer = Unsent | Unread | Body string

fun body_lists :: "string \<Rightarrow> watch_answer \<Rightarrow> bool" where
  "body_lists pk_hex (Body b) = str_contains b pk_hex"
| "body_lists pk_hex _ = False"

definition watch_tick :: "string \<Rightarrow> watch_answer list \<Rightarrow> bool option \<Rightarrow> bool option \<times> bool option" where
  "watch_tick pk_hex answers was_listed =
     (let asked = length (filter (\<lambda>a. a \<noteq> Unsent) answers);
          seen = length (filter (body_lists pk_hex) answers);
          listed = (WATCH_QUORUM \<le> seen)
      in if asked = 0 then (was_listed, None)
         else if was_listed = Some listed then (was_listed, None)
         else (Some listed, Some listed))"

fun watch_run :: "string \<Rightarrow> watch_answer list list \<Rightarrow> bool option \<Rightarrow> bool list" where
  "watch_run pk_hex [] was_listed = []"
| "watch_run pk_hex (a # as) was_listed =
     (let (now_listed, report) = watch_tick pk_hex a was_listed
      in (case report of None \<Rightarrow> [] | Some b \<Rightarrow> [b]) @ watch_run pk_hex as now_listed)"

section \<open>Signing a directory\<close>

record relay_json_entry =
  je_node_id_hex :: string
  je_addr :: string
  je_capabilities :: string
  je_country :: "string option"
  je_asn :: "32 word option"
  je_operator :: "string option"
  je_mailbox :: bool

definition entry_tier :: "nat \<Rightarrow> string \<Rightarrow> file_error + relay_tier" where
  "entry_tier i caps =
     (if caps = ''entry'' then Inr Entry else if caps = ''mix'' then Inr Mix else if caps = ''exit'' then Inr Exit
      else if caps = ''all'' \<or> caps = [] then Inr (if i mod 3 = 0 then Entry else if i mod 3 = 1 then Mix else Exit)
      else Inl (InvalidData ''unknown capability - use entry|mix|exit|all''))"

text \<open>The bits of the \<open>f32\<close> 100.0.\<close>

definition UPTIME_FULL :: "32 word" where "UPTIME_FULL = 0x42C80000"

text \<open>The command up to the writing of its output; \<open>relays_file\<close> is the outcome of reading and parsing the relay list.\<close>

fun sign_descriptors :: "nat \<Rightarrow> relay_json_entry list \<Rightarrow> file_error + descriptor list" where
  "sign_descriptors i [] = Inr []"
| "sign_descriptors i (e # es) =
     (case entry_tier i (je_capabilities e) of
        Inl err \<Rightarrow> Inl err
      | Inr t \<Rightarrow>
          (case sign_descriptors (Suc i) es of
             Inl err \<Rightarrow> Inl err
           | Inr ds \<Rightarrow> Inr (\<lparr>id_pubkey_hex = je_node_id_hex e, kem_pubkey_hex = je_node_id_hex e, addr = je_addr e, tier = t,
               country = je_country e, asn = je_asn e, operator = je_operator e, uptime_pct = Some UPTIME_FULL,
               has_mailbox = je_mailbox e, rendezvous = None, rendezvous_capable = False\<rparr> # ds)))"

definition sign_directory :: "prims \<Rightarrow> json \<Rightarrow> string option \<Rightarrow> file_error + relay_json_entry list \<Rightarrow> nat \<Rightarrow> nat option
    \<Rightarrow> file_error + signed_directory" where
  "sign_directory P J key_file relays_file valid_secs clock =
     (case key_file of
        None \<Rightarrow> Inl NotFound
      | Some raw \<Rightarrow>
          (case read_ed25519_seed P raw of
             None \<Rightarrow> Inl (InvalidData ''authority key must be 32 bytes (or 64 hex chars)'')
           | Some seed \<Rightarrow>
               (case relays_file of
                  Inl e \<Rightarrow> Inl e
                | Inr listing \<Rightarrow>
                    if length listing < 3 then Inl (InvalidData ''need at least 3 relays for a working mixnet'')
                    else case sign_descriptors 0 listing of
                      Inl e \<Rightarrow> Inl e
                    | Inr ds \<Rightarrow>
                        (case doc_new ds valid_secs clock of
                           Inl _ \<Rightarrow> Inl (OtherError ''DirectoryDoc::new'')
                         | Inr d \<Rightarrow>
                             (case directory_sign P J d seed of
                                Inl _ \<Rightarrow> Inl (OtherError ''SignedDirectory::sign'')
                              | Inr sd \<Rightarrow> Inr sd)))))"

section \<open>What the diagnosis says\<close>

text \<open>The listing of a relay in the JSON of a directory.\<close>

definition tier_text :: "relay_tier \<Rightarrow> string" where
  "tier_text t = (case t of Entry \<Rightarrow> ''entry'' | Mix \<Rightarrow> ''mix'' | Exit \<Rightarrow> ''exit'')"

definition json_of :: "descriptor \<Rightarrow> json_relay" where
  "json_of d = \<lparr>jr_id = Some (id_pubkey_hex d), jr_tier = Some (tier_text (tier d)), jr_operator = operator d,
     jr_addr = Some (addr d), jr_rendezvous_capable = Some (rendezvous_capable d)\<rparr>"

lemma ask_authority_listed:
  assumes "distinct (map id_pubkey_hex rs)" and "d \<in> set rs"
  shows "av_listed (ask_authority url (id_pubkey_hex d) (Some (map json_of rs)))
    \<and> av_operator (ask_authority url (id_pubkey_hex d) (Some (map json_of rs))) = operator d"
proof -
  have "find (\<lambda>r. jr_id r = Some (id_pubkey_hex d)) (map json_of rs) = Some (json_of d)"
    using assms
  proof (induction rs)
    case (Cons r rs)
    show ?case
    proof (cases "r = d")
      case False
      then have "id_pubkey_hex r \<noteq> id_pubkey_hex d" using Cons.prems by auto
      then show ?thesis using Cons False by (simp add: json_of_def)
    qed (simp add: json_of_def)
  qed simp
  then show ?thesis by (simp add: ask_authority_def json_of_def)
qed

lemma ask_authority_unlisted: "\<not> av_listed (ask_authority url pk None)"
  by (simp add: ask_authority_def)

text \<open>
  When every authority that answers serves the same directory, the verdict is that of the
  relay's listing there.
\<close>

lemma run_doctor_listed:
  assumes "distinct (map id_pubkey_hex rs)" and "d \<in> set rs"
    and "\<forall>a \<in> set answers. snd a = None \<or> snd a = Some (map json_of rs)"
    and "0 < quorum" and "quorum \<le> length (filter (\<lambda>a. snd a \<noteq> None) answers)"
  shows "run_doctor (id_pubkey_hex d) answers quorum = ExitCode (if operator d = None then 1 else 0)"
proof -
  let ?ask = "\<lambda>a. ask_authority (fst a) (id_pubkey_hex d) (snd a)"
  have l: "av_listed (?ask a) \<longleftrightarrow> snd a \<noteq> None" "snd a \<noteq> None \<Longrightarrow> av_operator (?ask a) = operator d" if "a \<in> set answers" for a
    using assms(3) that ask_authority_listed [OF assms(1,2)] ask_authority_unlisted by (metis, metis)
  have f: "filter av_listed (map ?ask answers) = map ?ask (filter (\<lambda>a. snd a \<noteq> None) answers)"
    using l(1) by (simp add: filter_map o_def cong: filter_cong)
  obtain a as where a: "filter (\<lambda>a. snd a \<noteq> None) answers = a # as"
    using assms(4,5) by (cases "filter (\<lambda>a. snd a \<noteq> None) answers") auto
  then have "a \<in> set answers" "snd a \<noteq> None" by (auto dest: filter_eq_ConsD)
  then have "av_operator (?ask a) = operator d" using l(2) by blast
  moreover have "(\<lambda>(url, body). ask_authority url (id_pubkey_hex d) body) = ?ask" by (simp add: fun_eq_iff)
  ultimately show ?thesis using a assms(5) unfolding run_doctor_def Let_def
    by (simp only: f a list.simps length_map list.size) auto
qed

lemma picked_has_operator:
  assumes "distinct (map id_pubkey_hex rs)" and "\<forall>k. draws_ok (draws k)"
    and "pick P rs guards draws hops = Inr path" and "d \<in> set path" and "rendezvous d = None"
  shows "operator d \<noteq> None"
proof -
  let ?ix = "index_by_id rs"
  from pick_path [OF assms(1-3)] have dp: "diverse_path P ?ix path" and len: "length path = hops + hosted_count path"
    and first: "rendezvous (hd path) = None" by auto
  have "3 \<le> hops" using assms(3) by (auto simp: pick_def split: if_splits)
  then have n: "3 \<le> length path" using len by simp
  obtain i where i: "i < length path" "path ! i = d" using assms(4) by (auto simp: in_set_conv_nth)
  have "\<exists>x. apart P ?ix d x \<or> apart P ?ix x d"
  proof (cases "i = 0")
    case True
    then have "apart P ?ix d (path ! 2)" using dp n i unfolding diverse_path_def
      by (metis One_nat_def Suc_le_eq numeral_2_eq_2 numeral_3_eq_3 n_not_Suc_n old.nat.inject zero_less_Suc)
    then show ?thesis by blast
  next
    case False
    then have "apart P ?ix (path ! 0) d \<or> hosts ?ix (path ! 0) d" using dp i unfolding diverse_path_def by blast
    then show ?thesis using assms(5) by (auto simp: hosts_def)
  qed
  then have "eff_operator d ?ix \<noteq> None" by (auto simp: apart_def)
  then show ?thesis using assms(5) by (simp add: eff_operator_def)
qed


definition unlabelled :: "descriptor \<Rightarrow> descriptor" where
  "unlabelled d = d\<lparr>operator := None\<rparr>"

definition demo_unlabelled :: "descriptor list" where
  "demo_unlabelled = [demo_desc ''aa'' Entry None False, unlabelled (demo_desc ''bb'' Mix None True),
     demo_desc ''cc'' Mix None False, demo_desc ''dd'' Exit None False]"


definition demo_unlabelled_hosted :: "descriptor list" where
  "demo_unlabelled_hosted = [demo_desc ''aa'' Entry None False, unlabelled (demo_desc ''cc'' Mix (Some ''bb'') False),
     demo_desc ''bb'' Mix None True, demo_desc ''dd'' Exit None False]"

text \<open>
  For a relay behind a rendezvous point the diagnosis is wrong, since path selection takes
  the operator of the host for it: here an unlabelled relay is told that it is never chosen while
  the selector puts it on a path. And with a quorum of 0 an unlisted relay makes it panic.
\<close>

theorem doctor_wrong_when_hosted:
  "run_doctor ''cc'' [(''a'', Some (map json_of demo_unlabelled_hosted)), (''b'', Some (map json_of demo_unlabelled_hosted))] 2
     = ExitCode 1
   \<and> pick demo_prims demo_unlabelled_hosted [] (\<lambda>_. first_draws) 3
     = Inr [demo_desc ''aa'' Entry None False, demo_desc ''bb'' Mix None True,
         unlabelled (demo_desc ''cc'' Mix (Some ''bb'') False), demo_desc ''dd'' Exit None False]
   \<and> run_doctor ''cc'' [(''a'', None)] 0 = Panicked"
  by code_simp

section \<open>What is signed\<close>

lemma sign_descriptors_map:
  "sign_descriptors i es = Inr ds \<Longrightarrow> length ds = length es
     \<and> (\<forall>k < length es. id_pubkey_hex (ds ! k) = je_node_id_hex (es ! k) \<and> addr (ds ! k) = je_addr (es ! k)
          \<and> operator (ds ! k) = je_operator (es ! k) \<and> rendezvous (ds ! k) = None
          \<and> entry_tier (i + k) (je_capabilities (es ! k)) = Inr (tier (ds ! k)))"
proof (induction i es arbitrary: ds rule: sign_descriptors.induct)
  case (2 i e es)
  then obtain t ds' where t: "entry_tier i (je_capabilities e) = Inr t" "sign_descriptors (Suc i) es = Inr ds'"
    by (auto split: sum.splits)
  then show ?case using 2 by (auto simp: nth_Cons' less_Suc_eq_0_disj split: sum.splits)
qed simp

lemma entry_tier_all: "entry_tier k ''all'' = Inr (if k mod 3 = 0 then Entry else if k mod 3 = 1 then Mix else Exit)"
  by (simp add: entry_tier_def)

lemma sign_directory_Inr:
  assumes "sign_directory P J key_file relays_file valid_secs clock = Inr sd"
  obtains raw seed es ds now where "key_file = Some raw" "read_ed25519_seed P raw = Some seed" "relays_file = Inr es"
    "3 \<le> length es" "sign_descriptors 0 es = Inr ds" "clock = Some now"
    "doc_new ds valid_secs clock = Inr (doc sd)" "directory_sign P J (doc sd) seed = Inr sd"
  using assms
  by (auto simp: sign_directory_def directory_sign_def doc_new_def split: option.splits sum.splits if_splits)


definition demo_entry :: "string \<Rightarrow> relay_json_entry" where
  "demo_entry nm = \<lparr>je_node_id_hex = nm, je_addr = nm, je_capabilities = ''all'', je_country = None, je_asn = None,
     je_operator = Some nm, je_mailbox = False\<rparr>"


end
