(* ===== verification/Rendezvous.thy ===== *)
theory Rendezvous
  imports Noise_Framing
begin

text \<open>
  Relays that cannot be dialled, crypto-gotham-relay/src/rendezvous.rs: a relay behind a NAT keeps
  a tunnel open to a rendezvous relay, which pushes the packets for it down the tunnel; and the
  question an authority asks whether such a relay is hosted, \<open>serve_rendezvous_query\<close> and
  \<open>probe_rendezvous_hosting\<close> of crypto-gotham-relay/src/transport.rs.

  A tunnel is shared by the table and the task that serves its connection, so the tunnels live in
  a store, a list, and the table holds their positions: \<open>Arc::ptr_eq\<close> is equality of positions.
  The tasks interleave at the table's lock; the states they can reach are an inductive predicate.
\<close>

section \<open>The table of tunnels\<close>

record tunnel = link +
  peer_pk :: bytes
  src_ip :: ipaddr

record rdv_table =
  tunnels :: "tunnel list"
  inner :: "(bytes, nat) hashmap"

definition MAX_TUNNELS :: nat where "MAX_TUNNELS = 512"
definition MAX_TUNNELS_PER_IP :: nat where "MAX_TUNNELS_PER_IP = 8"

definition may_admit :: "nat \<Rightarrow> nat \<Rightarrow> bool \<Rightarrow> bool" where
  "may_admit n same_ip is_refresh \<longleftrightarrow> is_refresh \<or> (n < MAX_TUNNELS \<and> same_ip < MAX_TUNNELS_PER_IP)"

definition table_new :: rdv_table where
  "table_new = \<lparr>tunnels = [], inner = []\<rparr>"

definition ip_tunnels :: "rdv_table \<Rightarrow> ipaddr \<Rightarrow> nat" where
  "ip_tunnels T ip = length (filter (\<lambda>(_, i). src_ip (tunnels T ! i) = ip) (inner T))"

definition register :: "rdv_table \<Rightarrow> nat \<Rightarrow> bool \<times> rdv_table" where
  "register T i =
     (let t = tunnels T ! i;
          is_refresh = hm_contains (inner T) (peer_pk t);
          same_ip = ip_tunnels T (src_ip t)
      in if \<not> may_admit (length (inner T)) same_ip is_refresh then (False, T)
         else (True, T\<lparr>inner := hm_insert (peer_pk t) i (inner T)\<rparr>))"

definition remove_if_current :: "rdv_table \<Rightarrow> nat \<Rightarrow> rdv_table" where
  "remove_if_current T i =
     (let pk = peer_pk (tunnels T ! i)
      in case hm_get (inner T) pk of
           Some cur \<Rightarrow> if cur \<noteq> i then T else T\<lparr>inner := hm_remove pk (inner T)\<rparr>
         | None \<Rightarrow> T\<lparr>inner := hm_remove pk (inner T)\<rparr>)"

definition table_get :: "rdv_table \<Rightarrow> bytes \<Rightarrow> nat option" where
  "table_get T pk = hm_get (inner T) pk"

text \<open>\<open>RendezvousTunnel::push\<close> on a tunnel: the new tunnel, or the error.\<close>

definition tunnel_push :: "tunnel \<Rightarrow> bytes \<Rightarrow> transport_error + tunnel" where
  "tunnel_push t pkt = link_write t pkt"

definition table_push :: "rdv_table \<Rightarrow> bytes \<Rightarrow> bytes \<Rightarrow> (transport_error + bool) \<times> rdv_table" where
  "table_push T pk pkt =
     (case table_get T pk of
        None \<Rightarrow> (Inr False, T)
      | Some i \<Rightarrow>
          (case tunnel_push (tunnels T ! i) pkt of
             Inl e \<Rightarrow> (Inl e, T)
           | Inr t \<Rightarrow> (Inr True, T\<lparr>tunnels := (tunnels T)[i := t]\<rparr>)))"

text \<open>
  \<open>serve_rendezvous_connection\<close> after its handshake, up to the wait for the end of the
  connection; whether the tunnel was taken. At the end of the connection it calls
  \<open>remove_if_current\<close>.
\<close>

definition serve_open :: "rdv_table \<Rightarrow> ipaddr \<Rightarrow> bytes \<Rightarrow> noise \<Rightarrow> bool \<times> rdv_table" where
  "serve_open T ip pk N =
     (let t = \<lparr>lk_noise = N, lk_sent = 0, lk_out = [], lk_up = True, peer_pk = pk, src_ip = ip\<rparr>
      in register (T\<lparr>tunnels := tunnels T @ [t]\<rparr>) (length (tunnels T)))"

text \<open>The loss of a link: what is pushed from then on fails.\<close>

definition lose_link :: "rdv_table \<Rightarrow> nat \<Rightarrow> rdv_table" where
  "lose_link T i = T\<lparr>tunnels := (tunnels T)[i := (tunnels T ! i)\<lparr>lk_up := False\<rparr>]\<rparr>"

section \<open>Reachable states\<close>

text \<open>
  \<open>rdv_reach T live latest\<close>: the table \<open>T\<close> is reachable with the connections \<open>live\<close> being
  served, and \<open>latest pk\<close> is the tunnel last admitted for \<open>pk\<close>. A connection ends once.
\<close>

inductive rdv_reach :: "rdv_table \<Rightarrow> nat set \<Rightarrow> (bytes \<Rightarrow> nat option) \<Rightarrow> bool" where
  start: "rdv_reach table_new {} (\<lambda>_. None)"
| admit: "rdv_reach T live latest \<Longrightarrow> serve_open T ip pk N = (True, T')
    \<Longrightarrow> rdv_reach T' (insert (length (tunnels T)) live) (latest(pk \<mapsto> length (tunnels T)))"
| refuse: "rdv_reach T live latest \<Longrightarrow> serve_open T ip pk N = (False, T') \<Longrightarrow> rdv_reach T' live latest"
| ended: "rdv_reach T live latest \<Longrightarrow> i \<in> live \<Longrightarrow> rdv_reach (remove_if_current T i) (live - {i}) latest"
| lost: "rdv_reach T live latest \<Longrightarrow> i \<in> live \<Longrightarrow> rdv_reach (lose_link T i) live latest"
| pushed: "rdv_reach T live latest \<Longrightarrow> table_push T pk pkt = (r, T') \<Longrightarrow> rdv_reach T' live latest"

definition owned :: "rdv_table \<Rightarrow> nat \<Rightarrow> bytes \<Rightarrow> bool" where
  "owned T i pk \<longleftrightarrow> i < length (tunnels T) \<and> peer_pk (tunnels T ! i) = pk"

definition rdv_inv :: "rdv_table \<Rightarrow> nat set \<Rightarrow> (bytes \<Rightarrow> nat option) \<Rightarrow> bool" where
  "rdv_inv T live latest \<longleftrightarrow> hm_wf (inner T) \<and> length (inner T) \<le> MAX_TUNNELS
     \<and> (\<forall>i \<in> live. i < length (tunnels T))
     \<and> (\<forall>pk i. latest pk = Some i \<longrightarrow> owned T i pk)
     \<and> (\<forall>pk. table_get T pk = (case latest pk of Some i \<Rightarrow> if i \<in> live then Some i else None | None \<Rightarrow> None))"

lemma rdv_inv_start: "rdv_inv table_new {} (\<lambda>_. None)"
  by (simp add: rdv_inv_def table_new_def table_get_def hm_simps)

lemma serve_open_cases:
  assumes "serve_open T ip pk N = (ok, T')"
  defines "t \<equiv> \<lparr>lk_noise = N, lk_sent = 0, lk_out = [], lk_up = True, peer_pk = pk, src_ip = ip\<rparr>"
  shows "tunnels T' = tunnels T @ [t]"
    and "inner T' = (if ok then hm_insert pk (length (tunnels T)) (inner T) else inner T)"
    and "ok \<Longrightarrow> hm_contains (inner T) pk \<or> length (inner T) < MAX_TUNNELS"
  using assms by (auto simp: serve_open_def register_def may_admit_def Let_def split: if_splits)

lemma owned_append: "owned T i pk \<Longrightarrow> tunnels T' = tunnels T @ ts \<Longrightarrow> owned T' i pk"
  by (simp add: owned_def nth_append)

lemma rdv_inv_admit:
  assumes "rdv_inv T live latest" and "serve_open T ip pk N = (True, T')"
  shows "rdv_inv T' (insert (length (tunnels T)) live) (latest(pk \<mapsto> length (tunnels T)))"
proof -
  note c = serve_open_cases [OF assms(2), simplified]
  have wf: "hm_wf (inner T)" and le: "length (inner T) \<le> MAX_TUNNELS" using assms(1) by (simp_all add: rdv_inv_def)
  have len: "length (inner T') \<le> MAX_TUNNELS"
    using c(3) le hm.len_insert_old [OF wf, of pk "length (tunnels T)"] hm.len_insert_new [OF wf, of pk "length (tunnels T)"]
    by (cases "hm_get (inner T) pk") (auto simp: c(2) hm_contains_def)
  have own: "latest q = Some i \<Longrightarrow> owned T' i q \<and> i < length (tunnels T)" for q i
    using assms(1) owned_append [OF _ c(1)] by (auto simp: rdv_inv_def owned_def)
  have "owned T' (length (tunnels T)) pk" by (simp add: owned_def c(1))
  then show ?thesis
    using assms(1) len own by (auto simp: rdv_inv_def table_get_def c(1,2) hm_simps less_Suc_eq split: option.splits)
qed

lemma rdv_inv_refuse:
  assumes "rdv_inv T live latest" and "serve_open T ip pk N = (False, T')"
  shows "rdv_inv T' live latest"
  using assms(1) owned_append serve_open_cases [OF assms(2)] by (fastforce simp: rdv_inv_def table_get_def)

lemma rdv_inv_ended:
  assumes "rdv_inv T live latest" and "i \<in> live"
  shows "rdv_inv (remove_if_current T i) (live - {i}) latest"
proof -
  let ?p = "peer_pk (tunnels T ! i)"
  have sole: "latest q = Some i \<Longrightarrow> q = ?p" for q using assms(1) by (auto simp: rdv_inv_def owned_def)
  have "table_get (remove_if_current T i) q = (if table_get T q = Some i then None else table_get T q)" for q
    using assms(1) sole [of q]
    by (cases "latest ?p"; cases "latest q") (auto simp: remove_if_current_def table_get_def rdv_inv_def Let_def hm_simps split: if_splits)
  moreover have "hm_wf (inner (remove_if_current T i))" "length (inner (remove_if_current T i)) \<le> MAX_TUNNELS"
    "tunnels (remove_if_current T i) = tunnels T"
    using assms(1) hm.len_remove_le [of "inner T" ?p]
    by (auto simp: remove_if_current_def rdv_inv_def Let_def hm_simps split: option.splits)
  ultimately show ?thesis using assms(1) by (auto simp: rdv_inv_def owned_def split: option.splits if_splits)
qed

lemma rdv_inv_tunnels:
  assumes "rdv_inv T live latest" and "inner T' = inner T" and "length (tunnels T') = length (tunnels T)"
    and "\<And>j. j < length (tunnels T) \<Longrightarrow> peer_pk (tunnels T' ! j) = peer_pk (tunnels T ! j)"
  shows "rdv_inv T' live latest"
  using assms by (auto simp: rdv_inv_def table_get_def owned_def)

lemma peer_update: "j < length ts \<Longrightarrow> peer_pk t = peer_pk (ts ! i) \<Longrightarrow> peer_pk (ts[i := t] ! j) = peer_pk (ts ! j)"
  by (cases "i = j") auto

lemma table_push_store:
  assumes "table_push T pk pkt = (r, T')"
  shows "inner T' = inner T" and "length (tunnels T') = length (tunnels T)"
    and "j < length (tunnels T) \<Longrightarrow> peer_pk (tunnels T' ! j) = peer_pk (tunnels T ! j)"
  using assms by (auto simp: table_push_def tunnel_push_def link_write_def peer_update split: option.splits sum.splits if_splits)

lemma rdv_reach_inv: "rdv_reach T live latest \<Longrightarrow> rdv_inv T live latest"
proof (induction rule: rdv_reach.induct)
  case (lost T live latest i)
  then show ?case by (elim rdv_inv_tunnels) (auto simp: lose_link_def peer_update)
next
  case (pushed T live latest pk pkt r T')
  then show ?case by (elim rdv_inv_tunnels) (auto simp: table_push_store [OF pushed.hyps(2)])
qed (blast intro: rdv_inv_start rdv_inv_admit rdv_inv_refuse rdv_inv_ended)+

text \<open>
  C24: whatever the order in which tunnels are opened, refused, lost and closed, the table holds
  for a relay exactly the tunnel last admitted for it as long as that tunnel's connection is
  served: closing an old connection never removes its successor, and no closed tunnel stays. The
  table never holds more than \<open>MAX_TUNNELS\<close>, and each entry is a tunnel with that peer.
\<close>

theorem rendezvous_table_exact:
  assumes "rdv_reach T live latest"
  shows "(table_get T pk = Some i \<longleftrightarrow> latest pk = Some i \<and> i \<in> live)
    \<and> (table_get T pk = Some i \<longrightarrow> i < length (tunnels T) \<and> peer_pk (tunnels T ! i) = pk)
    \<and> length (inner T) \<le> MAX_TUNNELS"
  using rdv_reach_inv [OF assms] by (auto simp: rdv_inv_def owned_def split: option.splits if_splits)

text \<open>A relay reconnects before its old connection ends: the end of the old one changes nothing.\<close>

theorem rendezvous_table_exact_witness:
  "\<exists>T. table_get (remove_if_current T 0) [7] = Some 1 \<and> length (inner T) \<le> MAX_TUNNELS"
proof -
  let ?T1 = "snd (serve_open table_new (V4 [1, 1, 1, 1]) [7] demo_noise)"
  let ?T2 = "snd (serve_open ?T1 (V4 [2, 2, 2, 2]) [7] demo_noise)"
  have o1: "serve_open table_new (V4 [1, 1, 1, 1]) [7] demo_noise = (True, ?T1)" and l1: "length (tunnels ?T1) = 1"
    and o2: "serve_open ?T1 (V4 [2, 2, 2, 2]) [7] demo_noise = (True, ?T2)"
    by (simp_all add: serve_open_def register_def table_new_def may_admit_def MAX_TUNNELS_def MAX_TUNNELS_PER_IP_def
        ip_tunnels_def hm_contains_def hm_simps)
  have r: "rdv_reach ?T2 {0, 1} [[7] \<mapsto> 1]"
    using rdv_reach.admit [OF rdv_reach.admit [OF rdv_reach.start o1] o2] l1 by (simp add: table_new_def insert_commute)
  from rdv_reach.ended [OF r, of 0] have "rdv_reach (remove_if_current ?T2 0) {1} [[7] \<mapsto> 1]" by simp
  from rendezvous_table_exact [OF this, of "[7]" 1] rendezvous_table_exact [OF r] show ?thesis by auto
qed

section \<open>The cap per address\<close>

text \<open>A relay the table does not hold yet is only admitted below the cap of its address.\<close>

lemma admit_new_capped:
  assumes "rdv_inv T live latest" and "serve_open T ip pk N = (True, T')" and "table_get T pk = None"
  shows "ip_tunnels T' ip \<le> MAX_TUNNELS_PER_IP"
proof -
  let ?t = "\<lparr>lk_noise = N, lk_sent = 0, lk_out = [], lk_up = True, peer_pk = pk, src_ip = ip\<rparr>"
  let ?T = "T\<lparr>tunnels := tunnels T @ [?t]\<rparr>"
  have T': "T' = ?T\<lparr>inner := hm_insert pk (length (tunnels T)) (inner T)\<rparr>" and cap: "ip_tunnels ?T ip < MAX_TUNNELS_PER_IP"
    using assms(2,3) by (auto simp: serve_open_def register_def may_admit_def Let_def hm_contains_def table_get_def split: if_splits)
  have "hm_insert pk j m = m @ [(pk, j)]" if "hm_get m pk = None" for j and m :: "(bytes, nat) hashmap"
    using that unfolding hm_insert_def hm_get_def by (induction m) (auto split: if_splits)
  with assms(3) have "ip_tunnels T' ip = Suc (ip_tunnels ?T ip)"
    by (simp add: ip_tunnels_def T' table_get_def)
  with cap show ?thesis by simp
qed

fun open_all :: "(ipaddr \<times> bytes) list \<Rightarrow> noise \<Rightarrow> rdv_table \<Rightarrow> rdv_table" where
  "open_all [] N T = T"
| "open_all ((ip, pk) # rs) N T = open_all rs N (snd (serve_open T ip pk N))"

lemma open_all_reach: "rdv_reach T live latest \<Longrightarrow> \<exists>live' latest'. rdv_reach (open_all rs N T) live' latest'"
proof (induction rs N T arbitrary: live latest rule: open_all.induct)
  case (2 ip pk rs N T)
  obtain ok T' where o: "serve_open T ip pk N = (ok, T')" by force
  then have "\<exists>live latest. rdv_reach T' live latest"
    using rdv_reach.admit [OF 2(2), of ip pk N T'] rdv_reach.refuse [OF 2(2), of ip pk N T'] by (cases ok) auto
  with 2(1) o show ?case by auto
qed auto

text \<open>
  The cap per address is not an invariant: a relay that reconnects is admitted whatever its
  address, so nine relays first seen at nine addresses can all be tunnelled from one address.
\<close>

theorem refresh_exceeds_ip_cap:
  "\<exists>T live latest ip. rdv_reach T live latest \<and> MAX_TUNNELS_PER_IP < ip_tunnels T ip"
proof -
  let ?rs = "map (\<lambda>k. (V4 [k, 0, 0, 1], [k])) [1, 2, 3, 4, 5, 6, 7, 8, 9] @ map (\<lambda>k. (V4 [9, 9, 9, 9], [k])) [1, 2, 3, 4, 5, 6, 7, 8, 9]"
  let ?T = "open_all ?rs demo_noise table_new"
  obtain live latest where r: "rdv_reach ?T live latest" using open_all_reach [OF rdv_reach.start] by blast
  have "ip_tunnels ?T (V4 [9, 9, 9, 9]) = 9"
    by (simp add: serve_open_def register_def table_new_def may_admit_def MAX_TUNNELS_def MAX_TUNNELS_PER_IP_def
        ip_tunnels_def hm_contains_def hm_get_def hm_insert_def Let_def)
  then have "MAX_TUNNELS_PER_IP < ip_tunnels ?T (V4 [9, 9, 9, 9])" by (simp only: MAX_TUNNELS_PER_IP_def)
  with r show ?thesis by blast
qed

section \<open>The relay behind the tunnel\<close>

text \<open>
  The loop of \<open>rendezvous_session\<close> on the bytes that arrive: the packets handed to the channel,
  and how the session ends. \<open>taken n\<close> says whether the receiver of the channel is still there for
  the \<open>n\<close>-th packet.
\<close>

function rendezvous_session :: "noise \<Rightarrow> (nat \<Rightarrow> bool) \<Rightarrow> nat \<Rightarrow> bytes \<Rightarrow> bytes list \<times> (transport_error + unit)" where
  "rendezvous_session N taken n stream =
     (case read_noise_frame N n stream of
        Inl e \<Rightarrow> ([], Inl e)
      | Inr (pkt, rest, n') \<Rightarrow>
          if taken n then (case rendezvous_session N taken n' rest of (pkts, r) \<Rightarrow> (pkt # pkts, r))
          else ([], Inr ()))"
  by pat_completeness auto
termination
  by (relation "measure (\<lambda>(N, taken, n, stream). length stream)") (auto dest: read_frame_shorter)

declare rendezvous_session.simps [simp del]

lemma session_reads:
  assumes "noise_ok N" and "\<forall>p \<in> set ps. length p = PACKET_SIZE"
    and "send_all (write_noise_frame N) (\<lambda>n _. Suc n) n ps = Inr s"
  shows "rendezvous_session N (\<lambda>_. True) n s = (ps, Inl ReadError)"
  using assms(2,3)
proof (induction ps arbitrary: n s)
  case Nil
  then show ?case by (subst rendezvous_session.simps) (simp add: read_noise_frame_def FRAME_LEN_def NOISE_TAG_LEN_def)
next
  case (Cons p ps)
  obtain a r where a: "write_noise_frame N n p = Inr a" and r: "send_all (write_noise_frame N) (\<lambda>n _. Suc n) (Suc n) ps = Inr r"
    and s: "s = a @ r" using Cons.prems(2) by (auto split: sum.splits)
  have "read_noise_frame N n (a @ r) = Inr (p, r, Suc n)" using frame_roundtrip [OF assms(1), of p n r] Cons.prems(1) a by auto
  with Cons.IH [OF _ r] Cons.prems(1) s show ?case by (subst rendezvous_session.simps) simp
qed

fun push_all :: "(bytes \<times> bytes) list \<Rightarrow> rdv_table \<Rightarrow> rdv_table" where
  "push_all [] T = T"
| "push_all ((pk, pkt) # ps) T = push_all ps (snd (table_push T pk pkt))"

text \<open>\<open>addressed pk ps\<close>: the packets of a sequence of pushes that are for \<open>pk\<close>.\<close>

definition addressed :: "bytes \<Rightarrow> (bytes \<times> bytes) list \<Rightarrow> bytes list" where
  "addressed pk ps = map snd (filter (\<lambda>(q, _). q = pk) ps)"

lemma push_all_carries:
  assumes "\<forall>(q, p) \<in> set ps. length p = PACKET_SIZE"
    and "i < length (tunnels T)" and "\<And>q. table_get T q = Some i \<longleftrightarrow> q = pk"
    and "noise_ok (lk_noise (tunnels T ! i))" and "lk_up (tunnels T ! i)" and "carries (tunnels T ! i) qs"
  shows "carries (tunnels (push_all ps T) ! i) (qs @ addressed pk ps) \<and> lk_noise (tunnels (push_all ps T) ! i) = lk_noise (tunnels T ! i)"
  using assms
proof (induction ps T arbitrary: qs rule: push_all.induct)
  case (1 T)
  then show ?case by (simp add: addressed_def)
next
  case (2 q p ps T)
  let ?t = "tunnels T ! i"
  obtain r T1 where T1: "table_push T q p = (r, T1)" by force
  have st: "inner T1 = inner T" "length (tunnels T1) = length (tunnels T)" using table_push_store [OF T1] by auto
  have get: "table_get T1 q' = Some i \<longleftrightarrow> q' = pk" for q' using 2(4) [of q'] st(1) by (simp add: table_get_def)
  have step: "carries (tunnels T1 ! i) (qs @ addressed pk [(q, p)]) \<and> lk_noise (tunnels T1 ! i) = lk_noise ?t \<and> lk_up (tunnels T1 ! i)"
  proof (cases "q = pk")
    case True
    obtain s where "write_noise_frame (lk_noise ?t) (lk_sent ?t) p = Inr s"
      using frame_roundtrip [OF 2(5), of p "lk_sent ?t" "[]"] 2(2) by auto
    with 2(6) obtain t' where t': "tunnel_push ?t p = Inr t'" "lk_noise t' = lk_noise ?t" "lk_up t'"
      by (simp add: tunnel_push_def link_write_def)
    with T1 True 2(4) [of pk] 2(3) have "tunnels T1 ! i = t'" by (auto simp: table_push_def)
    with t' carries_write [OF 2(7) t'(1) [unfolded tunnel_push_def]] True show ?thesis by (simp add: addressed_def)
  next
    case False
    have "tunnels T1 ! i = ?t"
      using T1 2(4) [of q] False by (auto simp: table_push_def split: option.splits sum.splits)
    with 2(6,7) False show ?thesis by (simp add: addressed_def)
  qed
  have "carries (tunnels (push_all ps T1) ! i) ((qs @ addressed pk [(q, p)]) @ addressed pk ps)
    \<and> lk_noise (tunnels (push_all ps T1) ! i) = lk_noise (tunnels T1 ! i)"
    using 2(1) [of "qs @ addressed pk [(q, p)]"] 2(2,3,5) T1 st get step by auto
  with T1 step show ?case by (simp add: addressed_def split: if_splits)
qed

lemma tunnel_sequence:
  assumes "rdv_reach T live latest" and "serve_open T ip pk N = (True, T1)" and "noise_ok N"
    and "\<forall>(q, p) \<in> set ps. length p = PACKET_SIZE"
  shows "rendezvous_session N (\<lambda>_. True) 0 (lk_out (tunnels (push_all ps T1) ! length (tunnels T)))
    = (addressed pk ps, Inl ReadError)"
proof -
  let ?i = "length (tunnels T)"
  note c = serve_open_cases [OF assms(2), simplified]
  have t: "tunnels T1 ! ?i = \<lparr>lk_noise = N, lk_sent = 0, lk_out = [], lk_up = True, peer_pk = pk, src_ip = ip\<rparr>"
    by (simp add: c(1))
  have "table_get T q = Some j \<Longrightarrow> j < ?i" for q j using rdv_reach_inv [OF assms(1)]
    by (auto simp: rdv_inv_def split: option.splits if_splits)
  then have get: "table_get T1 q = Some ?i \<longleftrightarrow> q = pk" for q
    using c(2) by (cases "q = pk") (force simp: table_get_def hm_simps)+
  have "carries (tunnels (push_all ps T1) ! ?i) ([] @ addressed pk ps)
    \<and> lk_noise (tunnels (push_all ps T1) ! ?i) = lk_noise (tunnels T1 ! ?i)"
    by (rule push_all_carries [OF assms(4) _ get]) (use t assms(3) in \<open>simp_all add: c(1) carries_def\<close>)
  then have "send_all (write_noise_frame N) (\<lambda>n _. Suc n) 0 (addressed pk ps) = Inr (lk_out (tunnels (push_all ps T1) ! ?i))"
    by (auto simp: carries_def t)
  moreover have "\<forall>p \<in> set (addressed pk ps). length p = PACKET_SIZE" using assms(4) by (auto simp: addressed_def)
  ultimately show ?thesis using session_reads [OF assms(3)] by blast
qed

text \<open>
  A tunnel delivers in order and without loss or mixture: when a relay's tunnel has been
  admitted and the rendezvous relay then pushes packets to it and to others in any order, the
  relay behind the tunnel receives exactly the packets addressed to it, in the order they were
  pushed, and then waits for more.
\<close>

theorem tunnel_fifo:
  assumes "rdv_reach T live latest" and "serve_open T ip pk N = (True, T1)" and "noise_ok N"
    and "\<forall>(q, p) \<in> set ps. length p = PACKET_SIZE"
  shows "rendezvous_session N (\<lambda>_. True) 0 (lk_out (tunnels (push_all ps T1) ! length (tunnels T)))
    = (addressed pk ps, Inl ReadError)"
  by (rule tunnel_sequence [OF assms])

theorem tunnel_fifo_witness:
  "\<exists>T1. rendezvous_session demo_noise (\<lambda>_. True) 0
      (lk_out (tunnels (push_all [([7], replicate PACKET_SIZE 1), ([8], replicate PACKET_SIZE 2), ([7], replicate PACKET_SIZE 3)] T1) ! 0))
    = ([replicate PACKET_SIZE 1, replicate PACKET_SIZE 3], Inl ReadError)"
proof -
  have "\<exists>T1. serve_open table_new (V4 [1, 1, 1, 1]) [7] demo_noise = (True, T1)"
    by (simp add: serve_open_def register_def table_new_def may_admit_def MAX_TUNNELS_def MAX_TUNNELS_PER_IP_def ip_tunnels_def)
  then obtain T1 where o: "serve_open table_new (V4 [1, 1, 1, 1]) [7] demo_noise = (True, T1)" ..
  from tunnel_fifo [OF rdv_reach.start o demo_noise_ok,
      of "[([7], replicate PACKET_SIZE 1), ([8], replicate PACKET_SIZE 2), ([7], replicate PACKET_SIZE 3)]"]
  show ?thesis by (auto simp: addressed_def table_new_def)
qed

section \<open>Asking whether a relay is hosted\<close>

definition MAX_QUERIER_KEYS :: nat where "MAX_QUERIER_KEYS = 16"

definition querier_keys :: "bytes option \<Rightarrow> bytes list" where
  "querier_keys pinned = (case pinned of None \<Rightarrow> [] | Some pk \<Rightarrow> [pk])"

definition add_querier_key :: "bytes list \<Rightarrow> bytes \<Rightarrow> bytes list" where
  "add_querier_key held pk =
     (if pk \<in> set held then held
      else (if MAX_QUERIER_KEYS \<le> length held then drop 1 held else held) @ [pk])"

definition querier_known :: "bytes list \<Rightarrow> bytes \<Rightarrow> bool" where
  "querier_known held pk \<longleftrightarrow> pk \<in> set held"

text \<open>
  The rendezvous relay's side of a query, on the bytes it receives: the bytes it sends and how it
  ends. It reads in the direction from the initiator and writes in the other.
\<close>

definition serve_rendezvous_query :: "'h snow \<Rightarrow> bool \<Rightarrow> bytes \<Rightarrow> bytes list option \<Rightarrow> rdv_table \<Rightarrow> bytes
    \<Rightarrow> bytes \<times> (transport_error + unit)" where
  "serve_rendezvous_query H ended static_sk queriers T inb =
     (case queriers of
        None \<Rightarrow> ([], Inl BadHandshake)
      | Some ks \<Rightarrow>
          (case noise_ik_responder_handshake H ended static_sk inb of
             (outb, Inl e) \<Rightarrow> (outb, Inl e)
           | (outb, Inr (ch, querier_pk, inb1)) \<Rightarrow>
               if \<not> querier_known ks querier_pk then (outb, Inl BadHandshake)
               else (case read_one_noise_msg (fst ch) 0 inb1 of
                       Inl e \<Rightarrow> (outb, Inl e)
                     | Inr (buf, _) \<Rightarrow>
                         if length buf \<noteq> 32 then (outb, Inl BadHandshake)
                         else let hosted = (table_get T (take 32 buf) \<noteq> None)
                              in case write_one_noise_msg (snd ch) 0 [if hosted then 1 else 0] of
                                   Inl e \<Rightarrow> (outb, Inl e)
                                 | Inr s \<Rightarrow> (outb @ s, Inr ()))))"

text \<open>
  The authority's side. \<open>dial\<close> is the error of building the endpoint or connecting, if there is
  one, and \<open>in_time\<close> whether the exchange ends before the timeout.
\<close>

definition probe_rendezvous_hosting :: "'h snow \<Rightarrow> bool \<Rightarrow> transport_error option \<Rightarrow> bool \<Rightarrow> nat \<Rightarrow> bytes \<Rightarrow> bytes \<Rightarrow> bytes
    \<Rightarrow> bytes \<Rightarrow> bytes \<times> (transport_error + bool)" where
  "probe_rendezvous_hosting H ended dial in_time timeout r_pk authority_pop_sk n_pk inb =
     (let (outb, res) =
        (case dial of
           Some e \<Rightarrow> ([], Inl e)
         | None \<Rightarrow>
             (case noise_ik_initiator_handshake H ended authority_pop_sk r_pk inb of
                (outb, Inl e) \<Rightarrow> (outb, Inl e)
              | (outb, Inr (ch, inb1)) \<Rightarrow>
                  (case write_one_noise_msg (fst ch) 0 n_pk of
                     Inl e \<Rightarrow> (outb, Inl e)
                   | Inr s \<Rightarrow>
                       (case read_one_noise_msg (snd ch) 0 inb1 of
                          Inl e \<Rightarrow> (outb @ s, Inl e)
                        | Inr (buf, _) \<Rightarrow> (outb @ s, Inr (1 \<le> length buf \<and> buf ! 0 = 1))))))
      in (outb, if in_time then res else Inl (Unreachable timeout)))"

lemma add_querier_key_bounded: "length held \<le> MAX_QUERIER_KEYS \<Longrightarrow> length (add_querier_key held pk) \<le> MAX_QUERIER_KEYS"
  by (auto simp: add_querier_key_def MAX_QUERIER_KEYS_def)

lemma add_querier_key_known: "querier_known (add_querier_key held pk) pk"
  by (simp add: add_querier_key_def querier_known_def)

text \<open>
  C35: the authority's question is answered truthfully: with the rendezvous relay's public key and
  a key of its own that the relay knows, the two sides exchange byte streams on which the relay
  finishes without an error, and the authority learns whether the tunnel last admitted for the
  relay it asks about is still served. With a key the relay does not know, it learns nothing: the
  relay ends the exchange and the probe fails.
\<close>

theorem hosting_query_exact:
  fixes r_sk a_sk :: bytes
  assumes "ik_ok P H" and "rdv_reach T live latest" and "length n_pk = 32"
  defines "r_pk \<equiv> x25519 P r_sk x25519_base" and "a_pk \<equiv> x25519 P a_sk x25519_base"
  shows "\<exists>a b. (querier_known ks a_pk \<longrightarrow>
        probe_rendezvous_hosting H ended None True t r_pk a_sk n_pk b
          = (a, Inr (\<exists>i. latest n_pk = Some i \<and> i \<in> live))
        \<and> serve_rendezvous_query H ended r_sk (Some ks) T a = (b, Inr ()))
    \<and> (\<not> querier_known ks a_pk \<longrightarrow>
        probe_rendezvous_hosting H ended None True t r_pk a_sk n_pk b = (a, Inl ReadError)
        \<and> serve_rendezvous_query H ended r_sk (Some ks) T a = (b, Inl BadHandshake))"
proof -
  obtain a b ch where ch: "sessions_ok ch"
    and i: "\<And>rest. noise_ik_initiator_handshake H ended a_sk r_pk (b @ rest) = (a, Inr (ch, rest))"
    and r: "\<And>rest. noise_ik_responder_handshake H ended r_sk (a @ rest) = (b, Inr (ch, a_pk, rest))"
    unfolding r_pk_def a_pk_def using ik_session [OF assms(1), of ended a_sk r_sk] by blast
  let ?hosted = "table_get T n_pk \<noteq> None"
  let ?answer = "[if ?hosted then 1 else 0] :: bytes"
  have q: "n_pk \<noteq> []" "length n_pk \<le> NOISE_CHUNK" using assms(3) by (auto simp: NOISE_CHUNK_def)
  have w: "?answer \<noteq> []" "length ?answer \<le> NOISE_CHUNK" by (simp_all add: NOISE_CHUNK_def)
  obtain s where s: "write_one_noise_msg (fst ch) 0 n_pk = Inr s" "read_one_noise_msg (fst ch) 0 (s @ []) = Inr (n_pk, [])"
    using read_written [OF _ q, of "fst ch" 0 "[]"] ch by (auto simp: sessions_ok_def)
  obtain u where u: "write_one_noise_msg (snd ch) 0 ?answer = Inr u" "read_one_noise_msg (snd ch) 0 (u @ []) = Inr (?answer, [])"
    using read_written [OF _ w, of "snd ch" 0 "[]"] ch by (auto simp: sessions_ok_def)
  have hosted: "?hosted \<longleftrightarrow> (\<exists>i. latest n_pk = Some i \<and> i \<in> live)"
    using rdv_reach_inv [OF assms(2)] by (auto simp: rdv_inv_def split: option.splits if_splits)
  show ?thesis
  proof (cases "querier_known ks a_pk")
    case True
    have "serve_rendezvous_query H ended r_sk (Some ks) T (a @ s) = (b @ u, Inr ())"
      using r [of s] s u True assms(3) by (simp add: serve_rendezvous_query_def)
    moreover have "probe_rendezvous_hosting H ended None True t r_pk a_sk n_pk (b @ u) = (a @ s, Inr ?hosted)"
      using i [of u] s u by (simp add: probe_rendezvous_hosting_def)
    ultimately show ?thesis using True unfolding hosted by blast
  next
    case False
    have "serve_rendezvous_query H ended r_sk (Some ks) T (a @ s) = (b, Inl BadHandshake)"
      using r [of s] False by (simp add: serve_rendezvous_query_def)
    moreover have "probe_rendezvous_hosting H ended None True t r_pk a_sk n_pk b = (a @ s, Inl ReadError)"
      using i [of "[]"] s by (simp add: probe_rendezvous_hosting_def read_one_noise_msg_def)
    ultimately show ?thesis using False by blast
  qed
qed

text \<open>A handshake that sends the initiator's public key, for the witness.\<close>

definition demo_snow :: "(bytes \<times> bytes) snow" where
  "demo_snow = \<lparr>build_initiator = (\<lambda>_ sk _. Some (x25519 demo_prims sk x25519_base, [])),
     build_responder = (\<lambda>_ _. Some ([], [])),
     hs_write = (\<lambda>(pk, remote). Some (pk, (pk, remote))), hs_read = (\<lambda>(pk, _) m. Some (pk, m)),
     hs_hash = (\<lambda>_. []), hs_remote = (\<lambda>(_, remote). Some remote),
     hs_split = (\<lambda>_. Some (demo_noise, demo_noise))\<rparr>"

lemma demo_snow_ok: "ik_ok demo_prims demo_snow"
  unfolding ik_ok_def by (simp add: demo_snow_def sessions_ok_def demo_noise_ok MAX_HANDSHAKE_MSG_def)

theorem hosting_query_exact_witness:
  "\<exists>a b. probe_rendezvous_hosting demo_snow True None True 10 (x25519 demo_prims [8] x25519_base) [16] (replicate 32 5) b = (a, Inr False)
     \<and> serve_rendezvous_query demo_snow True [8] (Some (add_querier_key [] (x25519 demo_prims [16] x25519_base))) table_new a = (b, Inr ())"
  using hosting_query_exact [OF demo_snow_ok rdv_reach.start, of "replicate 32 5"
      "add_querier_key [] (x25519 demo_prims [16] x25519_base)" "[16]" True 10 "[8]"]
  by (simp add: add_querier_key_known)

end
