(* ===== verification/Enroll_Loop.thy ===== *)
theory Enroll_Loop
  imports Authority Rendezvous Key_Files
begin

text \<open>
  The loop by which a relay announces itself to its authorities, \<open>run_enrollment_loop\<close> of
  crypto-gotham-relay/src/enroll_client.rs. The HTTP client is a parameter, with a state of its
  own for what the requests change at the other end; the sleeps are results.
\<close>

section \<open>Targets\<close>

record authority_target =
  base_url :: string
  pop_pk :: "bytes option"
  pinned :: bool

text \<open>The fields of \<open>EnrollConfig\<close> that only the loop reads; \<open>lc_sink\<close> says whether keys are collected.\<close>

record loop_config =
  lc_enroll :: enroll_config
  lc_authority_url :: string
  lc_extra_urls :: "string list"
  lc_token :: "string option"
  lc_heartbeat :: nat
  lc_authority_pop_pk :: "bytes option"
  lc_sink :: bool

definition trim_end_slashes :: "string \<Rightarrow> string" where
  "trim_end_slashes s = rev (dropWhile (\<lambda>c. c = CHR ''/'') (rev s))"

definition make_targets :: "loop_config \<Rightarrow> authority_target list" where
  "make_targets cfg =
     \<lparr>base_url = trim_end_slashes (lc_authority_url cfg), pop_pk = lc_authority_pop_pk cfg, pinned = (lc_authority_pop_pk cfg \<noteq> None)\<rparr>
     # map (\<lambda>u. \<lparr>base_url = trim_end_slashes u, pop_pk = None, pinned = False\<rparr>) (lc_extra_urls cfg)"

text \<open>What a POST comes back with: a success status, another status with its body, or no response.\<close>

datatype post_result = Enrolled | Rejected string | NoResponse

record 'w http =
  get_pop :: "'w \<Rightarrow> string \<Rightarrow> string option"
  post_enroll :: "'w \<Rightarrow> string \<Rightarrow> string option \<Rightarrow> enrollment \<Rightarrow> post_result \<times> 'w"

definition fetch_authority_pop_pk :: "prims \<Rightarrow> 'w http \<Rightarrow> 'w \<Rightarrow> string \<Rightarrow> bytes option" where
  "fetch_authority_pop_pk P H w url =
     (case get_pop H w (trim_end_slashes url) of None \<Rightarrow> None | Some body \<Rightarrow> hex32 P (trim body))"

section \<open>A turn of the loop\<close>

definition bearer :: "string option \<Rightarrow> string option" where
  "bearer tok = map_option (\<lambda>t. ''Bearer '' @ t) tok"

text \<open>The body of the inner loop, for one authority: whether it enrolled the relay, the target, the keys and the other end.\<close>

definition enroll_target :: "prims \<Rightarrow> 'w http \<Rightarrow> loop_config \<Rightarrow> enrollment \<Rightarrow> authority_target \<Rightarrow> bytes list \<Rightarrow> 'w
    \<Rightarrow> bool \<times> authority_target \<times> bytes list \<times> 'w" where
  "enroll_target P H cfg base t sink w =
     (let pk = (case pop_pk t of None \<Rightarrow> fetch_authority_pop_pk P H w (base_url t) | Some pk \<Rightarrow> Some pk);
          t = t\<lparr>pop_pk := pk\<rparr>;
          sink = (case pk of Some k \<Rightarrow> if lc_sink cfg then add_querier_key sink k else sink | None \<Rightarrow> sink);
          e = (case pk of Some k \<Rightarrow> attach_pop_proof P base (lc_enroll cfg) k | None \<Rightarrow> base);
          (res, w) = post_enroll H w (base_url t) (bearer (lc_token cfg)) e
      in case res of
           Enrolled \<Rightarrow> (True, t, sink, w)
         | Rejected body \<Rightarrow>
             (False, if \<not> pinned t \<and> str_contains body ''possession proof'' then t\<lparr>pop_pk := None\<rparr> else t, sink, w)
         | NoResponse \<Rightarrow> (False, t, sink, w))"

fun enroll_round :: "prims \<Rightarrow> 'w http \<Rightarrow> loop_config \<Rightarrow> enrollment \<Rightarrow> authority_target list \<Rightarrow> bytes list \<Rightarrow> 'w
    \<Rightarrow> bool \<times> authority_target list \<times> bytes list \<times> 'w" where
  "enroll_round P H cfg base [] sink w = (False, [], sink, w)"
| "enroll_round P H cfg base (t # ts) sink w =
     (let (ok, t', sink1, w1) = enroll_target P H cfg base t sink w;
          (any_ok, ts', sink2, w2) = enroll_round P H cfg base ts sink1 w1
      in (ok \<or> any_ok, t' # ts', sink2, w2))"

definition FIRST_ENROLL_RETRY :: nat where "FIRST_ENROLL_RETRY = 5"
definition FIRST_ENROLL_RETRY_MAX :: nat where "FIRST_ENROLL_RETRY_MAX = 60"

record loop_state =
  ls_targets :: "authority_target list"
  ls_seq :: nat
  ls_settled :: bool
  ls_retry :: nat
  ls_sink :: "bytes list"

definition loop_start :: "loop_config \<Rightarrow> nat \<Rightarrow> bytes list \<Rightarrow> loop_state" where
  "loop_start cfg now_unix sink =
     \<lparr>ls_targets = make_targets cfg, ls_seq = now_unix, ls_settled = False, ls_retry = FIRST_ENROLL_RETRY, ls_sink = sink\<rparr>"

text \<open>One turn, with the seconds it sleeps at its end.\<close>

definition enroll_turn :: "prims \<Rightarrow> 'w http \<Rightarrow> loop_config \<Rightarrow> nat \<Rightarrow> loop_state \<Rightarrow> 'w \<Rightarrow> nat \<times> loop_state \<times> 'w" where
  "enroll_turn P H cfg now_unix s w =
     (let base = base_enrollment (lc_enroll cfg) (ls_seq s) (current_attest_epoch now_unix);
          (any_ok, targets, sink, w) = enroll_round P H cfg base (ls_targets s) (ls_sink s) w;
          settled = (ls_settled s \<or> any_ok);
          s = s\<lparr>ls_targets := targets, ls_seq := sat_add (ls_seq s) 1, ls_settled := settled, ls_sink := sink\<rparr>
      in if settled then (lc_heartbeat cfg, s, w)
         else (ls_retry s, s\<lparr>ls_retry := min (ls_retry s * 2) FIRST_ENROLL_RETRY_MAX\<rparr>, w))"

section \<open>The authorities at the other end\<close>

text \<open>
  The authorities by their URL. What a request needs beside the states are the probes each of them
  makes, the address it sees the relay at and its clock.
\<close>

type_synonym authorities = "(string, app_state) hashmap"

fun post_of_reply :: "enroll_reply \<Rightarrow> post_result" where
  "post_of_reply (EnrollOk _ _) = Enrolled"
| "post_of_reply (BadRequest b) = Rejected b"
| "post_of_reply Unauthorized = Rejected ''missing or invalid enroll token''"
| "post_of_reply TooManyRequests = Rejected ''enroll rate limit exceeded''"
| "post_of_reply ServiceUnavailable = Rejected ''probe capacity reached; retry shortly''"

definition authority_http :: "prims \<Rightarrow> (string \<Rightarrow> probes) \<Rightarrow> ipaddr \<Rightarrow> nat \<Rightarrow> authorities http" where
  "authority_http P Q ip now =
     \<lparr>get_pop = (\<lambda>w u. map_option (pop_handler P) (hm_get w u)),
      post_enroll = (\<lambda>w u ah e. case hm_get w u of
          None \<Rightarrow> (NoResponse, w)
        | Some st \<Rightarrow> (case enroll_handler P (Q u) st ip ah e now now now of (reply, st') \<Rightarrow> (post_of_reply reply, hm_insert u st' w)))\<rparr>"

text \<open>What an authority has to see to enrol a relay, apart from the proof of possession.\<close>

definition willing :: "prims \<Rightarrow> probes \<Rightarrow> ipaddr \<Rightarrow> loop_config \<Rightarrow> enrollment \<Rightarrow> nat \<Rightarrow> app_state \<Rightarrow> bool" where
  "willing P Q ip cfg e now st \<longleftrightarrow>
     token_ok st (bearer (lc_token cfg)) \<and> fst (rate_ok st ip now)
     \<and> (\<forall>x. hm_get (st_registry st) (en_kem_hex e) = Some x \<longrightarrow> en_seq (reg_enrollment x) < en_seq e)
     \<and> probe_permit Q
     \<and> (\<exists>pk. hex32 P (en_kem_hex e) = Some pk
          \<and> (case validate P e of
               Inl _ \<Rightarrow> False
             | Inr (Some sa) \<Rightarrow> probe_relay_liveness Q sa pk
             | Inr None \<Rightarrow> (\<exists>ra rp. rendezvous_point P (st_registry st) (case en_rendezvous e of Some r \<Rightarrow> r | None \<Rightarrow> []) = Some (ra, rp)
                  \<and> probes.probe_rendezvous_hosting Q ra rp pk = Some True)))"

lemma validate_pop_proof: "validate P (e\<lparr>en_pop_proof := p\<rparr>) = validate P e"
  by (simp add: validate_def cong: option.case_cong if_cong)

lemma attach_update: "\<exists>p. attach_pop_proof P e c k = e\<lparr>en_pop_proof := p\<rparr>"
  by (cases "hex32 P (cfg_kem_hex c) = None") (auto simp: attach_pop_proof_def Let_def intro: exI [of _ "en_pop_proof e"])

lemma attach_fields [simp]:
  "en_kem_hex (attach_pop_proof P e c k) = en_kem_hex e" "en_seq (attach_pop_proof P e c k) = en_seq e"
  "en_rendezvous (attach_pop_proof P e c k) = en_rendezvous e" "en_operator (attach_pop_proof P e c k) = en_operator e"
  "en_attest_epoch (attach_pop_proof P e c k) = en_attest_epoch e" "validate P (attach_pop_proof P e c k) = validate P e"
  using attach_update [of P e c k] by (auto simp: validate_pop_proof)

lemma willing_entitled:
  assumes "dh_ok P" and "hex_ok P" and "hex32 P (cfg_kem_hex (lc_enroll cfg)) = Some (x25519 P (cfg_relay_sk (lc_enroll cfg)) x25519_base)"
    and "en_kem_hex e = cfg_kem_hex (lc_enroll cfg)" and "willing P Q ip cfg e now st"
  shows "entitled P Q st ip (bearer (lc_token cfg))
     (attach_pop_proof P e (lc_enroll cfg) (x25519 P (st_pop_sk st) x25519_base)) now"
proof -
  let ?pk = "x25519 P (cfg_relay_sk (lc_enroll cfg)) x25519_base" and ?e = "attach_pop_proof P e (lc_enroll cfg) (x25519 P (st_pop_sk st) x25519_base)"
  have pk: "hex32 P (en_kem_hex e) = Some ?pk" using assms(3,4) by simp
  have pop: "verify_pop_v2 P ?e (x25519 P (st_pop_sk st) ?pk)" by (rule pop_proof_verifies [OF assms(1-3)])
  obtain a where a: "validate P e = Inr a" using assms(5) by (cases "validate P e") (auto simp: willing_def)
  have "liveness_check P Q st ?e a = None"
    using assms(5) pk pop a by (cases a) (auto simp: willing_def liveness_check_def split: option.splits)
  then show ?thesis using assms(5) a by (auto simp: willing_def entitled_def)
qed

text \<open>What an enrolment leaves at an authority.\<close>

definition enrolled :: "prims \<Rightarrow> enroll_config \<Rightarrow> enrollment \<Rightarrow> nat \<Rightarrow> app_state \<Rightarrow> app_state \<Rightarrow> bool" where
  "enrolled P cfg e now st st' \<longleftrightarrow>
     (\<exists>x. st_registry st' = hm_insert (en_kem_hex e) x (st_registry st) \<and> last_seen x = now
        \<and> reg_enrollment x = attach_pop_proof P e cfg (x25519 P (st_pop_sk st) x25519_base))
     \<and> same_config st st' \<and> st_admissions_cache st' = st_admissions_cache st"

lemma rate_ok_admissions [simp]: "st_admissions_cache (snd (rate_ok st ip now)) = st_admissions_cache st"
  by (subst rate_ok_state, simp)

lemma fetch_pop:
  assumes "hex_ok P" and "hex_text P" and "hm_get w u = Some st" and "trim_end_slashes u = u"
  shows "fetch_authority_pop_pk P (authority_http P Q ip now) w u = Some (x25519 P (st_pop_sk st) x25519_base)"
proof -
  have "trim (hex_encode P b) = hex_encode P b" for b
  proof -
    have ns: "\<forall>c \<in> set (hex_encode P b). \<not> is_space c" using assms(2) by (simp add: hex_text_def)
    have d: "dropWhile is_space s = s" if "\<forall>c \<in> set s. \<not> is_space c" for s using that by (cases s) auto
    show ?thesis using d [of "hex_encode P b"] d [of "rev (hex_encode P b)"] ns by (simp add: trim_def)
  qed
  then show ?thesis using assms
    by (simp add: fetch_authority_pop_pk_def authority_http_def pop_handler_def hex32_def hex_ok_def)
qed

lemma enroll_target_ok:
  assumes "dh_ok P" and "hex_ok P" and "hex_text P"
    and "hex32 P (cfg_kem_hex (lc_enroll cfg)) = Some (x25519 P (cfg_relay_sk (lc_enroll cfg)) x25519_base)"
    and "en_kem_hex e = cfg_kem_hex (lc_enroll cfg)" and "hm_get w (base_url t) = Some st" and "trim_end_slashes (base_url t) = base_url t"
    and "pop_pk t = None \<or> pop_pk t = Some (x25519 P (st_pop_sk st) x25519_base)" and "willing P (Q (base_url t)) ip cfg e now st"
  shows "\<exists>sink' st'. enroll_target P (authority_http P Q ip now) cfg e t sink w
      = (True, t\<lparr>pop_pk := Some (x25519 P (st_pop_sk st) x25519_base)\<rparr>, sink', hm_insert (base_url t) st' w)
    \<and> enrolled P (lc_enroll cfg) e now st st'"
proof -
  let ?k = "x25519 P (st_pop_sk st) x25519_base"
  let ?e = "attach_pop_proof P e (lc_enroll cfg) ?k" and ?ah = "bearer (lc_token cfg)"
  have pk: "(case pop_pk t of None \<Rightarrow> fetch_authority_pop_pk P (authority_http P Q ip now) w (base_url t) | Some pk \<Rightarrow> Some pk) = Some ?k"
    using assms(8) fetch_pop [OF assms(2,3,6,7)] by auto
  obtain reply st' where h: "enroll_handler P (Q (base_url t)) st ip ?ah ?e now now now = (reply, st')" by force
  have ent: "entitled P (Q (base_url t)) st ip ?ah ?e now" by (rule willing_entitled [OF assms(1,2,4,5,9)])
  note c = enroll_handler_cases [of P "Q (base_url t)" st ip ?ah ?e now now now, THEN conjunct1, rule_format, OF ent]
  have r: "post_of_reply reply = Enrolled" using c h by (simp add: Let_def)
  have st': "enrolled P (lc_enroll cfg) e now st st'" using c h by (auto simp: enrolled_def same_config_def)
  have "post_enroll (authority_http P Q ip now) w (base_url t) ?ah ?e = (Enrolled, hm_insert (base_url t) st' w)"
    using h r assms(6) by (simp add: authority_http_def)
  then have "\<exists>sink'. enroll_target P (authority_http P Q ip now) cfg e t sink w = (True, t\<lparr>pop_pk := Some ?k\<rparr>, sink', hm_insert (base_url t) st' w)"
    unfolding enroll_target_def Let_def pk by simp
  then show ?thesis using st' by blast
qed

lemma enroll_round_ok:
  assumes "dh_ok P" and "hex_ok P" and "hex_text P"
    and "hex32 P (cfg_kem_hex (lc_enroll cfg)) = Some (x25519 P (cfg_relay_sk (lc_enroll cfg)) x25519_base)"
    and "en_kem_hex e = cfg_kem_hex (lc_enroll cfg)"
    and "distinct (map base_url ts)"
    and "\<forall>t \<in> set ts. trim_end_slashes (base_url t) = base_url t \<and> (\<exists>st. hm_get w (base_url t) = Some st
       \<and> (pop_pk t = None \<or> pop_pk t = Some (x25519 P (st_pop_sk st) x25519_base)) \<and> willing P (Q (base_url t)) ip cfg e now st)"
  shows "\<exists>any_ok ts' sink' w'. enroll_round P (authority_http P Q ip now) cfg e ts sink w = (any_ok, ts', sink', w')
    \<and> (any_ok \<longleftrightarrow> ts \<noteq> []) \<and> map base_url ts' = map base_url ts
    \<and> (\<forall>u. u \<notin> base_url ` set ts \<longrightarrow> hm_get w' u = hm_get w u)
    \<and> (\<forall>t \<in> set ts. \<exists>st st'. hm_get w (base_url t) = Some st \<and> hm_get w' (base_url t) = Some st' \<and> enrolled P (lc_enroll cfg) e now st st')"
  using assms(6,7)
proof (induction ts arbitrary: sink w)
  case (Cons t ts)
  let ?H = "authority_http P Q ip now"
  from Cons.prems(2) obtain st where st: "hm_get w (base_url t) = Some st" "trim_end_slashes (base_url t) = base_url t"
    "pop_pk t = None \<or> pop_pk t = Some (x25519 P (st_pop_sk st) x25519_base)" "willing P (Q (base_url t)) ip cfg e now st" by auto
  obtain sink1 st1 where t: "enroll_target P ?H cfg e t sink w
      = (True, t\<lparr>pop_pk := Some (x25519 P (st_pop_sk st) x25519_base)\<rparr>, sink1, hm_insert (base_url t) st1 w)"
    and en: "enrolled P (lc_enroll cfg) e now st st1" using enroll_target_ok [OF assms(1-5) st(1-3), of Q ip now sink] st(4) by blast
  let ?w = "hm_insert (base_url t) st1 w"
  have other: "hm_get ?w u = hm_get w u" if "u \<noteq> base_url t" for u using that by (simp add: hm_simps)
  have ne: "base_url s \<noteq> base_url t" if "s \<in> set ts" for s using Cons.prems(1) that by (metis distinct.simps(2) image_eqI list.simps(9) set_map)
  have ih: "\<forall>s \<in> set ts. trim_end_slashes (base_url s) = base_url s \<and> (\<exists>st. hm_get ?w (base_url s) = Some st
       \<and> (pop_pk s = None \<or> pop_pk s = Some (x25519 P (st_pop_sk st) x25519_base)) \<and> willing P (Q (base_url s)) ip cfg e now st)"
    using Cons.prems(2) ne other by simp
  have d: "distinct (map base_url ts)" using Cons.prems(1) by simp
  from Cons.IH [OF d ih, of sink1] obtain any_ok ts' sink' w' where r: "enroll_round P ?H cfg e ts sink1 ?w = (any_ok, ts', sink', w')"
    "map base_url ts' = map base_url ts" "\<forall>u. u \<notin> base_url ` set ts \<longrightarrow> hm_get w' u = hm_get ?w u"
    "\<forall>s \<in> set ts. \<exists>st st'. hm_get ?w (base_url s) = Some st \<and> hm_get w' (base_url s) = Some st' \<and> enrolled P (lc_enroll cfg) e now st st'"
    by blast
  have self: "hm_get w' (base_url t) = Some st1" using r(3) Cons.prems(1) by (simp add: hm_simps)
  have rest: "\<forall>s \<in> set ts. \<exists>st st'. hm_get w (base_url s) = Some st \<and> hm_get w' (base_url s) = Some st' \<and> enrolled P (lc_enroll cfg) e now st st'"
    using r(4) ne other by metis
  show ?case using t r(1,2,3) self rest st(1) en other by auto
next
  case Nil
  show ?case by (rule exI [of _ False]) simp
qed

section \<open>Enrolment by quorum\<close>

lemma base_fields:
  "en_kem_hex (base_enrollment c sq ep) = cfg_kem_hex c" "en_seq (base_enrollment c sq ep) = sq"
  "en_operator (base_enrollment c sq ep) = cfg_operator c" "en_attest_epoch (base_enrollment c sq ep) = Some ep"
  by (auto simp: base_enrollment_def enrollment_new_def Let_def split: option.splits)

lemma current_epoch_acceptable: "now \<le> u64_max \<Longrightarrow> epoch_acceptable (current_attest_epoch now) now"
proof -
  assume n: "now \<le> u64_max"
  have "current_attest_epoch now \<le> now" "now \<le> current_attest_epoch now + ATTEST_EPOCH_BUCKET_SECS"
    using div_mult_mod_eq [of now ATTEST_EPOCH_BUCKET_SECS] mod_less_divisor [of ATTEST_EPOCH_BUCKET_SECS now]
    by (simp_all add: current_attest_epoch_def ATTEST_EPOCH_BUCKET_SECS_def)
  then show ?thesis using n
    by (auto simp: epoch_acceptable_def sat_add_def ATTEST_ACCEPT_PAST_SECS_def ATTEST_EPOCH_BUCKET_SECS_def)
qed

text \<open>An enrolled relay that the diversity caps leave in is attested in the next admissions that are built.\<close>

lemma enrolled_attested:
  assumes "enrolled P c (base_enrollment c sq (current_attest_epoch now)) now st st'" and "hm_wf (st_registry st)" and "now \<le> u64_max"
    and "st_admissions_cache st = None"
    and "d \<in> set (reg_descriptors P (fst (reg_prune_at (st_registry st') now)))" and "kem_pubkey_hex d = cfg_kem_hex c"
  shows "\<exists>en \<in> set (fst (admissions_handler P st' now)). ae_identity_hex en = cfg_kem_hex c \<and> ae_epoch en = current_attest_epoch now
    \<and> ae_operator en = cfg_operator c
    \<and> ae_attestation en = attest P (st_authority st) (cfg_kem_hex c) (current_attest_epoch now) (cfg_operator c)"
proof -
  let ?e = "base_enrollment c sq (current_attest_epoch now)" and ?reg = "fst (reg_prune_at (st_registry st') now)"
  let ?in = "(cfg_kem_hex c, current_attest_epoch now, cfg_operator c)"
  obtain x where x: "st_registry st' = hm_insert (cfg_kem_hex c) x (st_registry st)" "last_seen x = now"
    "en_kem_hex (reg_enrollment x) = cfg_kem_hex c" "en_attest_epoch (reg_enrollment x) = Some (current_attest_epoch now)"
    "en_operator (reg_enrollment x) = cfg_operator c"
    using assms(1) by (auto simp: enrolled_def base_fields)
  have "hm_get ?reg (cfg_kem_hex c) = Some x"
    using x(1,2) assms(2) by (simp add: reg_prune_at_def Let_def hm_simps sat_sub_def)
  then have "?in \<in> set (admission_inputs P ?reg)"
    using assms(5,6) x unfolding admission_inputs_def in_map_filter by (intro bexI [of _ d]) simp_all
  moreover have "epoch_acceptable (current_attest_epoch now) now" by (rule current_epoch_acceptable [OF assms(3)])
  moreover have "st_admissions_cache st' = None" "st_authority st' = st_authority st" using assms(1,4) by (simp_all add: enrolled_def same_config_def)
  ultimately show ?thesis
    by (force simp: admissions_handler_def Let_def)
qed


subsection \<open>A relay and two authorities\<close>

definition demo_loop :: loop_config where
  "demo_loop = \<lparr>lc_enroll = demo_cfg\<lparr>cfg_kem_hex := hex_encode hex_prims (x25519 hex_prims (replicate 32 8) x25519_base)\<rparr>,
     lc_authority_url = ''http://a/'', lc_extra_urls = [''http://b''], lc_token = None, lc_heartbeat = 300,
     lc_authority_pop_pk = None, lc_sink = True\<rparr>"

definition demo_world :: authorities where
  "demo_world = [(''http://a'', demo_app\<lparr>st_authority := [1]\<rparr>), (''http://b'', demo_app\<lparr>st_authority := [3]\<rparr>)]"

lemma hex_prims_same [simp]:
  "x25519 hex_prims = x25519 demo_prims" "parse_sockaddr hex_prims = parse_sockaddr demo_prims"
  by (simp_all add: fun_eq_iff x25519_def hex_prims_def)

lemma demo_loop_start:
  "loop_start demo_loop 1000 [] = \<lparr>ls_targets = [\<lparr>base_url = ''http://a'', pop_pk = None, pinned = False\<rparr>,
      \<lparr>base_url = ''http://b'', pop_pk = None, pinned = False\<rparr>],
     ls_seq = 1000, ls_settled = False, ls_retry = 5, ls_sink = []\<rparr>"
  by (simp add: loop_start_def make_targets_def demo_loop_def trim_end_slashes_def FIRST_ENROLL_RETRY_def)

lemma demo_willing:
  "willing hex_prims demo_probes ip demo_loop (base_enrollment (lc_enroll demo_loop) 1000 ep) 1000 (demo_app\<lparr>st_authority := k\<rparr>)"
proof -
  have h: "hex_decode hex_prims (hex_encode hex_prims b) = Some b" for b using hex_prims_laws(1) by (simp add: hex_ok_def)
  have a: "parse_sockaddr demo_prims ''abcd'' = Some \<lparr>sa_ip = V4 [97, 98, 99, 100], sa_port = 443\<rparr>"
    by (simp add: demo_prims_def ascii_byte_def)
  let ?e = "base_enrollment (lc_enroll demo_loop) 1000 ep"
  have e: "en_version ?e = ENROLL_VERSION" "en_addr ?e = ''abcd''" "en_rendezvous ?e = None" "en_seq ?e = 1000"
    "en_kem_hex ?e = hex_encode hex_prims (x25519 demo_prims (replicate 32 8) x25519_base)"
    by (simp_all add: base_enrollment_def enrollment_new_def Let_def demo_loop_def demo_cfg_def)
  have v: "validate hex_prims ?e = Inr (Some \<lparr>sa_ip = V4 [97, 98, 99, 100], sa_port = 443\<rparr>)"
    by (simp add: validate_def e h a is_unspecified_ip_def is_loopback_def)
  have "fst (rate_ok (demo_app\<lparr>st_authority := k\<rparr>) ip 1000)" by (simp add: rate_ok_def demo_app_def RATE_MAP_MAX_def hm_simps)
  then show ?thesis
    by (simp add: willing_def v) (simp add: token_ok_def demo_app_def hm_simps demo_probes_def e hex32_def h)
qed


end
