(* ===== verification/Restart.thy ===== *)
theory Restart
  imports Key_Files Relay_Process
begin

text \<open>
  The replay cache of a relay over a restart: \<open>Relay::persist_replay\<close>, the periodic
  \<open>spawn_replay_persistence\<close> of crypto-gotham-relay/src/transport.rs, and the start of a relay with
  the file they leave (the \<open>run\<close> command of crypto-gotham-relay/src/main.rs).
\<close>

section \<open>Writing and reading the cache\<close>

text \<open>The states of the file system while \<open>persist_replay\<close> runs; none when the relay has no file.\<close>

definition persist_replay :: "fs \<Rightarrow> relay \<Rightarrow> nat \<Rightarrow> nat \<Rightarrow> fs list option" where
  "persist_replay fs r now now_unix =
     (case replay_path r of
        None \<Rightarrow> None
      | Some path \<Rightarrow> Some (write_encoded fs path (persist_encode (replay_cache r) now now_unix)))"

text \<open>One period of \<open>spawn_replay_persistence\<close>; it ends when the relay has no file.\<close>

definition replay_tick :: "fs \<Rightarrow> relay \<Rightarrow> nat \<Rightarrow> nat \<Rightarrow> fs list option" where
  "replay_tick fs r now now_unix =
     (case encode_replay r now now_unix of None \<Rightarrow> None | Some (buf, path) \<Rightarrow> Some (write_encoded fs path buf))"

lemma replay_tick_persists: "replay_tick fs r now now_unix = persist_replay fs r now now_unix"
  by (simp add: replay_tick_def persist_replay_def encode_replay_def split: option.splits)

definition read_file :: "fs \<Rightarrow> string \<Rightarrow> read_result" where
  "read_file fs path = (case fs path of None \<Rightarrow> FileNotFound | Some b \<Rightarrow> FileBytes b)"

text \<open>The relay that \<open>run\<close> starts, from the options that concern packets.\<close>

record relay_options =
  ro_replay_size :: nat
  ro_replay_ttl_secs :: nat
  ro_delay_micros :: nat
  ro_max_pps :: f64
  ro_max_bytes_per_day :: nat
  ro_strict_header_v3 :: bool
  ro_replay_cache_path :: "string option"

definition start_relay :: "(f64 \<Rightarrow> f64) \<Rightarrow> fs \<Rightarrow> bytes \<Rightarrow> relay_options \<Rightarrow> nat \<Rightarrow> nat \<Rightarrow> nat \<Rightarrow> nat \<Rightarrow> nat \<Rightarrow> nat \<Rightarrow> relay" where
  "start_relay rnd fs sk opts t1 t2 t3 t4 now now_unix =
     (let r = with_rate_limit rnd (relay_new rnd sk (ro_replay_size opts) (ro_replay_ttl_secs opts * NANOS) (ro_delay_micros opts) t1 t2)
                (ro_max_pps opts) (ro_max_bytes_per_day opts) t3 t4;
          r = (if ro_strict_header_v3 opts then strict_header_v3 r else r)
      in case ro_replay_cache_path opts of
           None \<Rightarrow> r
         | Some path \<Rightarrow> with_replay_persistence r path (read_file fs path) now now_unix)"

section \<open>Invariant of the cache of a running relay\<close>

definition cache_ok :: "relay \<Rightarrow> bool" where
  "cache_ok r \<longleftrightarrow> replay_inv (replay_cache r) \<and> wf_keys (rc_queue (replay_cache r))"

lemma wf_keys_sub: "wf_keys q \<Longrightarrow> set q' \<subseteq> set q \<Longrightarrow> wf_keys q'"
  by (auto simp: wf_keys_def)

lemma wf_keys_sweep: "replay_inv c \<Longrightarrow> wf_keys (rc_queue c) \<Longrightarrow> wf_keys (rc_queue (sweep_expired c now))"
  using sweep_expired_props(2) [of c now] by (auto simp: wf_keys_def)

lemma wf_keys_check:
  assumes "replay_inv c" and "wf_keys (rc_queue c)" and "length k = 16" and "check_and_insert_at c k now = (res, c')"
  shows "wf_keys (rc_queue c')"
proof (cases res)
  case Replayed
  then show ?thesis using assms check_replay_state(1) wf_keys_sweep by metis
next
  case Fresh
  let ?q = "rc_queue (sweep_expired c now)"
  have "wf_keys ?q" by (rule wf_keys_sweep [OF assms(1,2)])
  then have "wf_keys (tl ?q)" by (rule wf_keys_sub) (cases ?q, auto)
  with \<open>wf_keys ?q\<close> show ?thesis using check_fresh_queue [OF assms(1), of k now c'] assms(3,4) Fresh by (auto simp: wf_keys_def)
qed

lemma dedup_loop_subset: "set (dedup_loop m seen es) \<subseteq> set es"
  by (induction m seen es rule: dedup_loop.induct) auto

lemma dedup_loop_key: "(k, ts) \<in> set (dedup_loop m seen es) \<Longrightarrow> k \<notin> set seen \<and> hm_get m k = None"
  by (induction m seen es rule: dedup_loop.induct) (auto simp: hm_contains_def split: if_splits)

lemma dedup_loop_distinct: "distinct (map fst (dedup_loop m seen es))"
proof (induction m seen es rule: dedup_loop.induct)
  case (2 m seen key ts es)
  have "key \<notin> fst ` set (dedup_loop m (key # seen) es)" by (auto dest: dedup_loop_key)
  then show ?case using 2 by simp
qed simp

lemma restore_loop_inv:
  assumes "replay_inv c" and "distinct (map fst es)" and "\<forall>k \<in> fst ` set es. hm_get (rc_map c) k = None"
    and "restore_loop es c n = (n', c')"
  shows "replay_inv c' \<and> set (rc_queue c') \<subseteq> set (rc_queue c) \<union> set es"
  using assms
proof (induction es c n rule: restore_loop.induct)
  case (2 key ts es c n)
  let ?c = "c\<lparr>rc_map := hm_insert key ts (rc_map c), rc_queue := rc_queue c @ [(key, ts)]\<rparr>"
  show ?case
  proof (cases "rc_max_size c \<le> length (rc_map c)")
    case True
    then show ?thesis using 2(2,5) by auto
  next
    case False
    have se: "same_entries (rc_map c) (rc_queue c)" using 2(2) by (simp add: replay_inv_alt)
    have "replay_inv ?c"
      using same_entries_push [OF se, of key ts] 2(4) False same_entries_length [OF se] by (simp add: replay_inv_alt)
    moreover have "\<forall>k \<in> fst ` set es. hm_get (rc_map ?c) k = None" using 2(3,4) by (auto simp: hm_simps)
    ultimately show ?thesis using 2(1) [OF False] 2(3,5) False by auto
  qed
qed simp

lemma chunk_entries_wf: "n * RECORD \<le> length body \<Longrightarrow> wf_keys (chunk_entries n body)"
  by (induction n body rule: chunk_entries.induct) (auto simp: wf_keys_def RECORD_def)

lemma adopt_loop_keys: "wf_keys es \<Longrightarrow> wf_keys (adopt_loop now u ttl es)"
  by (induction es rule: adopt_loop.induct) (auto simp: wf_keys_def Let_def)

text \<open>Whatever the file holds, the cache that is loaded from it is well formed.\<close>

lemma cache_loaded:
  assumes "replay_inv c" and "wf_keys (rc_queue c)"
  shows "replay_inv (snd (persist_load c file now u)) \<and> wf_keys (rc_queue (snd (persist_load c file now u)))"
proof -
  have "replay_inv (snd (restore_at c es now u)) \<and> wf_keys (rc_queue (snd (restore_at c es now u)))" if es: "wf_keys es" for es
  proof -
    let ?d = "dedup_loop (rc_map c) [] (sort_key snd (adopt_loop now u (rc_ttl c) es))"
    let ?x = "drop (sat_sub (length ?d) (sat_sub (rc_max_size c) (length (rc_map c)))) ?d"
    obtain n c' where r: "restore_loop ?x c 0 = (n, c')" by force
    have sub: "set ?x \<subseteq> set ?d" by (rule set_drop_subset)
    have d: "set ?d \<subseteq> set (adopt_loop now u (rc_ttl c) es)"
      using dedup_loop_subset [of "rc_map c" "[]" "sort_key snd (adopt_loop now u (rc_ttl c) es)"] by simp
    have dist: "distinct (map fst ?x)" using dedup_loop_distinct by (metis distinct_drop drop_map)
    have new: "\<forall>k \<in> fst ` set ?x. hm_get (rc_map c) k = None" using sub dedup_loop_key by fastforce
    note ri = restore_loop_inv [OF assms(1) dist new r]
    have "set (rc_queue c') \<subseteq> set (rc_queue c @ adopt_loop now u (rc_ttl c) es)" using ri sub d by auto
    moreover have "wf_keys (rc_queue c @ adopt_loop now u (rc_ttl c) es)"
      using assms(2) adopt_loop_keys [OF es, of now u "rc_ttl c"] by (auto simp: wf_keys_def)
    ultimately have "wf_keys (rc_queue c')" using wf_keys_sub by blast
    then show ?thesis using ri r by (simp add: restore_at_def Let_def)
  qed
  moreover have "wf_keys (chunk_entries (length b div RECORD) b)" for b by (rule chunk_entries_wf) simp
  ultimately have "replay_inv (snd (restore_at c (chunk_entries (length b div RECORD) b) now u))
      \<and> wf_keys (rc_queue (snd (restore_at c (chunk_entries (length b div RECORD) b) now u)))" for b
    by blast
  then show ?thesis using assms
    by (simp add: persist_load_def Let_def case_prod_beta del: length_drop split: read_result.splits)
qed

lemma cache_ok_start: "cache_ok (start_relay rnd fs sk opts t1 t2 t3 t4 now now_unix)"
proof -
  have "replay_inv (replay_new m ttl)" "wf_keys (rc_queue (replay_new m ttl))" for m ttl
    by (simp_all add: replay_new_def replay_inv_alt same_entries_Nil wf_keys_def)
  then show ?thesis using cache_loaded
    by (simp add: cache_ok_def start_relay_def Let_def relay_new_def with_rate_limit_def strict_header_v3_def with_replay_persistence_def
        split: option.splits)
qed

lemma process_cache_key:
  assumes "process P E r pkt = (out, r')"
  shows "replay_cache r' = replay_cache r
    \<or> length (gamma_of pkt) = 16 \<and> replay_cache r' = snd (check_and_insert_at (replay_cache r) (gamma_of pkt) (e_cache_now E))"
  using assms header_decode_gamma [of pkt]
  by (auto simp: process_def Let_def gamma_of_def slice_def PACKET_SIZE_def split: if_splits prod.splits sum.splits gerror.splits)

lemma cache_ok_process: "cache_ok r \<Longrightarrow> process P E r pkt = (out, r') \<Longrightarrow> cache_ok r'"
  using process_cache_key [of P E r pkt out r'] check_inv wf_keys_check
  unfolding cache_ok_def by (metis prod.collapse)

lemma cache_ok_run: "cache_ok r \<Longrightarrow> relay_run P r es = (outs, r') \<Longrightarrow> cache_ok r'"
proof (induction es arbitrary: r outs)
  case (Cons e es)
  then show ?case by (cases e) (auto simp: Let_def split: prod.splits dest: cache_ok_process)
qed simp

section \<open>A restart does not reopen the replay window\<close>

lemma start_relay_fields:
  "replay_path (start_relay rnd fs sk opts t1 t2 t3 t4 now u) = ro_replay_cache_path opts"
  "ro_replay_cache_path opts = Some path \<Longrightarrow> replay_cache (start_relay rnd fs sk opts t1 t2 t3 t4 now u)
     = snd (persist_load (replay_new (ro_replay_size opts) (ro_replay_ttl_secs opts * NANOS)) (read_file fs path) now u)"
  by (auto simp: start_relay_def Let_def relay_new_def with_rate_limit_def strict_header_v3_def with_replay_persistence_def
      split: option.splits)

lemma restore_loop_fields: "restore_loop es c n = (n', c') \<Longrightarrow> rc_ttl c' = rc_ttl c \<and> rc_max_size c' = rc_max_size c"
  by (induction es c n rule: restore_loop.induct) (auto split: if_splits)

lemma persist_load_fields:
  "rc_ttl (snd (persist_load c file now u)) = rc_ttl c" "rc_max_size (snd (persist_load c file now u)) = rc_max_size c"
  by (auto simp: persist_load_def restore_at_def Let_def split: read_result.splits prod.splits dest: restore_loop_fields)

lemma run_fields:
  "relay_run P r es = (outs, r') \<Longrightarrow> rc_ttl (replay_cache r') = rc_ttl (replay_cache r)
     \<and> rc_max_size (replay_cache r') = rc_max_size (replay_cache r) \<and> replay_path r' = replay_path r"
proof (induction es arbitrary: r outs)
  case (Cons e es)
  obtain E pkt where e: "e = (E, pkt)" by force
  obtain o1 r1 where p: "process P E r pkt = (o1, r1)" by force
  have "replay_path r1 = replay_path r"
    using p by (auto simp: process_def Let_def split: if_splits prod.splits sum.splits gerror.splits)
  then show ?case using Cons process_cache_fields [of P E r pkt] p e by (auto simp: Let_def split: prod.splits)
qed simp

text \<open>The entry is in the cache of the relay that is started from the file.\<close>

lemma kept_over_restart:
  assumes "cache_ok r" and "kept (replay_cache r) g t n" and "replay_path r = Some path"
    and "0 < rc_max_size (replay_cache r)" and "persist_replay fs r now now_unix = Some states" and "now_unix < 2 ^ 64"
    and "ro_replay_cache_path opts = Some path" and "ro_replay_size opts = rc_max_size (replay_cache r)"
    and "ro_replay_ttl_secs opts * NANOS = rc_ttl (replay_cache r)"
    and "now \<le> t + rc_ttl (replay_cache r)"
    and "(now_unix' - (now_unix - (now - t) div NANOS)) * NANOS \<le> rc_ttl (replay_cache r)"
  obtains t' where "kept (replay_cache (start_relay rnd (last states) sk opts t1 t2 t3 t4 now' now_unix')) g t'
      (length (rc_queue (replay_cache r)))"
    "now' \<le> t' + (now_unix' - (now_unix - (now - t) div NANOS)) * NANOS"
proof -
  let ?c = "replay_cache r"
  have written: "last states path = Some (persist_encode ?c now now_unix)"
    using assms(3,5) by (auto simp: persist_replay_def write_encoded_def replace_file_last)
  have mem: "(g, t) \<in> set (rc_queue ?c)" using assms(2) by (auto simp: kept_def)
  obtain m c' t' where load: "persist_load (replay_new (rc_max_size ?c) (rc_ttl ?c)) (FileBytes (persist_encode ?c now now_unix)) now' now_unix' = (Inr m, c')"
    and c': "replay_inv c'" "length (rc_queue c') \<le> length (rc_queue ?c)" "(g, t') \<in> set (rc_queue c')"
    and t': "now' \<le> t' + (now_unix' - (now_unix - (now - t) div NANOS)) * NANOS"
    by (rule restored_entry [of ?c now_unix g t now now_unix' now'])
       (use assms(1,4,6,10,11) mem in \<open>auto simp: cache_ok_def\<close>)
  have start: "replay_cache (start_relay rnd (last states) sk opts t1 t2 t3 t4 now' now_unix') = c'"
    using load assms(8,9) written by (simp add: start_relay_fields(2) [OF assms(7)] read_file_def)
  obtain ys zs where "rc_queue c' = ys @ (g, t') # zs" using c'(3) by (meson split_list)
  then have "kept c' g t' (length (rc_queue ?c))" using c'(1,2) unfolding kept_def by (intro conjI exI [of _ ys] exI [of _ zs]) simp_all
  then show thesis using that t' start by metis
qed

text \<open>
  A restart does not reopen the replay window. A packet the relay has processed, after any
  earlier traffic, is dropped when it comes again after a shutdown and a start from the file that
  the shutdown leaves, whatever the relay processes in between, as long as the time by the wall
  clock since it was processed is within the lifetime of an entry and the cache is large enough
  for the packets since.
\<close>

theorem replay_refused_after_restart:
  assumes "ro_replay_cache_path opts = Some path"
    and "relay_run P (start_relay rnd fs0 sk opts s1 s2 s3 s4 now0 unix0) before = (outs0, r)"
    and "process P E r pkt = (out, r1)" and "\<not> is_drop out"
    and "relay_run P r1 rest = (outs1, r2)" and "length rest < ro_replay_size opts"
    and "\<forall>(E', p) \<in> set rest. e_cache_now E' \<le> e_cache_now E + ro_replay_ttl_secs opts * NANOS"
    and "persist_replay fs r2 now now_unix = Some states" and "now_unix < 2 ^ 64"
    and "now \<le> e_cache_now E + ro_replay_ttl_secs opts * NANOS"
    and "age = (now_unix' - (now_unix - (now - e_cache_now E) div NANOS)) * NANOS" and "age \<le> ro_replay_ttl_secs opts * NANOS"
    and "relay_run P (start_relay rnd (last states) sk opts t1 t2 t3 t4 now' now_unix') rest2 = (outs2, r4)"
    and "length (rc_queue (replay_cache r2)) + length rest2 < ro_replay_size opts"
    and "\<forall>(E', p) \<in> set rest2. e_cache_now E' + age \<le> now' + ro_replay_ttl_secs opts * NANOS"
    and "e_cache_now E2 + age \<le> now' + ro_replay_ttl_secs opts * NANOS" and "gamma_of pkt2 = gamma_of pkt"
  shows "is_drop (fst (process P E2 r4 pkt2))"
proof -
  let ?ttl = "ro_replay_ttl_secs opts * NANOS" and ?size = "ro_replay_size opts"
  let ?s = "start_relay rnd fs0 sk opts s1 s2 s3 s4 now0 unix0"
  let ?t = "start_relay rnd (last states) sk opts t1 t2 t3 t4 now' now_unix'"
  have f0: "rc_ttl (replay_cache ?s) = ?ttl" "rc_max_size (replay_cache ?s) = ?size" "replay_path ?s = Some path"
    and ft: "rc_ttl (replay_cache ?t) = ?ttl" "rc_max_size (replay_cache ?t) = ?size"
    using assms(1) by (simp_all add: start_relay_fields(1) start_relay_fields(2) [OF assms(1)] persist_load_fields replay_new_def)
  have run1: "relay_run P r ((E, pkt) # rest) = (out # outs1, r2)" using assms(3,5) by simp
  have f: "rc_ttl (replay_cache r) = ?ttl" "rc_max_size (replay_cache r) = ?size"
    "rc_ttl (replay_cache r2) = ?ttl" "rc_max_size (replay_cache r2) = ?size" "replay_path r2 = Some path"
    using run_fields [OF assms(2)] run_fields [OF run1] f0 by simp_all
  have ok: "cache_ok r" by (rule cache_ok_run [OF cache_ok_start assms(2)])
  then have ok2: "cache_ok r2" using run1 by (rule cache_ok_run)
  have k: "kept (replay_cache r2) (gamma_of pkt) (e_cache_now E) (length rest)"
    using accepted_stays [OF _ assms(3-5)] ok assms(6,7) f by (simp add: cache_ok_def)
  have sz: "0 < rc_max_size (replay_cache r2)" using assms(6) f by simp
  obtain t' where k': "kept (replay_cache ?t) (gamma_of pkt) t' (length (rc_queue (replay_cache r2)))"
    and t': "now' \<le> t' + age"
    by (rule kept_over_restart [OF ok2 k f(5) sz assms(8,9,1), of now_unix' rnd sk t1 t2 t3 t4 now'])
       (use f assms(10-12) in simp_all)
  have "kept (replay_cache r4) (gamma_of pkt) t' (length (rc_queue (replay_cache r2)) + length rest2)
      \<and> rc_ttl (replay_cache r4) = rc_ttl (replay_cache ?t)"
    by (rule kept_relay_run [OF k' _ _ assms(13)]) (use ft t' assms(14,15) in fastforce)+
  then have k4: "kept (replay_cache r4) (gamma_of pkt2) t' (length (rc_queue (replay_cache r2)) + length rest2)"
    and ttl: "rc_ttl (replay_cache r4) = ?ttl" using assms(17) ft by simp_all
  show ?thesis by (rule kept_dropped [OF k4]) (use ttl assms(16) t' in simp)
qed

lemma process_path: "fst (process P E (r\<lparr>replay_path := p\<rparr>) pkt) = fst (process P E r pkt)"
  by (simp add: process_def dispatch_def hop_delay_def identity_public_key_def Let_def split: prod.splits sum.splits gerror.splits)

definition demo_options :: relay_options where
  "demo_options = \<lparr>ro_replay_size = 1000, ro_replay_ttl_secs = 300, ro_delay_micros = 1000, ro_max_pps = 0, ro_max_bytes_per_day = 0,
     ro_strict_header_v3 = False, ro_replay_cache_path = Some ''replay.bin''\<rparr>"

lemma demo_start: "start_relay (\<lambda>x. x) Map.empty sk demo_options 0 0 0 0 0 0 = (demo_relay sk)\<lparr>replay_path := Some ''replay.bin''\<rparr>"
  by (simp add: start_relay_def demo_options_def demo_relay_def relay_new_def with_rate_limit_def with_replay_persistence_def
      read_file_def persist_load_def rate_unlimited_def)

text \<open>A packet that the relay forwards, and that comes again 100 seconds later, after a restart.\<close>

theorem replay_refused_after_restart_witness:
  "\<exists>pkt states. \<not> is_drop (fst (process demo_prims demo_env (start_relay (\<lambda>x. x) Map.empty (replicate 32 8) demo_options 0 0 0 0 0 0) pkt))
    \<and> persist_replay Map.empty (snd (process demo_prims demo_env (start_relay (\<lambda>x. x) Map.empty (replicate 32 8) demo_options 0 0 0 0 0 0) pkt))
        10 1000 = Some states
    \<and> is_drop (fst (process demo_prims demo_env
        (start_relay (\<lambda>x. x) (last states) (replicate 32 8) demo_options 0 0 0 0 0 1100) pkt))"
proof -
  let ?s = "start_relay (\<lambda>x. x) Map.empty (replicate 32 8) demo_options 0 0 0 0 0 0"
  obtain pkt pkt' where p: "fst (process demo_prims demo_env (demo_relay (replicate 32 8)) pkt)
     = Forward (replicate 4 0, 0) (replicate 32 0) 500000 False pkt'" using demo_forwarded by blast
  obtain out r1 where pr: "process demo_prims demo_env ?s pkt = (out, r1)" by force
  have "fst (process demo_prims demo_env ?s pkt) = fst (process demo_prims demo_env (demo_relay (replicate 32 8)) pkt)"
    unfolding demo_start by (rule process_path)
  then have nd: "\<not> is_drop out" using p pr by (simp add: is_drop_def)
  have path: "ro_replay_cache_path demo_options = Some ''replay.bin''" by (simp add: demo_options_def)
  have "replay_path r1 = Some ''replay.bin''"
    using run_fields [of demo_prims ?s "[(demo_env, pkt)]"] pr path by (simp add: start_relay_fields(1))
  then obtain states where st: "persist_replay Map.empty r1 10 1000 = Some states" by (simp add: persist_replay_def)
  have "length (rc_queue (snd (check_and_insert_at (replay_cache ?s) k now))) < 1000" "length (rc_queue (replay_cache ?s)) < 1000" for k now
    by (simp_all add: demo_start demo_relay_def relay_new_def check_and_insert_at_def sweep_expired_def replay_new_def
        hm_contains_def hm_simps Let_def)
  then have len: "length (rc_queue (replay_cache r1)) < 1000" using process_cache_key [OF pr] by auto
  have "is_drop (fst (process demo_prims demo_env
      (start_relay (\<lambda>x. x) (last states) (replicate 32 8) demo_options 0 0 0 0 0 1100) pkt))"
    by (rule replay_refused_after_restart [OF path relay_run.simps(1) pr nd relay_run.simps(1) _ _ st _ _ refl _ relay_run.simps(1)])
       (use len in \<open>simp_all add: demo_options_def demo_env_def NANOS_def\<close>)
  then show ?thesis using pr nd st by (intro exI [of _ pkt] exI [of _ states]) simp
qed

end
