(* ===== verification/Pool.thy ===== *)
theory Pool
  imports Eviction Rendezvous
begin

text \<open>
  The pool of outgoing connections of a relay, crypto-gotham-relay/src/pool.rs. As in the theory
  \<open>Rendezvous\<close> the connections live in a store and the pool holds their positions, because a task
  that sends on a connection keeps it while other tasks change the pool.

  The pool's lock is taken three times in \<open>ConnectionPool::send\<close>, so concurrent sends interleave
  between these points: \<open>pool_send\<close> is one undisturbed call, and \<open>pool_reach\<close> are the states that
  all interleavings of calls can reach.
\<close>

section \<open>The pool\<close>

definition DEFAULT_MAX_SIZE :: nat where "DEFAULT_MAX_SIZE = 128"

type_synonym pool_key = "sockaddr \<times> bytes"

record pooled_connection = link +
  last_used :: nat

record connection_pool =
  conns :: "pooled_connection list"
  pool :: "(pool_key, nat) hashmap"
  max_size :: nat
  pool_rendezvous :: rdv_table

definition pool_new :: connection_pool where
  "pool_new = \<lparr>conns = [], pool = [], max_size = DEFAULT_MAX_SIZE, pool_rendezvous = table_new\<rparr>"

definition with_max_size :: "connection_pool \<Rightarrow> nat \<Rightarrow> connection_pool" where
  "with_max_size C n = C\<lparr>max_size := max n 1\<rparr>"

definition send_packet :: "pooled_connection \<Rightarrow> bytes \<Rightarrow> nat \<Rightarrow> transport_error + pooled_connection" where
  "send_packet c pkt now = (case link_write c pkt of Inl e \<Rightarrow> Inl e | Inr c' \<Rightarrow> Inr (c'\<lparr>last_used := now\<rparr>))"

text \<open>The scan of \<open>evict_oldest_locked\<close>: the first entry with the least time of last use.\<close>

fun oldest_loop :: "pooled_connection list \<Rightarrow> (pool_key \<times> nat) option \<Rightarrow> (pool_key, nat) hashmap \<Rightarrow> (pool_key \<times> nat) option" where
  "oldest_loop cs acc [] = acc"
| "oldest_loop cs acc ((k, i) # es) =
     (let ts = last_used (cs ! i)
      in oldest_loop cs (case acc of
             None \<Rightarrow> Some (k, ts)
           | Some (_, prev_ts) \<Rightarrow> if ts < prev_ts then Some (k, ts) else acc) es)"

definition oldest :: "pooled_connection list \<Rightarrow> (pool_key, nat) hashmap \<Rightarrow> (pool_key \<times> nat) option" where
  "oldest cs m = oldest_loop cs None m"

definition evict_oldest_locked :: "pooled_connection list \<Rightarrow> (pool_key, nat) hashmap \<Rightarrow> (pool_key, nat) hashmap" where
  "evict_oldest_locked cs m = (case oldest cs m of None \<Rightarrow> m | Some (k, _) \<Rightarrow> hm_remove k m)"

text \<open>The three critical sections: look up a connection, drop a dead one, adopt a new one.\<close>

definition pool_lookup :: "connection_pool \<Rightarrow> pool_key \<Rightarrow> nat option" where
  "pool_lookup C k = hm_get (pool C) k"

definition pool_drop :: "connection_pool \<Rightarrow> pool_key \<Rightarrow> connection_pool" where
  "pool_drop C k = C\<lparr>pool := hm_remove k (pool C)\<rparr>"

definition pool_adopt :: "connection_pool \<Rightarrow> pool_key \<Rightarrow> nat \<Rightarrow> connection_pool" where
  "pool_adopt C k i =
     (let m = (if max_size C \<le> length (pool C) then evict_oldest_locked (conns C) (pool C) else pool C)
      in C\<lparr>pool := hm_insert k i m\<rparr>)"

text \<open>A send on the \<open>i\<close>-th connection, and a new connection of \<open>open_new\<close>, still outside the pool.\<close>

definition conn_send :: "connection_pool \<Rightarrow> nat \<Rightarrow> bytes \<Rightarrow> nat \<Rightarrow> (transport_error + unit) \<times> connection_pool" where
  "conn_send C i pkt now =
     (case send_packet (conns C ! i) pkt now of
        Inl e \<Rightarrow> (Inl e, C)
      | Inr c \<Rightarrow> (Inr (), C\<lparr>conns := (conns C)[i := c]\<rparr>))"

definition open_conn :: "connection_pool \<Rightarrow> noise \<Rightarrow> bool \<Rightarrow> nat \<Rightarrow> connection_pool" where
  "open_conn C N up now =
     C\<lparr>conns := conns C @ [\<lparr>lk_noise = N, lk_sent = 0, lk_out = [], lk_up = up, last_used = now\<rparr>]\<rparr>"

text \<open>
  \<open>ConnectionPool::send\<close>. \<open>opened\<close> is what connecting and the handshake give: an error, or the
  session and whether its connection takes the first packet; \<open>t1\<close>, \<open>t2\<close> and \<open>t3\<close> are the clock when
  the cached connection is used, when the new one is opened and when it is used.
\<close>

definition send_fresh :: "connection_pool \<Rightarrow> pool_key \<Rightarrow> bytes \<Rightarrow> transport_error + (noise \<times> bool) \<Rightarrow> nat \<Rightarrow> nat
    \<Rightarrow> (transport_error + unit) \<times> connection_pool" where
  "send_fresh C k pkt opened t2 t3 =
     (case opened of
        Inl e \<Rightarrow> (Inl e, C)
      | Inr (N, up) \<Rightarrow>
          (case conn_send (open_conn C N up t2) (length (conns C)) pkt t3 of
             (Inl e, C1) \<Rightarrow> (Inl e, C1)
           | (Inr _, C1) \<Rightarrow> (Inr (), pool_adopt C1 k (length (conns C)))))"

definition pool_send :: "connection_pool \<Rightarrow> pool_key \<Rightarrow> bytes \<Rightarrow> transport_error + (noise \<times> bool) \<Rightarrow> nat \<Rightarrow> nat \<Rightarrow> nat
    \<Rightarrow> (transport_error + unit) \<times> connection_pool" where
  "pool_send C k pkt opened t1 t2 t3 =
     (case pool_lookup C k of
        None \<Rightarrow> send_fresh C k pkt opened t2 t3
      | Some i \<Rightarrow>
          (case conn_send C i pkt t1 of
             (Inr _, C1) \<Rightarrow> (Inr (), C1)
           | (Inl _, C1) \<Rightarrow> send_fresh (pool_drop C1 k) k pkt opened t2 t3))"

section \<open>The scan finds the oldest entry\<close>

lemma oldest_loop_None: "oldest_loop cs acc m = None \<longleftrightarrow> acc = None \<and> m = []"
  by (induction cs acc m rule: oldest_loop.induct) (auto simp: Let_def split: option.splits)

lemma oldest_loop_from:
  "oldest_loop cs acc m = Some (k, t) \<Longrightarrow> acc = Some (k, t) \<or> (\<exists>i. (k, i) \<in> set m \<and> last_used (cs ! i) = t)"
  by (induction cs acc m rule: oldest_loop.induct) (auto simp: Let_def split: option.splits if_splits)

lemma oldest_loop_least:
  "oldest_loop cs acc m = Some (k, t) \<Longrightarrow> (\<forall>(k', i) \<in> set m. t \<le> last_used (cs ! i)) \<and> (\<forall>k' t'. acc = Some (k', t') \<longrightarrow> t \<le> t')"
proof (induction cs acc m rule: oldest_loop.induct)
  case (2 cs acc k0 i es)
  from 2(1) [OF refl] 2(2) show ?case by (cases acc) (fastforce simp: Let_def split: if_splits)+
qed auto

interpretation conn_lru: oldest_scan "\<lambda>i. last_used (cs ! i)" "oldest cs" for cs
proof
  fix m k t k' v'
  show "oldest cs m = None \<longleftrightarrow> m = []" by (simp add: oldest_def oldest_loop_None)
  show "oldest cs m = Some (k, t) \<Longrightarrow> \<exists>v. (k, v) \<in> set m \<and> last_used (cs ! v) = t"
    using oldest_loop_from [of cs None m k t] by (simp add: oldest_def)
  show "oldest cs m = Some (k, t) \<Longrightarrow> (k', v') \<in> set m \<Longrightarrow> t \<le> last_used (cs ! v')"
    using oldest_loop_least [of cs None m k t] by (auto simp: oldest_def)
qed

lemma evict_is_evicted: "evict_oldest_locked cs m = conn_lru.evicted cs m"
  by (simp add: evict_oldest_locked_def conn_lru.evicted_def)

section \<open>Interleaved sends\<close>

text \<open>
  A call holds nothing of the pool between its critical sections but the positions of
  connections. So the states of any number of concurrent calls are those that sequences of the
  sections reach, with any position for the connection used and any key for the entry dropped.
\<close>

inductive pool_reach :: "connection_pool \<Rightarrow> bool" where
  fresh_pool: "pool_reach (with_max_size pool_new n)"
| used: "pool_reach C \<Longrightarrow> i < length (conns C) \<Longrightarrow> conn_send C i pkt now = (r, C') \<Longrightarrow> pool_reach C'"
| opened: "pool_reach C \<Longrightarrow> pool_reach (open_conn C N up now)"
| dropped: "pool_reach C \<Longrightarrow> pool_reach (pool_drop C k)"
| adopted: "pool_reach C \<Longrightarrow> i < length (conns C) \<Longrightarrow> pool_reach (pool_adopt C k i)"

definition pool_inv :: "connection_pool \<Rightarrow> bool" where
  "pool_inv C \<longleftrightarrow> hm_wf (pool C) \<and> length (pool C) \<le> max_size C \<and> 0 < max_size C
     \<and> (\<forall>k i. pool_lookup C k = Some i \<longrightarrow> i < length (conns C))"

lemma conn_send_frame:
  assumes "conn_send C i pkt now = (r, C')"
  shows "pool C' = pool C" "max_size C' = max_size C" "length (conns C') = length (conns C)"
    and "j \<noteq> i \<Longrightarrow> conns C' ! j = conns C ! j"
  using assms by (auto simp: conn_send_def split: sum.splits)

lemma pool_adopt_lookup:
  "pool_lookup (pool_adopt C k i) k' = (if k' = k then Some i else pool_lookup (pool_adopt C k i) k')"
  "k' \<noteq> k \<Longrightarrow> pool_lookup (pool_adopt C k i) k' = pool_lookup C k'
     \<or> pool_lookup (pool_adopt C k i) k' = None \<and> max_size C \<le> length (pool C) \<and> (\<exists>t. oldest (conns C) (pool C) = Some (k', t))"
  using conn_lru.evicted_get [of "conns C" "pool C" k']
  by (auto simp: pool_adopt_def pool_lookup_def evict_is_evicted hm_simps)

lemma pool_inv_adopt:
  assumes "pool_inv C" and "i < length (conns C)"
  shows "pool_inv (pool_adopt C k i)"
proof -
  have c: "hm_wf (pool C)" "length (pool C) \<le> max_size C" "0 < max_size C" using assms(1) by (simp_all add: pool_inv_def)
  have "hm_wf (pool (pool_adopt C k i))" using c(1) by (simp add: pool_adopt_def evict_is_evicted conn_lru.evicted_wf hm_simps)
  moreover have "length (pool (pool_adopt C k i)) \<le> max_size C"
    using conn_lru.room_always [OF c, where cs = "conns C" and k = k and v = i] by (simp add: pool_adopt_def evict_is_evicted split: if_splits)
  moreover have "max_size (pool_adopt C k i) = max_size C" "conns (pool_adopt C k i) = conns C" by (simp_all add: pool_adopt_def)
  moreover have "j < length (conns C)" if "pool_lookup (pool_adopt C k i) k' = Some j" for k' j
    using that pool_adopt_lookup(1) [of C k i k'] pool_adopt_lookup(2) [of k' k C i] assms by (cases "k' = k"; cases k') (auto simp: pool_inv_def eq_commute [of "Some j"])
  ultimately show ?thesis using c(3) by (simp add: pool_inv_def)
qed

lemma pool_inv_drop: "pool_inv C \<Longrightarrow> pool_inv (pool_drop C k)"
  using hm.len_remove_le [of "pool C" k] by (auto simp: pool_inv_def pool_drop_def pool_lookup_def hm_simps split: if_splits)

lemma pool_inv_open: "pool_inv C \<Longrightarrow> pool_inv (open_conn C N up now)"
  by (auto simp: pool_inv_def open_conn_def pool_lookup_def less_Suc_eq)

lemma pool_inv_used: "pool_inv C \<Longrightarrow> conn_send C i pkt now = (r, C') \<Longrightarrow> pool_inv C'"
  using conn_send_frame [of C i pkt now r C'] by (simp add: pool_inv_def pool_lookup_def)

lemma pool_inv_new: "pool_inv (with_max_size pool_new n)"
  by (simp add: pool_inv_def with_max_size_def pool_new_def pool_lookup_def hm_simps)

text \<open>
  However concurrent sends interleave, the pool never holds more connections than its limit
  nor two for one peer, and an entry is always a connection that was opened.
\<close>

theorem pool_bounded:
  assumes "pool_reach C"
  shows "length (pool C) \<le> max_size C \<and> distinct (map fst (pool C))
    \<and> (\<forall>k i. pool_lookup C k = Some i \<longrightarrow> i < length (conns C))"
proof -
  from assms have "pool_inv C"
    by (induction rule: pool_reach.induct) (blast intro: pool_inv_new pool_inv_used pool_inv_open pool_inv_drop pool_inv_adopt)+
  then show ?thesis by (simp add: pool_inv_def hm_wf_def)
qed

text \<open>Two connections adopted by a pool of one: the first makes room for the second.\<close>

theorem pool_bounded_witness:
  "length (pool (pool_adopt (pool_adopt (open_conn (open_conn (with_max_size pool_new 1) demo_noise True 0) demo_noise True 0)
      (\<lparr>sa_ip = V4 [1, 2, 3, 4], sa_port = 443\<rparr>, [7]) 0) (\<lparr>sa_ip = V4 [5, 6, 7, 8], sa_port = 443\<rparr>, [9]) 1)) \<le> 1"
proof -
  let ?C = "open_conn (open_conn (with_max_size pool_new 1) demo_noise True 0) demo_noise True 0"
  let ?k1 = "(\<lparr>sa_ip = V4 [1, 2, 3, 4], sa_port = 443\<rparr>, [7])" and ?k2 = "(\<lparr>sa_ip = V4 [5, 6, 7, 8], sa_port = 443\<rparr>, [9])"
  have r: "pool_reach ?C" by (intro pool_reach.opened pool_reach.fresh_pool)
  have l: "length (conns ?C) = 2" "max_size ?C = 1" by (simp_all add: open_conn_def with_max_size_def pool_new_def)
  have f: "conns (pool_adopt D k i) = conns D" "max_size (pool_adopt D k i) = max_size D" for D k i by (simp_all add: pool_adopt_def)
  have "pool_reach (pool_adopt (pool_adopt ?C ?k1 0) ?k2 1)"
    by (intro pool_reach.adopted r) (simp_all only: f l)
  from pool_bounded [OF this] show ?thesis by (simp only: f l)
qed

section \<open>One send\<close>

text \<open>The connection of a key, and the packets it has been given.\<close>

definition conn_ok :: "connection_pool \<Rightarrow> bool" where
  "conn_ok C \<longleftrightarrow> (\<forall>c \<in> set (conns C). noise_ok (lk_noise c))"

lemma conn_send_result:
  assumes "noise_ok (lk_noise (conns C ! i))" and "i < length (conns C)"
  shows "(\<exists>C'. conn_send C i pkt now = (Inr (), C') \<and> (\<exists>c. link_write (conns C ! i) pkt = Inr c \<and> conns C' ! i = c\<lparr>last_used := now\<rparr>))
         \<and> length pkt = PACKET_SIZE \<and> lk_up (conns C ! i)
       \<or> (\<exists>e. conn_send C i pkt now = (Inl e, C)) \<and> \<not> (length pkt = PACKET_SIZE \<and> lk_up (conns C ! i))"
  using link_write_ok [OF assms(1), of pkt] assms(2)
  by (cases "link_write (conns C ! i) pkt") (auto simp: conn_send_def send_packet_def)

text \<open>\<open>written C C' i pkt\<close>: from \<open>C\<close> to \<open>C'\<close> the packet is written to connection \<open>i\<close>, old or new, and to no other.\<close>

definition written :: "connection_pool \<Rightarrow> connection_pool \<Rightarrow> nat \<Rightarrow> bytes \<Rightarrow> bool" where
  "written C C' i pkt \<longleftrightarrow> i < length (conns C')
     \<and> (if i < length (conns C) then \<forall>qs. carries (conns C ! i) qs \<longrightarrow> carries (conns C' ! i) (qs @ [pkt])
        else carries (conns C' ! i) [pkt])
     \<and> (\<forall>j < length (conns C). j \<noteq> i \<longrightarrow> conns C' ! j = conns C ! j)"

definition untouched :: "connection_pool \<Rightarrow> connection_pool \<Rightarrow> bool" where
  "untouched C C' \<longleftrightarrow> (\<forall>j < length (conns C). conns C' ! j = conns C ! j)"

lemma carries_stamp: "carries (c\<lparr>last_used := t\<rparr>) qs \<longleftrightarrow> carries c qs"
  by (simp add: carries_def)

lemma send_fresh_cases:
  assumes "pool_inv C" and "\<And>N up. opened = Inr (N, up) \<Longrightarrow> noise_ok N"
    and "send_fresh C k pkt opened t2 t3 = (r, C')"
  shows "pool_inv C' \<and> (r = Inr () \<longleftrightarrow> length pkt = PACKET_SIZE \<and> (\<exists>N. opened = Inr (N, True)))
    \<and> (r = Inr () \<longrightarrow> pool_lookup C' k = Some (length (conns C)) \<and> written C C' (length (conns C)) pkt)
    \<and> (r \<noteq> Inr () \<longrightarrow> untouched C C')"
proof (cases opened)
  case (Inl e)
  with assms(1,3) show ?thesis by (auto simp: send_fresh_def untouched_def)
next
  case (Inr x)
  obtain N up where x: "x = (N, up)" by force
  let ?O = "open_conn C N up t2" and ?n = "length (conns C)"
  have O: "?n < length (conns ?O)" "lk_noise (conns ?O ! ?n) = N" "lk_up (conns ?O ! ?n) = up" "carries (conns ?O ! ?n) []"
    "\<And>j. j < ?n \<Longrightarrow> conns ?O ! j = conns C ! j"
    by (simp_all add: open_conn_def carries_def nth_append)
  have inv: "pool_inv ?O" by (rule pool_inv_open [OF assms(1)])
  obtain r1 C1 where c1: "conn_send ?O ?n pkt t3 = (r1, C1)" by force
  note f = conn_send_frame [OF c1]
  have inv1: "pool_inv C1" by (rule pool_inv_used [OF inv c1])
  have res: "(\<exists>c. r1 = Inr () \<and> link_write (conns ?O ! ?n) pkt = Inr c \<and> conns C1 ! ?n = c\<lparr>last_used := t3\<rparr>) \<and> length pkt = PACKET_SIZE \<and> up
    \<or> (\<exists>e. r1 = Inl e) \<and> C1 = ?O \<and> \<not> (length pkt = PACKET_SIZE \<and> up)"
    using conn_send_result [of ?O ?n pkt t3] assms(2) Inr x O c1 by auto
  then show ?thesis
  proof
    assume g: "(\<exists>c. r1 = Inr () \<and> link_write (conns ?O ! ?n) pkt = Inr c \<and> conns C1 ! ?n = c\<lparr>last_used := t3\<rparr>) \<and> length pkt = PACKET_SIZE \<and> up"
    then obtain c where c: "link_write (conns ?O ! ?n) pkt = Inr c" "conns C1 ! ?n = c\<lparr>last_used := t3\<rparr>" "r1 = Inr ()" by blast
    have R: "r = Inr ()" "C' = pool_adopt C1 k ?n" using assms(3) Inr x c1 c(3) by (simp_all add: send_fresh_def)
    have "conns C' = conns C1" by (simp add: R(2) pool_adopt_def)
    moreover have "carries (conns C1 ! ?n) [pkt]" using carries_write [OF O(4) c(1)] c(2) by (simp add: carries_stamp)
    moreover have "pool_inv C'" unfolding R(2) by (rule pool_inv_adopt [OF inv1]) (simp add: f(3) O(1))
    moreover have "pool_lookup C' k = Some ?n" unfolding R(2) using pool_adopt_lookup(1) [of C1 k ?n k] by simp
    ultimately show ?thesis using R g Inr x f O by (simp add: written_def)
  next
    assume "(\<exists>e. r1 = Inl e) \<and> C1 = ?O \<and> \<not> (length pkt = PACKET_SIZE \<and> up)"
    then show ?thesis using assms(3) Inr x c1 inv O by (auto simp: send_fresh_def untouched_def)
  qed
qed

text \<open>
  C25: a send succeeds exactly when the packet has the size of a packet and either the pooled
  connection to the peer still works or a new one can be opened and used. A successful send
  writes the packet once, as the next frame of the one connection to that peer that the pool then
  holds, and writes nothing to any other connection; a failed one writes nothing at all. The pool
  keeps its bound.
\<close>

theorem pool_send_once:
  assumes "pool_inv C" and "conn_ok C" and "\<And>N up. opened = Inr (N, up) \<Longrightarrow> noise_ok N"
    and "pool_send C k pkt opened t1 t2 t3 = (r, C')"
  shows "pool_inv C'
    \<and> (r = Inr () \<longleftrightarrow> length pkt = PACKET_SIZE
        \<and> ((\<exists>i. pool_lookup C k = Some i \<and> lk_up (conns C ! i)) \<or> (\<exists>N. opened = Inr (N, True))))
    \<and> (r = Inr () \<longrightarrow> (\<exists>i. pool_lookup C' k = Some i \<and> written C C' i pkt))
    \<and> (r \<noteq> Inr () \<longrightarrow> untouched C C')"
proof (cases "pool_lookup C k")
  case None
  then show ?thesis using send_fresh_cases [OF assms(1,3), where k = k and pkt = pkt and r = r and C' = C' and opened = opened and ?t2.0 = t2 and ?t3.0 = t3] assms(4)
    by (auto simp: pool_send_def)
next
  case (Some i)
  have i: "i < length (conns C)" "noise_ok (lk_noise (conns C ! i))"
    using assms(1,2) Some by (cases k; auto simp: pool_inv_def conn_ok_def)+
  from conn_send_result [OF i(2,1), of pkt t1] show ?thesis
  proof (elim disjE conjE exE)
    fix C1 c assume c1: "conn_send C i pkt t1 = (Inr (), C1)" and w: "link_write (conns C ! i) pkt = Inr c" "conns C1 ! i = c\<lparr>last_used := t1\<rparr>"
      and ok: "length pkt = PACKET_SIZE" "lk_up (conns C ! i)"
    have R: "r = Inr ()" "C' = C1" using assms(4) Some c1 by (simp_all add: pool_send_def)
    have "carries (conns C ! i) qs \<Longrightarrow> carries (conns C1 ! i) (qs @ [pkt])" for qs
      using carries_write [OF _ w(1)] w(2) by (simp add: carries_stamp)
    then have "written C C1 i pkt" using conn_send_frame [OF c1] i(1) by (simp add: written_def)
    moreover have "pool_lookup C1 k = Some i" using conn_send_frame(1) [OF c1] Some by (simp add: pool_lookup_def)
    ultimately show ?thesis using R ok Some pool_inv_used [OF assms(1) c1] by auto
  next
    fix e assume c1: "conn_send C i pkt t1 = (Inl e, C)" and no: "\<not> (length pkt = PACKET_SIZE \<and> lk_up (conns C ! i))"
    have F: "send_fresh (pool_drop C k) k pkt opened t2 t3 = (r, C')" using assms(4) Some c1 by (simp add: pool_send_def)
    have "conns (pool_drop C k) = conns C" by (simp add: pool_drop_def)
    with send_fresh_cases [OF pool_inv_drop [OF assms(1)] assms(3) F] Some no show ?thesis
      by (auto simp: written_def untouched_def)
  qed
qed

theorem pool_send_once_witness:
  "fst (pool_send pool_new (\<lparr>sa_ip = V4 [1, 2, 3, 4], sa_port = 443\<rparr>, [7]) (replicate PACKET_SIZE 1) (Inr (demo_noise, True)) 0 1 2) = Inr ()"
proof -
  let ?s = "pool_send pool_new (\<lparr>sa_ip = V4 [1, 2, 3, 4], sa_port = 443\<rparr>, [7]) (replicate PACKET_SIZE 1) (Inr (demo_noise, True)) 0 1 2"
  have "pool_inv pool_new" by (simp add: pool_inv_def pool_new_def pool_lookup_def DEFAULT_MAX_SIZE_def hm_simps)
  moreover have "conn_ok pool_new" by (simp add: conn_ok_def pool_new_def)
  ultimately show ?thesis
    using pool_send_once [of pool_new "Inr (demo_noise, True)", OF _ _ _ prod.collapse [of ?s, symmetric]] demo_noise_ok by simp
qed

end
