(* ===== verification/Relay_Node.thy ===== *)
theory Relay_Node
  imports Pool
begin

text \<open>
  A relay as a service, crypto-gotham-relay/src/transport.rs: which protocol an incoming
  connection speaks, the loop that feeds the packets of a connection to the relay, the loop of a
  relay behind a rendezvous tunnel, and the tasks that carry out what the relay decides. Each
  packet has its own clock readings and draws.
\<close>

section \<open>Accepting connections\<close>

definition MIXNET_ALPN :: bytes where "MIXNET_ALPN = ascii ''gotham/1''"
definition MAILBOX_ALPN :: bytes where "MAILBOX_ALPN = ascii ''gotham-mbx/1''"
definition GOSSIP_ALPN :: bytes where "GOSSIP_ALPN = ascii ''gotham-dir/1''"
definition RENDEZVOUS_ALPN :: bytes where "RENDEZVOUS_ALPN = ascii ''gotham-rdv/1''"
definition RENDEZVOUS_QUERY_ALPN :: bytes where "RENDEZVOUS_QUERY_ALPN = ascii ''gotham-rdvq/1''"

definition MAX_INFLIGHT_CONNS :: nat where "MAX_INFLIGHT_CONNS = 1024"

datatype service = ServeMailbox | ServeGossip | ServeRendezvous | ServeQuery | ServePackets | CloseWith string

definition select_service :: "bytes option \<Rightarrow> bool \<Rightarrow> bool \<Rightarrow> service" where
  "select_service alpn has_mailbox has_gossip =
     (if alpn = Some MAILBOX_ALPN then (if has_mailbox then ServeMailbox else CloseWith ''no mailbox here'')
      else if alpn = Some GOSSIP_ALPN then (if has_gossip then ServeGossip else CloseWith ''no gossip here'')
      else if alpn = Some RENDEZVOUS_ALPN then ServeRendezvous
      else if alpn = Some RENDEZVOUS_QUERY_ALPN then ServeQuery
      else ServePackets)"

text \<open>
  The accept loop of \<open>serve_endpoint_with_services_shared\<close>: a connection takes a permit for as long
  as it is served, and is shed when none is left. \<open>handshake\<close> is the outcome of the QUIC
  handshake: the negotiated protocol, if the connection comes up.
\<close>

definition accept_connection :: "nat \<Rightarrow> bytes option option \<Rightarrow> bool \<Rightarrow> bool \<Rightarrow> service option \<times> nat" where
  "accept_connection inflight handshake has_mailbox has_gossip =
     (if MAX_INFLIGHT_CONNS \<le> inflight then (None, inflight)
      else case handshake of
        None \<Rightarrow> (None, inflight)
      | Some alpn \<Rightarrow> (Some (select_service alpn has_mailbox has_gossip), Suc inflight))"

section \<open>Packets\<close>

datatype task =
    DeliverTask nat bytes
  | PushTask nat bytes bytes
  | SendTask nat sockaddr bytes bytes

fun task_of :: "process_outcome \<Rightarrow> task option" where
  "task_of (Drop _) = None"
| "task_of (DeliverLocal d pl) = Some (DeliverTask d pl)"
| "task_of (Forward (ip, port) nid d via pkt) =
     Some (if via then PushTask d nid pkt else SendTask d \<lparr>sa_ip = V4 ip, sa_port = port\<rparr> nid pkt)"

record node =
  nd_relay :: relay
  nd_limiter :: source_limiter

record node_env =
  ne_env :: env
  ne_now :: nat
  ne_t1 :: nat
  ne_t2 :: nat

definition PER_SOURCE_MAX_PPS :: f64 where "PER_SOURCE_MAX_PPS = 200"
definition PER_SOURCE_MAX_TRACKED :: nat where "PER_SOURCE_MAX_TRACKED = 4096"

definition per_source_limiter :: source_limiter where
  "per_source_limiter = source_new PER_SOURCE_MAX_PPS 0 PER_SOURCE_MAX_TRACKED"

text \<open>One turn of the loop of \<open>serve_connection\<close>, after a packet has been read.\<close>

definition serve_packet :: "prims \<Rightarrow> node_env \<Rightarrow> ipaddr \<Rightarrow> node \<Rightarrow> bytes \<Rightarrow> task option \<times> node" where
  "serve_packet P V src nd pkt =
     (case source_check_at (e_rnd (ne_env V)) (nd_limiter nd) src (length pkt) (ne_now V) (ne_t1 V) (ne_t2 V) of
        (d, l) \<Rightarrow>
          if \<not> is_allowed d then (None, nd\<lparr>nd_limiter := l\<rparr>)
          else case process P (ne_env V) (nd_relay nd) pkt of
            (out, r) \<Rightarrow> (task_of out, nd\<lparr>nd_relay := r, nd_limiter := l\<rparr>))"

text \<open>The loop on the bytes that arrive: the tasks it spawns, how it ends, and the node.\<close>

function serve_connection :: "prims \<Rightarrow> (nat \<Rightarrow> node_env) \<Rightarrow> noise \<Rightarrow> ipaddr \<Rightarrow> nat \<Rightarrow> node \<Rightarrow> bytes
    \<Rightarrow> task list \<times> (transport_error + unit) \<times> node" where
  "serve_connection P V N src n nd stream =
     (case read_noise_frame N n stream of
        Inl e \<Rightarrow> ([], if e = ReadError \<or> e = IoError then Inr () else Inl e, nd)
      | Inr (pkt, rest, n') \<Rightarrow>
          (case serve_packet P (V n) src nd pkt of
             (t, nd1) \<Rightarrow>
               (case serve_connection P V N src n' nd1 rest of
                  (ts, res, nd2) \<Rightarrow> ((case t of None \<Rightarrow> ts | Some t \<Rightarrow> t # ts), res, nd2))))"
  by pat_completeness auto
termination
  by (relation "measure (\<lambda>(P, V, N, src, n, nd, stream). length stream)") (auto dest: read_frame_shorter)

declare serve_connection.simps [simp del]

text \<open>The loop of a relay behind a tunnel, on the packets of its queue.\<close>

fun run_rendezvous_inbound :: "prims \<Rightarrow> relay \<Rightarrow> (env \<times> bytes) list \<Rightarrow> task list \<times> relay" where
  "run_rendezvous_inbound P r [] = ([], r)"
| "run_rendezvous_inbound P r ((E, pkt) # rest) =
     (case process P E r pkt of
        (out, r1) \<Rightarrow>
          (case run_rendezvous_inbound P r1 rest of
             (ts, r2) \<Rightarrow> ((case task_of out of None \<Rightarrow> ts | Some t \<Rightarrow> t # ts), r2)))"

text \<open>
  What a spawned task does when its delay is over: hand the payload to the delivery handler, push
  the packet down a tunnel, or send it over the pool. \<open>opened\<close> and the times are those of \<open>pool_send\<close>.
\<close>

definition run_task :: "transport_error + (noise \<times> bool) \<Rightarrow> nat \<Rightarrow> nat \<Rightarrow> nat \<Rightarrow> task \<Rightarrow> connection_pool \<Rightarrow> bytes option \<times> connection_pool" where
  "run_task opened t1 t2 t3 t C =
     (case t of
        DeliverTask _ pl \<Rightarrow> (Some pl, C)
      | PushTask _ nid pkt \<Rightarrow> (None, C\<lparr>pool_rendezvous := snd (table_push (pool_rendezvous C) nid pkt)\<rparr>)
      | SendTask _ addr nid pkt \<Rightarrow> (None, snd (pool_send C (addr, nid) pkt opened t1 t2 t3)))"

section \<open>A dialled relay and a hosted one\<close>

text \<open>The packets of a connection that its source's limiter lets through, with their environments.\<close>

fun admitted :: "(nat \<Rightarrow> node_env) \<Rightarrow> ipaddr \<Rightarrow> nat \<Rightarrow> source_limiter \<Rightarrow> bytes list \<Rightarrow> (env \<times> bytes) list \<times> source_limiter" where
  "admitted V src n l [] = ([], l)"
| "admitted V src n l (pkt # pkts) =
     (case source_check_at (e_rnd (ne_env (V n))) l src (length pkt) (ne_now (V n)) (ne_t1 (V n)) (ne_t2 (V n)) of
        (d, l1) \<Rightarrow>
          (case admitted V src (Suc n) l1 pkts of
             (adm, l2) \<Rightarrow> (if is_allowed d then (ne_env (V n), pkt) # adm else adm, l2)))"

lemma inbound_is_run:
  "run_rendezvous_inbound P r es = (List.map_filter task_of (fst (relay_run P r es)), snd (relay_run P r es))"
  by (induction es arbitrary: r) (auto simp: List.map_filter_simps split: prod.splits option.splits)

lemma serve_connection_admits:
  assumes "noise_ok N" and "\<forall>p \<in> set ps. length p = PACKET_SIZE"
    and "send_all (write_noise_frame N) (\<lambda>n _. Suc n) n ps = Inr s"
    and "admitted V src n (nd_limiter nd) ps = (adm, l)" and "run_rendezvous_inbound P (nd_relay nd) adm = (ts, r)"
  shows "serve_connection P V N src n nd s = (ts, Inr (), nd\<lparr>nd_relay := r, nd_limiter := l\<rparr>)"
  using assms(2-)
proof (induction ps arbitrary: n s nd adm ts)
  case Nil
  then show ?case by (subst serve_connection.simps) (simp add: read_noise_frame_def FRAME_LEN_def NOISE_TAG_LEN_def)
next
  case (Cons p ps)
  obtain a w where a: "write_noise_frame N n p = Inr a" and w: "send_all (write_noise_frame N) (\<lambda>n _. Suc n) (Suc n) ps = Inr w"
    and s: "s = a @ w" using Cons.prems(2) by (auto split: sum.splits)
  have rd: "read_noise_frame N n (a @ w) = Inr (p, w, Suc n)" using frame_roundtrip [OF assms(1), of p n w] Cons.prems(1) a by auto
  obtain d l1 where c: "source_check_at (e_rnd (ne_env (V n))) (nd_limiter nd) src (length p) (ne_now (V n)) (ne_t1 (V n)) (ne_t2 (V n)) = (d, l1)"
    by force
  obtain adm1 where adm1: "admitted V src (Suc n) l1 ps = (adm1, l)" and adm: "adm = (if is_allowed d then (ne_env (V n), p) # adm1 else adm1)"
    using Cons.prems(3) c by (auto split: prod.splits)
  have ps: "\<forall>p \<in> set ps. length p = PACKET_SIZE" using Cons.prems(1) by simp
  show ?case
  proof (cases "is_allowed d")
    case False
    have "serve_connection P V N src (Suc n) (nd\<lparr>nd_limiter := l1\<rparr>) w = (ts, Inr (), nd\<lparr>nd_relay := r, nd_limiter := l\<rparr>)"
      using Cons.IH [OF ps w, of "nd\<lparr>nd_limiter := l1\<rparr>"] adm1 adm False Cons.prems(4) by simp
    with rd c False s show ?thesis by (subst serve_connection.simps) (simp add: serve_packet_def)
  next
    case True
    obtain out r1 where out: "process P (ne_env (V n)) (nd_relay nd) p = (out, r1)" by force
    obtain ts1 where ts1: "run_rendezvous_inbound P r1 adm1 = (ts1, r)" and ts: "ts = (case task_of out of None \<Rightarrow> ts1 | Some t \<Rightarrow> t # ts1)"
      using Cons.prems(4) adm True out by (auto split: prod.splits)
    have "serve_connection P V N src (Suc n) (nd\<lparr>nd_relay := r1, nd_limiter := l1\<rparr>) w = (ts1, Inr (), nd\<lparr>nd_relay := r, nd_limiter := l\<rparr>)"
      using Cons.IH [OF ps w, of "nd\<lparr>nd_relay := r1, nd_limiter := l1\<rparr>"] adm1 ts1 by simp
    with rd c True out s ts show ?thesis by (subst serve_connection.simps) (simp add: serve_packet_def)
  qed
qed

text \<open>
  C23: a relay that is dialled and a relay behind a tunnel do the same with the packets they
  receive. For every sequence of packets written to a connection, the loop of the dialled relay
  ends without an error and spawns exactly the tasks that the loop of a hosted relay spawns for
  the packets the per-source limiter lets through, in the same order, and leaves the relay in the
  same state: a packet the limiter refuses reaches neither the rate limiter nor the replay cache
  of the relay.
\<close>

theorem dialled_as_hosted:
  assumes "noise_ok N" and "\<forall>p \<in> set ps. length p = PACKET_SIZE"
  shows "\<exists>s. send_all (write_noise_frame N) (\<lambda>n _. Suc n) 0 ps = Inr s
    \<and> serve_connection P V N src 0 nd s =
       (let (adm, l) = admitted V src 0 (nd_limiter nd) ps; (ts, r) = run_rendezvous_inbound P (nd_relay nd) adm
        in (ts, Inr (), nd\<lparr>nd_relay := r, nd_limiter := l\<rparr>))"
proof -
  obtain s where s: "send_all (write_noise_frame N) (\<lambda>n _. Suc n) 0 ps = Inr s"
    using frames.recv_send [of ps N 0 "[]"] assms by auto
  obtain adm l where a: "admitted V src 0 (nd_limiter nd) ps = (adm, l)" by force
  obtain ts r where r: "run_rendezvous_inbound P (nd_relay nd) adm = (ts, r)" by force
  from serve_connection_admits [OF assms s a r] s a r show ?thesis by simp
qed

definition demo_node_env :: node_env where
  "demo_node_env = \<lparr>ne_env = demo_env, ne_now = 0, ne_t1 = 0, ne_t2 = 0\<rparr>"

definition demo_node_state :: node where
  "demo_node_state = \<lparr>nd_relay = demo_relay [8], nd_limiter = per_source_limiter\<rparr>"

theorem dialled_as_hosted_witness:
  "\<exists>s ts nd. send_all (write_noise_frame demo_noise) (\<lambda>n _. Suc n) 0 [replicate PACKET_SIZE 1] = Inr s
     \<and> serve_connection demo_prims (\<lambda>_. demo_node_env) demo_noise (V4 [1, 2, 3, 4]) 0 demo_node_state s = (ts, Inr (), nd)"
  using dialled_as_hosted [OF demo_noise_ok, of "[replicate PACKET_SIZE 1]" demo_prims "\<lambda>_. demo_node_env" "V4 [1, 2, 3, 4]" demo_node_state]
  by (auto split: prod.splits)

section \<open>A flood from one source\<close>

text \<open>Once a source has a bucket, its checks are the checks of that bucket.\<close>

lemma source_check_bucket:
  assumes "hm_get (buckets l) src = Some (b, seen)" and "source_check_at rnd l src n now t1 t2 = (d, l1)"
  shows "\<exists>b1. rate_check_at rnd b 0 now = (d, b1) \<and> hm_get (buckets l1) src = Some (b1, now)"
proof -
  have "rate_check_at rnd b n now = rate_check_at rnd b 0 now" by (simp add: rate_check_at_def)
  with assms show ?thesis
    by (cases "rate_check_at rnd b 0 now") (auto simp: source_check_at_def hm_contains_def hm_simps)
qed

lemma admitted_count:
  assumes "\<And>k. e_rnd (ne_env (V k)) = rnd" and "hm_get (buckets l) src = Some (b, seen)"
  shows "length (fst (admitted V src n l ps)) = fst (rate_run rnd b (map (\<lambda>k. ne_now (V k)) [n ..< n + length ps]))"
  using assms(2)
proof (induction ps arbitrary: n l b seen)
  case Nil
  then show ?case by simp
next
  case (Cons p ps)
  obtain d l1 where c: "source_check_at rnd l src (length p) (ne_now (V n)) (ne_t1 (V n)) (ne_t2 (V n)) = (d, l1)" by force
  obtain b1 where b1: "rate_check_at rnd b 0 (ne_now (V n)) = (d, b1)" "hm_get (buckets l1) src = Some (b1, ne_now (V n))"
    using source_check_bucket [OF Cons.prems c] by blast
  have upt: "[n ..< n + length (p # ps)] = n # [Suc n ..< Suc n + length ps]" by (simp add: upt_conv_Cons del: upt_Suc)
  show ?case unfolding upt using Cons.IH [OF b1(2), of "Suc n"] c b1(1) assms(1) [of n]
    by (auto simp: is_allowed_def split: prod.splits)
qed

lemma first_check:
  assumes "source_check_at (\<lambda>x. x) per_source_limiter src n now t1 t2 = (d, l)" and "now \<le> t1"
  shows "\<exists>b. d = Allow \<and> hm_get (buckets l) src = Some (b, now) \<and> max_pps b = 200 \<and> tokens b = 399 \<and> last_refill b = now
    \<and> rate_inv (\<lambda>x. x) b"
proof -
  let ?b = "rate_new (\<lambda>x. x) 200 0 t1 t2"
  have c: "rate_check_at (\<lambda>x. x) ?b n now = (Allow, ?b\<lparr>tokens := 399, last_refill := now\<rparr>)"
    using assms(2) by (simp add: rate_check_at_def rate_new_def quota_state_def refilled_def as_secs_f64_def Let_def)
  have "rate_inv (\<lambda>x. x) (?b\<lparr>tokens := 399, last_refill := now\<rparr>)"
    by (rule rate_inv_check [OF rounding_id rate_inv_new [OF rounding_id] c])
  moreover have "d = Allow" and "hm_get (buckets l) src = Some (?b\<lparr>tokens := 399, last_refill := now\<rparr>, now)"
    using assms(1) c
    by (auto simp: source_check_at_def per_source_limiter_def source_new_def PER_SOURCE_MAX_PPS_def PER_SOURCE_MAX_TRACKED_def
        hm_contains_def hm_simps)
  ultimately show ?thesis by (auto simp: rate_new_def Let_def)
qed



section \<open>Forwarding to a hosted relay\<close>

lemma push_all_snoc: "push_all (ps @ [(pk, pkt)]) T = snd (table_push (push_all ps T) pk pkt)"
  by (induction ps T rule: push_all.induct) auto

text \<open>
  C14: a packet that a relay forwards to a relay it hosts arrives there. When the record of a
  packet says that the next relay is behind a tunnel, the task that the packet's outcome spawns
  pushes the packet down the tunnel last admitted for that relay, and the hosted relay's loop
  then processes exactly the packets pushed to it before, followed by this packet as the
  forwarding relay produced it.
\<close>

theorem hosted_forward_arrives:
  assumes "rdv_reach T live latest" and "serve_open T ip nid N = (True, T1)" and "noise_ok N"
    and "\<forall>(q, p) \<in> set ps. length p = PACKET_SIZE"
    and "process P E r pkt = (Forward a nid d True pkt', r')" and "pool_rendezvous C = push_all ps T1"
  shows "\<exists>t. task_of (fst (process P E r pkt)) = Some t
    \<and> rendezvous_session N (\<lambda>_. True) 0
        (lk_out (tunnels (pool_rendezvous (snd (run_task opened t1 t2 t3 t C))) ! length (tunnels T)))
      = (addressed nid ps @ [pkt'], Inl ReadError)"
proof -
  have len: "length pkt' = PACKET_SIZE" using process_forward [of P E r pkt] assms(5) by simp
  have t: "task_of (fst (process P E r pkt)) = Some (PushTask d nid pkt')" using assms(5) by (cases a) simp
  have C: "pool_rendezvous (snd (run_task opened t1 t2 t3 (PushTask d nid pkt') C)) = push_all (ps @ [(nid, pkt')]) T1"
    by (simp add: run_task_def assms(6) push_all_snoc)
  have "\<forall>(q, p) \<in> set (ps @ [(nid, pkt')]). length p = PACKET_SIZE" using assms(4) len by auto
  from tunnel_sequence [OF assms(1-3) this] C t show ?thesis by (simp add: addressed_def)
qed

theorem hosted_forward_arrives_witness:
  "\<exists>pkt pkt' t T1. task_of (fst (process demo_prims demo_env (demo_relay (replicate 32 8)) pkt)) = Some t
    \<and> rendezvous_session demo_noise (\<lambda>_. True) 0
        (lk_out (tunnels (pool_rendezvous (snd (run_task (Inl WriteError) 0 0 0 t (pool_new\<lparr>pool_rendezvous := T1\<rparr>)))) ! 0))
      = ([pkt'], Inl ReadError)"
proof -
  let ?r = "demo_relay (replicate 32 8)"
  obtain pkt pkt' where f: "fst (process demo_prims demo_env ?r pkt) = Forward (replicate 4 0, 0) (replicate 32 0) 500000 True pkt'"
    using demo_forwarded by blast
  then have f': "process demo_prims demo_env ?r pkt = (Forward (replicate 4 0, 0) (replicate 32 0) 500000 True pkt', snd (process demo_prims demo_env ?r pkt))"
    by (metis prod.collapse)
  have "\<exists>T1. serve_open table_new (V4 [1, 1, 1, 1]) (replicate 32 0) demo_noise = (True, T1)"
    by (simp add: serve_open_def register_def table_new_def may_admit_def MAX_TUNNELS_def MAX_TUNNELS_PER_IP_def ip_tunnels_def)
  then obtain T1 where o: "serve_open table_new (V4 [1, 1, 1, 1]) (replicate 32 0) demo_noise = (True, T1)" ..
  have C: "pool_rendezvous (pool_new\<lparr>pool_rendezvous := T1\<rparr>) = push_all [] T1" by simp
  have l: "length (tunnels table_new) = 0" by (simp add: table_new_def)
  have "\<forall>(q, p) \<in> set ([] :: (bytes \<times> bytes) list). length p = PACKET_SIZE" by simp
  from hosted_forward_arrives [OF rdv_reach.start o demo_noise_ok this f' C, of "Inl WriteError" 0 0 0] show ?thesis
    unfolding l by (auto simp: addressed_def)
qed

end
