(* ===== verification/Endpoints.thy ===== *)
theory Endpoints
  imports Relay_Node Authority
begin

text \<open>
  The endpoints a relay and its clients open, crypto-gotham-relay/src/transport.rs: the
  configuration of QUIC and TLS, the dial of a service, the liveness probe by which an authority
  checks the address of a relay, and the sending of one packet. The libraries (\<open>rcgen\<close>, \<open>rustls\<close>,
  \<open>quinn\<close>) are a parameter, and so is \<open>snow\<close>.
\<close>

section \<open>Configuration\<close>

datatype signature_scheme =
    RSA_PKCS1_SHA256 | RSA_PKCS1_SHA384 | RSA_PKCS1_SHA512
  | ECDSA_NISTP256_SHA256 | ECDSA_NISTP384_SHA384 | ED25519
  | RSA_PSS_SHA256 | RSA_PSS_SHA384 | RSA_PSS_SHA512

text \<open>The trait \<open>ServerCertVerifier\<close>: the certificate and the signatures by it, on the bytes they are about.\<close>

record cert_verifier =
  verify_server_cert :: "bytes \<Rightarrow> bytes list \<Rightarrow> string \<Rightarrow> bytes \<Rightarrow> nat \<Rightarrow> bool"
  verify_tls12_signature :: "bytes \<Rightarrow> bytes \<Rightarrow> bytes \<Rightarrow> bool"
  verify_tls13_signature :: "bytes \<Rightarrow> bytes \<Rightarrow> bytes \<Rightarrow> bool"
  supported_verify_schemes :: "signature_scheme list"

definition SkipServerVerification :: cert_verifier where
  "SkipServerVerification =
     \<lparr>verify_server_cert = (\<lambda>end_entity intermediates server_name ocsp now. True),
      verify_tls12_signature = (\<lambda>message cert dss. True),
      verify_tls13_signature = (\<lambda>message cert dss. True),
      supported_verify_schemes =
        [RSA_PKCS1_SHA256, RSA_PKCS1_SHA384, RSA_PKCS1_SHA512, ECDSA_NISTP256_SHA256, ECDSA_NISTP384_SHA384, ED25519,
         RSA_PSS_SHA256, RSA_PSS_SHA384, RSA_PSS_SHA512]\<rparr>"

record server_endpoint =
  se_addr :: sockaddr
  se_cert :: bytes
  se_key :: bytes
  se_alpn :: "bytes list"

text \<open>A client endpoint; the intervals are seconds, and absent when the default of the library is kept.\<close>

record client_endpoint =
  ce_bind :: sockaddr
  ce_alpn :: "bytes list"
  ce_verifier :: cert_verifier
  ce_keep_alive :: "nat option"
  ce_max_idle :: "nat option"

text \<open>
  The libraries: the certificate for a name, whether TLS takes it, whether QUIC finds a cipher
  suite, whether a socket can be bound, the address of a literal, and the protocol on which a
  connection to a server at an address comes up.
\<close>

record quic_lib =
  ql_self_signed :: "string list \<Rightarrow> (bytes \<times> bytes) option"
  ql_single_cert :: "bytes \<Rightarrow> bytes \<Rightarrow> bool"
  ql_quic_suite :: bool
  ql_bind :: "sockaddr \<Rightarrow> bool"
  ql_connect :: "client_endpoint \<Rightarrow> sockaddr \<Rightarrow> string \<Rightarrow> server_endpoint option \<Rightarrow> transport_error + bytes option"

definition SERVER_NAME :: string where "SERVER_NAME = ''gotham-relay.local''"

definition make_self_signed_cert :: "quic_lib \<Rightarrow> transport_error + (bytes \<times> bytes)" where
  "make_self_signed_cert L = (case ql_self_signed L [''gotham-relay.local''] of None \<Rightarrow> Inl RcgenError | Some ck \<Rightarrow> Inr ck)"

definition build_server_endpoint :: "quic_lib \<Rightarrow> sockaddr \<Rightarrow> transport_error + server_endpoint" where
  "build_server_endpoint L address =
     (case make_self_signed_cert L of
        Inl e \<Rightarrow> Inl e
      | Inr (cert, key) \<Rightarrow>
          if \<not> ql_single_cert L cert key then Inl RustlsError
          else if \<not> ql_quic_suite L then Inl BadHandshake
          else if \<not> ql_bind L address then Inl IoError
          else Inr \<lparr>se_addr = address, se_cert = cert, se_key = key,
                 se_alpn = [MIXNET_ALPN, MAILBOX_ALPN, GOSSIP_ALPN, RENDEZVOUS_ALPN, RENDEZVOUS_QUERY_ALPN]\<rparr>)"

text \<open>The literal \<open>"0.0.0.0:0"\<close>.\<close>

definition CLIENT_BIND :: sockaddr where
  "CLIENT_BIND = \<lparr>sa_ip = V4 [0, 0, 0, 0], sa_port = 0\<rparr>"

definition build_client_endpoint_alpn :: "quic_lib \<Rightarrow> bytes \<Rightarrow> transport_error + client_endpoint" where
  "build_client_endpoint_alpn L alpn =
     (if \<not> ql_quic_suite L then Inl BadHandshake
      else if \<not> ql_bind L CLIENT_BIND then Inl IoError
      else Inr \<lparr>ce_bind = CLIENT_BIND, ce_alpn = [alpn], ce_verifier = SkipServerVerification, ce_keep_alive = None, ce_max_idle = None\<rparr>)"

definition build_client_endpoint :: "quic_lib \<Rightarrow> transport_error + client_endpoint" where
  "build_client_endpoint L = build_client_endpoint_alpn L MIXNET_ALPN"

definition build_mailbox_client_endpoint :: "quic_lib \<Rightarrow> transport_error + client_endpoint" where
  "build_mailbox_client_endpoint L = build_client_endpoint_alpn L MAILBOX_ALPN"

definition build_gossip_client_endpoint :: "quic_lib \<Rightarrow> transport_error + client_endpoint" where
  "build_gossip_client_endpoint L = build_client_endpoint_alpn L GOSSIP_ALPN"

definition build_rendezvous_client_endpoint :: "quic_lib \<Rightarrow> transport_error + client_endpoint" where
  "build_rendezvous_client_endpoint L =
     (if \<not> ql_quic_suite L then Inl BadHandshake
      else if \<not> ql_bind L CLIENT_BIND then Inl IoError
      else Inr \<lparr>ce_bind = CLIENT_BIND, ce_alpn = [RENDEZVOUS_ALPN], ce_verifier = SkipServerVerification,
             ce_keep_alive = Some 15, ce_max_idle = Some 60\<rparr>)"

section \<open>Handshakes without the transcript\<close>

definition drop_binding :: "bytes \<times> (transport_error + ((noise \<times> noise) \<times> bytes \<times> bytes)) \<Rightarrow> bytes \<times> (transport_error + ((noise \<times> noise) \<times> bytes))" where
  "drop_binding r = (case r of (outb, Inl e) \<Rightarrow> (outb, Inl e) | (outb, Inr (ch, binding, rest)) \<Rightarrow> (outb, Inr (ch, rest)))"

definition noise_responder_handshake :: "'h snow \<Rightarrow> bool \<Rightarrow> bytes \<Rightarrow> bytes \<Rightarrow> bytes \<times> (transport_error + ((noise \<times> noise) \<times> bytes))" where
  "noise_responder_handshake H ended static_sk inb = drop_binding (noise_responder_handshake_bound H ended static_sk inb)"

definition noise_initiator_handshake :: "'h snow \<Rightarrow> bool \<Rightarrow> bytes \<Rightarrow> bytes \<Rightarrow> bytes \<Rightarrow> bytes \<times> (transport_error + ((noise \<times> noise) \<times> bytes))" where
  "noise_initiator_handshake H ended initiator_sk server_static_pk inb =
     drop_binding (noise_initiator_handshake_bound H ended initiator_sk server_static_pk inb)"

section \<open>Dialling\<close>

text \<open>
  A dial for the packet service: the endpoint, the connection to what listens at the address, and
  the Noise handshake over its stream.
\<close>

definition dial_packets :: "'h snow \<Rightarrow> quic_lib \<Rightarrow> transport_error + client_endpoint \<Rightarrow> server_endpoint option \<Rightarrow> bool \<Rightarrow> sockaddr \<Rightarrow> bytes \<Rightarrow> bytes
    \<Rightarrow> bytes \<Rightarrow> bytes \<times> (transport_error + ((noise \<times> noise) \<times> bytes))" where
  "dial_packets H L endpoint peer ended address pk sk inb =
     (case endpoint of
        Inl e \<Rightarrow> ([], Inl e)
      | Inr ep \<Rightarrow>
          (case ql_connect L ep address SERVER_NAME peer of
             Inl e \<Rightarrow> ([], Inl e)
           | Inr _ \<Rightarrow> noise_initiator_handshake H ended sk pk inb))"

text \<open>\<open>probe_relay_liveness\<close>; \<open>in_time\<close> says whether the exchange ends before the timeout.\<close>

definition probe_liveness :: "'h snow \<Rightarrow> quic_lib \<Rightarrow> server_endpoint option \<Rightarrow> bool \<Rightarrow> bool \<Rightarrow> nat \<Rightarrow> sockaddr \<Rightarrow> bytes \<Rightarrow> bytes
    \<Rightarrow> bytes \<Rightarrow> bytes \<times> (transport_error + unit)" where
  "probe_liveness H L peer ended in_time timeout address expected_pk initiator_sk inb =
     (let (outb, res) =
        (case dial_packets H L (build_client_endpoint L) peer ended address expected_pk initiator_sk inb of
           (outb, Inl e) \<Rightarrow> (outb, Inl e)
         | (outb, Inr _) \<Rightarrow> (outb, Inr ()))
      in (outb, if in_time then res else Inl (Unreachable timeout)))"

text \<open>\<open>forward_packet\<close>: the handshake and one frame.\<close>

definition forward_packet :: "'h snow \<Rightarrow> quic_lib \<Rightarrow> client_endpoint \<Rightarrow> server_endpoint option \<Rightarrow> bool \<Rightarrow> sockaddr \<Rightarrow> bytes \<Rightarrow> bytes
    \<Rightarrow> bytes \<Rightarrow> bytes \<Rightarrow> bytes \<times> (transport_error + unit)" where
  "forward_packet H L endpoint peer ended address to_pk my_sk pkt inb =
     (case dial_packets H L (Inr endpoint) peer ended address to_pk my_sk inb of
        (outb, Inl e) \<Rightarrow> (outb, Inl e)
      | (outb, Inr (ch, _)) \<Rightarrow>
          (case write_noise_frame (fst ch) 0 pkt of
             Inl e \<Rightarrow> (outb, Inl e)
           | Inr frame \<Rightarrow> (outb @ frame, Inr ())))"

text \<open>The keys a client makes for its handshakes, and the mailbox client.\<close>

definition fresh_handshake_key :: "(nat \<Rightarrow> byte) \<Rightarrow> bytes" where
  "fresh_handshake_key draw =
     (let sk = arr 32 draw;
          sk = sk[0 := sk ! 0 AND 248];
          sk = sk[31 := sk ! 31 AND 127]
      in sk[31 := sk ! 31 OR 64])"

record mailbox_client =
  mc_endpoint :: client_endpoint
  mc_client_sk :: bytes

definition mailbox_client_new :: "quic_lib \<Rightarrow> (nat \<Rightarrow> byte) \<Rightarrow> transport_error + mailbox_client" where
  "mailbox_client_new L draw =
     (let sk = arr 32 draw;
          sk = sk[0 := sk ! 0 AND 248];
          sk = sk[31 := sk ! 31 AND 127];
          sk = sk[31 := sk ! 31 OR 64]
      in case build_mailbox_client_endpoint L of
           Inl e \<Rightarrow> Inl e
         | Inr ep \<Rightarrow> Inr \<lparr>mc_endpoint = ep, mc_client_sk = sk\<rparr>)"

definition mailbox_client_open :: "'h snow \<Rightarrow> quic_lib \<Rightarrow> mailbox_client \<Rightarrow> server_endpoint option \<Rightarrow> bool \<Rightarrow> sockaddr \<Rightarrow> bytes \<Rightarrow> bytes
    \<Rightarrow> bytes \<times> (transport_error + ((noise \<times> noise) \<times> bytes \<times> bytes))" where
  "mailbox_client_open H L c peer ended relay_addr relay_pk inb =
     (case ql_connect L (mc_endpoint c) relay_addr SERVER_NAME peer of
        Inl e \<Rightarrow> ([], Inl e)
      | Inr _ \<Rightarrow> noise_initiator_handshake_bound H ended (mc_client_sk c) relay_pk inb)"

section \<open>Delivery of a packet\<close>

lemma dial_session:
  assumes "xk_ok P H" "ql_connect L ep address SERVER_NAME peer = Inr alpn"
  shows "\<exists>a b ch. sessions_ok ch
    \<and> (\<forall>rest. dial_packets H L (Inr ep) peer ended address (x25519 P ssk x25519_base) isk (b @ rest) = (a, Inr (ch, rest)))
    \<and> (\<forall>rest. noise_responder_handshake H ended ssk (a @ rest) = (b, Inr (ch, rest)))"
proof -
  obtain a b ch binding where x: "sessions_ok ch"
    "\<forall>rest. noise_initiator_handshake_bound H ended isk (x25519 P ssk x25519_base) (b @ rest) = (a, Inr (ch, binding, rest))"
    "\<forall>rest. noise_responder_handshake_bound H ended ssk (a @ rest) = (b, Inr (ch, binding, rest))"
    using xk_session [OF assms(1), of ended isk ssk] by blast
  have "\<forall>rest. dial_packets H L (Inr ep) peer ended address (x25519 P ssk x25519_base) isk (b @ rest) = (a, Inr (ch, rest))"
    by (simp add: dial_packets_def assms(2) noise_initiator_handshake_def drop_binding_def x(2))
  moreover have "\<forall>rest. noise_responder_handshake H ended ssk (a @ rest) = (b, Inr (ch, rest))"
    by (simp add: noise_responder_handshake_def drop_binding_def x(3))
  ultimately show ?thesis using x(1) by blast
qed

text \<open>A packet that is forwarded is the packet that the relay at the other end reads after its handshake.\<close>

lemma forwarded_packet_read:
  assumes "xk_ok P H" "ql_connect L ep address SERVER_NAME peer = Inr alpn" "length pkt = PACKET_SIZE"
  shows "\<exists>outb inb ch frame. forward_packet H L ep peer ended address (x25519 P ssk x25519_base) my_sk pkt inb = (outb, Inr ())
    \<and> noise_responder_handshake H ended ssk outb = (inb, Inr (ch, frame)) \<and> read_noise_frame (fst ch) 0 frame = Inr (pkt, [], 1)"
proof -
  obtain a b ch where s: "sessions_ok ch"
    "\<forall>rest. dial_packets H L (Inr ep) peer ended address (x25519 P ssk x25519_base) my_sk (b @ rest) = (a, Inr (ch, rest))"
    "\<forall>rest. noise_responder_handshake H ended ssk (a @ rest) = (b, Inr (ch, rest))"
    using dial_session [OF assms(1,2), of ended ssk my_sk] by blast
  obtain f where f: "write_noise_frame (fst ch) 0 pkt = Inr f" "read_noise_frame (fst ch) 0 f = Inr (pkt, [], 1)"
    using frame_roundtrip [of "fst ch" pkt 0 "[]"] s(1) assms(3) by (auto simp: sessions_ok_def)
  have "forward_packet H L ep peer ended address (x25519 P ssk x25519_base) my_sk pkt b = (a @ f, Inr ())"
    using s(2) [rule_format, of "[]"] f(1) by (simp add: forward_packet_def)
  with s(3) f(2) show ?thesis by blast
qed

section \<open>A dial reaches the service it is for\<close>

definition same_family :: "ipaddr \<Rightarrow> ipaddr \<Rightarrow> bool" where
  "same_family a b = (case (a, b) of (V4 _, V4 _) \<Rightarrow> True | (V6 _, V6 _) \<Rightarrow> True | _ \<Rightarrow> False)"

text \<open>A verifier that takes any certificate and any signature, with the scheme of the keys \<open>rcgen\<close> makes.\<close>

definition accepts_all :: "cert_verifier \<Rightarrow> bool" where
  "accepts_all v \<longleftrightarrow> (\<forall>a b c d e. verify_server_cert v a b c d e) \<and> (\<forall>a b c. verify_tls13_signature v a b c)
     \<and> ECDSA_NISTP256_SHA256 \<in> set (supported_verify_schemes v)"

text \<open>
  What the libraries document: a remote address of the wrong family, or with port zero, is refused;
  no connection comes up where nothing listens; and a client that accepts the server's certificate
  gets a connection on a protocol that both sides offer, or an error when they have none in common
  (RFC 7301).
\<close>

definition quic_ok :: "quic_lib \<Rightarrow> bool" where
  "quic_ok L \<longleftrightarrow> (\<forall>ep address name peer.
     (\<not> same_family (sa_ip (ce_bind ep)) (sa_ip address) \<or> sa_port address = 0 \<longrightarrow> ql_connect L ep address name peer = Inl ConnectError)
     \<and> (peer = None \<longrightarrow> (\<exists>e. ql_connect L ep address name peer = Inl e))
     \<and> (\<forall>s. peer = Some s \<longrightarrow> accepts_all (ce_verifier ep) \<longrightarrow> same_family (sa_ip (ce_bind ep)) (sa_ip address) \<longrightarrow> sa_port address \<noteq> 0 \<longrightarrow>
          (if set (ce_alpn ep) \<inter> set (se_alpn s) \<noteq> {}
           then \<exists>p \<in> set (ce_alpn ep) \<inter> set (se_alpn s). ql_connect L ep address name peer = Inr (Some p)
           else ql_connect L ep address name peer = Inl ConnectionError)))"

lemma skip_accepts_all: "accepts_all SkipServerVerification"
  by (simp add: accepts_all_def SkipServerVerification_def)

lemma alpn_distinct:
  "distinct [MIXNET_ALPN, MAILBOX_ALPN, GOSSIP_ALPN, RENDEZVOUS_ALPN, RENDEZVOUS_QUERY_ALPN]"
  by (simp add: MIXNET_ALPN_def MAILBOX_ALPN_def GOSSIP_ALPN_def RENDEZVOUS_ALPN_def RENDEZVOUS_QUERY_ALPN_def ascii_def ascii_byte_def)

text \<open>A client that offers one protocol of the server gets that protocol.\<close>

lemma connect_single:
  assumes "quic_ok L" "build_server_endpoint L listen = Inr s" "p \<in> set (se_alpn s)"
    and "ce_bind ep = CLIENT_BIND" "ce_alpn ep = [p]" "ce_verifier ep = SkipServerVerification"
    and "sa_ip address = V4 ip" "sa_port address \<noteq> 0"
  shows "ql_connect L ep address name (Some s) = Inr (Some p)"
proof -
  have "same_family (sa_ip (ce_bind ep)) (sa_ip address)" by (simp add: assms(4,7) CLIENT_BIND_def same_family_def)
  moreover have "set (ce_alpn ep) \<inter> set (se_alpn s) = {p}" using assms(3,5) by auto
  ultimately show ?thesis
    using assms(1) [unfolded quic_ok_def, rule_format, of ep address name "Some s"] assms(6,8) skip_accepts_all by auto
qed

lemma server_alpn:
  "build_server_endpoint L listen = Inr s \<Longrightarrow> se_alpn s = [MIXNET_ALPN, MAILBOX_ALPN, GOSSIP_ALPN, RENDEZVOUS_ALPN, RENDEZVOUS_QUERY_ALPN]"
  by (auto simp: build_server_endpoint_def split: sum.splits if_splits)

text \<open>The five kinds of dial of the program, the endpoint each uses and the service each is for.\<close>

datatype dialler = DialPackets | DialMailbox | DialGossip | DialTunnel | DialQuery

fun endpoint_of :: "quic_lib \<Rightarrow> dialler \<Rightarrow> transport_error + client_endpoint" where
  "endpoint_of L DialPackets = build_client_endpoint L"
| "endpoint_of L DialMailbox = build_mailbox_client_endpoint L"
| "endpoint_of L DialGossip = build_gossip_client_endpoint L"
| "endpoint_of L DialTunnel = build_rendezvous_client_endpoint L"
| "endpoint_of L DialQuery = build_client_endpoint_alpn L RENDEZVOUS_QUERY_ALPN"

fun protocol_of :: "dialler \<Rightarrow> bytes" where
  "protocol_of DialPackets = MIXNET_ALPN"
| "protocol_of DialMailbox = MAILBOX_ALPN"
| "protocol_of DialGossip = GOSSIP_ALPN"
| "protocol_of DialTunnel = RENDEZVOUS_ALPN"
| "protocol_of DialQuery = RENDEZVOUS_QUERY_ALPN"

fun service_for :: "bool \<Rightarrow> bool \<Rightarrow> dialler \<Rightarrow> service" where
  "service_for mb gs DialPackets = ServePackets"
| "service_for mb gs DialMailbox = (if mb then ServeMailbox else CloseWith ''no mailbox here'')"
| "service_for mb gs DialGossip = (if gs then ServeGossip else CloseWith ''no gossip here'')"
| "service_for mb gs DialTunnel = ServeRendezvous"
| "service_for mb gs DialQuery = ServeQuery"

lemmas client_endpoint_defs = build_client_endpoint_def build_mailbox_client_endpoint_def build_gossip_client_endpoint_def
  build_rendezvous_client_endpoint_def build_client_endpoint_alpn_def

lemma endpoint_fields:
  "endpoint_of L d = Inr ep \<Longrightarrow> ce_bind ep = CLIENT_BIND \<and> ce_alpn ep = [protocol_of d] \<and> ce_verifier ep = SkipServerVerification"
  by (cases d) (auto simp: client_endpoint_defs split: if_splits)

lemma service_selected: "select_service (Some (protocol_of d)) mb gs = service_for mb gs d"
  using alpn_distinct by (cases d) (auto simp: select_service_def)

lemma family_refused: "quic_ok L \<Longrightarrow> ce_bind ep = CLIENT_BIND \<Longrightarrow> sa_ip address = V6 ip \<Longrightarrow> ql_connect L ep address name peer = Inl ConnectError"
  by (simp add: quic_ok_def same_family_def CLIENT_BIND_def)

text \<open>
  Every client endpoint reaches its service. Against the server endpoint of a relay at an IPv4
  address, a connection from the endpoint for packets, mailboxes, gossip, tunnels or hosting
  queries comes up and is handed to exactly that service, or closed with the reason when the relay
  does not offer it. No certificate is checked on the way: whom the client talks to is decided by
  the Noise handshake alone. At an IPv6 address no client endpoint of the program connects at all.
\<close>

lemma dial_reaches_service:
  assumes "quic_ok L" and "build_server_endpoint L listen = Inr s" and "endpoint_of L d = Inr ep" and "inflight < MAX_INFLIGHT_CONNS"
    and "sa_ip v4 = V4 ip" and "sa_port v4 \<noteq> 0" and "sa_ip v6 = V6 ip6"
  shows "(\<exists>alpn. ql_connect L ep v4 SERVER_NAME (Some s) = Inr alpn
      \<and> accept_connection inflight (Some alpn) mb gs = (Some (service_for mb gs d), Suc inflight))
    \<and> (\<forall>peer. ql_connect L ep v6 SERVER_NAME peer = Inl ConnectError)"
proof -
  note e = endpoint_fields [OF assms(3)]
  have "protocol_of d \<in> set (se_alpn s)" using server_alpn [OF assms(2)] by (cases d) simp_all
  then have "ql_connect L ep v4 SERVER_NAME (Some s) = Inr (Some (protocol_of d))"
    using connect_single [OF assms(1,2) _ _ _ _ assms(5,6)] e by blast
  then show ?thesis using assms(4) family_refused [OF assms(1) _ assms(7)] e
    by (simp add: accept_connection_def service_selected)
qed

text \<open>A client's key is a clamped scalar, and both ways of making one agree.\<close>

lemma handshake_key_clamped:
  "length (fresh_handshake_key draw) = 32" "fresh_handshake_key draw ! 0 AND 7 = 0" "fresh_handshake_key draw ! 31 AND 192 = 64"
  "mailbox_client_new L draw = Inr c \<Longrightarrow> mc_client_sk c = fresh_handshake_key draw"
  by (simp_all add: fresh_handshake_key_def arr_def Let_def and.assoc bit.conj_disj_distrib2)
     (auto simp: mailbox_client_new_def fresh_handshake_key_def arr_def Let_def split: sum.splits)

text \<open>
  A mailbox client that opens a connection to a relay is served by its mailbox, and both ends have the
  same transcript, to which the proofs of possession of the fetches are bound.
\<close>

lemma mailbox_open_served:
  assumes "quic_ok L" "xk_ok P H" "build_server_endpoint L listen = Inr s" "mailbox_client_new L draw = Inr c"
    and "sa_ip address = V4 ip" "sa_port address \<noteq> 0"
  shows "\<exists>a b ch binding. mailbox_client_open H L c (Some s) ended address (x25519 P ssk x25519_base) b = (a, Inr (ch, binding, []))
      \<and> noise_responder_handshake_bound H ended ssk a = (b, Inr (ch, binding, [])) \<and> sessions_ok ch"
    "\<exists>alpn. ql_connect L (mc_endpoint c) address SERVER_NAME (Some s) = Inr alpn \<and> select_service alpn True gs = ServeMailbox"
proof -
  have ep: "endpoint_of L DialMailbox = Inr (mc_endpoint c)"
    using assms(4) by (auto simp: mailbox_client_new_def Let_def split: sum.splits)
  have c: "ql_connect L (mc_endpoint c) address SERVER_NAME (Some s) = Inr (Some MAILBOX_ALPN)"
    using connect_single [OF assms(1,3) _ _ _ _ assms(5,6)] endpoint_fields [OF ep] server_alpn [OF assms(3)] by simp
  then show "\<exists>alpn. ql_connect L (mc_endpoint c) address SERVER_NAME (Some s) = Inr alpn \<and> select_service alpn True gs = ServeMailbox"
    using service_selected [of DialMailbox True gs] by simp
  obtain a b ch binding where x: "sessions_ok ch"
    "\<forall>rest. noise_initiator_handshake_bound H ended (mc_client_sk c) (x25519 P ssk x25519_base) (b @ rest) = (a, Inr (ch, binding, rest))"
    "\<forall>rest. noise_responder_handshake_bound H ended ssk (a @ rest) = (b, Inr (ch, binding, rest))"
    using xk_session [OF assms(2), of ended "mc_client_sk c" ssk] by blast
  then have "mailbox_client_open H L c (Some s) ended address (x25519 P ssk x25519_base) b = (a, Inr (ch, binding, []))"
    "noise_responder_handshake_bound H ended ssk a = (b, Inr (ch, binding, []))"
    using x(2,3) [rule_format, of "[]"] c by (simp_all add: mailbox_client_open_def)
  then show "\<exists>a b ch binding. mailbox_client_open H L c (Some s) ended address (x25519 P ssk x25519_base) b = (a, Inr (ch, binding, []))
      \<and> noise_responder_handshake_bound H ended ssk a = (b, Inr (ch, binding, [])) \<and> sessions_ok ch" using x(1) by blast
qed

text \<open>Libraries for the witnesses: a connection takes the first protocol of the server that the client offers.\<close>

definition demo_quic :: quic_lib where
  "demo_quic = \<lparr>ql_self_signed = (\<lambda>_. Some ([1], [2])), ql_single_cert = (\<lambda>_ _. True), ql_quic_suite = True, ql_bind = (\<lambda>_. True),
     ql_connect = (\<lambda>ep address name peer.
       if \<not> same_family (sa_ip (ce_bind ep)) (sa_ip address) \<or> sa_port address = 0 then Inl ConnectError
       else case peer of None \<Rightarrow> Inl ConnectionError
         | Some s \<Rightarrow> (case filter (\<lambda>p. p \<in> set (ce_alpn ep)) (se_alpn s) of [] \<Rightarrow> Inl ConnectionError | p # _ \<Rightarrow> Inr (Some p)))\<rparr>"

lemma demo_quic_ok: "quic_ok demo_quic"
proof -
  have "(case filter (\<lambda>p. p \<in> A) xs of [] \<Rightarrow> Inl ConnectionError | p # _ \<Rightarrow> Inr (Some p)) =
      (if A \<inter> set xs = {} then Inl ConnectionError else Inr (Some (hd (filter (\<lambda>p. p \<in> A) xs))))" for A and xs :: "bytes list"
    by (cases "filter (\<lambda>p. p \<in> A) xs") (auto simp: filter_empty_conv dest!: filter_eq_ConsD)
  moreover have "A \<inter> set xs \<noteq> {} \<Longrightarrow> hd (filter (\<lambda>p. p \<in> A) xs) \<in> A \<inter> set xs" for A and xs :: "bytes list"
    by (induction xs) auto
  ultimately show ?thesis by (auto simp: quic_ok_def demo_quic_def)
qed

section \<open>The liveness probe\<close>

text \<open>
  What listens where: the server endpoint and the static secret of the relay. The relay answers on
  the stream of a connection with the handshake when the connection is for packets.
\<close>

type_synonym listeners = "sockaddr \<Rightarrow> (server_endpoint \<times> bytes) option"

definition listeners_ok :: "quic_lib \<Rightarrow> listeners \<Rightarrow> bool" where
  "listeners_ok L net \<longleftrightarrow> (\<forall>address s ssk. net address = Some (s, ssk) \<longrightarrow> (\<exists>listen. build_server_endpoint L listen = Inr s))"

definition relay_answer :: "'h snow \<Rightarrow> quic_lib \<Rightarrow> listeners \<Rightarrow> sockaddr \<Rightarrow> bytes \<Rightarrow> bytes" where
  "relay_answer H L net address inb =
     (case (net address, build_client_endpoint L) of
        (Some (s, ssk), Inr ep) \<Rightarrow>
          (case ql_connect L ep address SERVER_NAME (Some s) of
             Inr alpn \<Rightarrow> if select_service alpn True True = ServePackets then fst (noise_responder_handshake H False ssk inb) else []
           | Inl _ \<Rightarrow> [])
      | _ \<Rightarrow> [])"

text \<open>A probe against the listeners: its first message goes out, the answer comes in.\<close>

definition run_probe :: "'h snow \<Rightarrow> quic_lib \<Rightarrow> listeners \<Rightarrow> nat \<Rightarrow> bytes \<Rightarrow> sockaddr \<Rightarrow> bytes \<Rightarrow> transport_error + unit" where
  "run_probe H L net timeout isk address pk =
     (let probe = probe_liveness H L (map_option fst (net address)) False True timeout address pk isk;
          first = fst (probe [])
      in snd (probe (relay_answer H L net address first)))"

text \<open>The first message of XK is encrypted to the responder's static key: another key cannot read it.\<close>

definition xk_rejects :: "prims \<Rightarrow> 'h snow \<Rightarrow> bool" where
  "xk_rejects P H \<longleftrightarrow> (\<forall>isk pk ssk i0 i1 r0 m. build_initiator H NOISE_PARAMS isk pk = Some i0 \<longrightarrow> hs_write H i0 = Some (m, i1) \<longrightarrow>
      build_responder H NOISE_PARAMS ssk = Some r0 \<longrightarrow> pk \<noteq> x25519 P ssk x25519_base \<longrightarrow> hs_read H r0 m = None)"

lemma recv_nothing: "hs_recv H ended h [] = Inl (if ended then ReadError else BadHandshake)"
  by (simp add: hs_recv_def read_handshake_msg_def)

lemmas initiator_defs = noise_initiator_handshake_def noise_initiator_handshake_bound_def opt_noise_def drop_binding_def
lemmas responder_defs = noise_responder_handshake_def noise_responder_handshake_bound_def opt_noise_def drop_binding_def

lemma xk_exchange:
  assumes "xk_ok P H"
  shows "\<exists>first reply. fst (noise_initiator_handshake H ended isk (x25519 P ssk x25519_base) []) = first
    \<and> fst (noise_responder_handshake H ended ssk first) = reply
    \<and> (\<exists>r. snd (noise_initiator_handshake H ended isk (x25519 P ssk x25519_base) reply) = Inr r)"
proof -
  obtain i0 i1 i2 i3 r0 r1 r2 m1 m2 m3 ch where
    b: "build_initiator H NOISE_PARAMS isk (x25519 P ssk x25519_base) = Some i0" "build_responder H NOISE_PARAMS ssk = Some r0"
    and w: "hs_write H i0 = Some (m1, i1)" "hs_write H r1 = Some (m2, r2)" "hs_write H i2 = Some (m3, i3)"
    and r: "hs_read H r0 m1 = Some r1" "hs_read H i1 m2 = Some i2" and e: "hs_split H i3 = Some ch"
    and l: "length m1 \<le> MAX_HANDSHAKE_MSG" "length m2 \<le> MAX_HANDSHAKE_MSG" "length m3 \<le> MAX_HANDSHAKE_MSG"
    using assms [unfolded xk_ok_def, rule_format, of isk ssk] by blast
  obtain s1 s2 where s: "hs_send H i0 = Inr (s1, i1)" "hs_send H r1 = Inr (s2, r2)"
    and t: "hs_recv H ended r0 s1 = Inr (r1, [])" "hs_recv H ended i1 s2 = Inr (i2, [])"
    using hs_message [OF w(1) l(1) r(1), of ended] hs_message [OF w(2) l(2) r(2), of ended] by (metis append_Nil2)
  obtain s3 where s3: "hs_send H i2 = Inr (s3, i3)" using w(3) l(3) by (simp add: hs_send_def opt_noise_def write_handshake_msg_def)
  have "fst (noise_initiator_handshake H ended isk (x25519 P ssk x25519_base) []) = s1"
    using b s by (simp add: initiator_defs recv_nothing)
  moreover have "fst (noise_responder_handshake H ended ssk s1) = s2"
    using b s t by (simp add: responder_defs recv_nothing)
  moreover have "\<exists>r. snd (noise_initiator_handshake H ended isk (x25519 P ssk x25519_base) s2) = Inr r"
    using b s t s3 e by (simp add: initiator_defs)
  ultimately show ?thesis by blast
qed

lemma xk_silence:
  assumes "xk_rejects P H" "pk \<noteq> x25519 P ssk x25519_base"
  shows "fst (noise_responder_handshake H ended ssk (fst (noise_initiator_handshake H False isk pk []))) = []"
proof -
  have e: "hs_recv H ended r0 (fst (noise_initiator_handshake H False isk pk [])) = Inl x \<Longrightarrow> ?thesis" 
    if "build_responder H NOISE_PARAMS ssk = Some r0" for r0 x
    using that by (simp add: responder_defs)
  show ?thesis
  proof (cases "build_responder H NOISE_PARAMS ssk")
    case (Some r0)
    show ?thesis
    proof (cases "build_initiator H NOISE_PARAMS isk pk")
      case None
      then have "fst (noise_initiator_handshake H False isk pk []) = []"
        by (simp add: initiator_defs)
      then show ?thesis by (intro e [OF Some]) (simp add: recv_nothing)
    next
      case i0: (Some i0)
      show ?thesis
      proof (cases "hs_send H i0")
        case (Inl y)
        with i0 have "fst (noise_initiator_handshake H False isk pk []) = []"
          by (simp add: initiator_defs)
        then show ?thesis by (intro e [OF Some]) (simp add: recv_nothing)
      next
        case (Inr y)
        then obtain m i1 where m: "hs_write H i0 = Some (m, i1)" "length m \<le> MAX_HANDSHAKE_MSG" "write_handshake_msg m = Inr (fst y)" "snd y = i1"
          by (auto simp: hs_send_def opt_noise_def write_handshake_msg_def split: option.splits if_splits)
        have "hs_read H r0 m = None" using assms m(1) i0 Some by (auto simp: xk_rejects_def)
        moreover have "read_handshake_msg ended (fst y) = Inr (m, [])"
          using handshake_msg_roundtrip [OF m(2), of ended "[]"] m(3) by auto
        moreover have "fst (noise_initiator_handshake H False isk pk []) = fst y"
          using i0 Inr m(4) by (cases y) (simp add: initiator_defs recv_nothing)
        ultimately show ?thesis by (intro e [OF Some]) (simp add: hs_recv_def opt_noise_def)
      qed
    qed
  qed (simp add: responder_defs)
qed

lemma initiator_unanswered: "\<exists>e. snd (noise_initiator_handshake H False isk pk []) = Inl e"
  by (auto simp: initiator_defs recv_nothing split: option.split sum.split)

text \<open>
  The probe over the network of listeners: it succeeds exactly for an IPv4 address where a relay
  listens whose public key is the expected one.
\<close>

lemma probe_exact:
  assumes "quic_ok L" "xk_ok P H" "xk_rejects P H" "listeners_ok L net" "build_client_endpoint L = Inr ep"
  shows "run_probe H L net timeout isk address pk = Inr () \<longleftrightarrow>
    (\<exists>ip s ssk. sa_ip address = V4 ip \<and> sa_port address \<noteq> 0 \<and> net address = Some (s, ssk) \<and> pk = x25519 P ssk x25519_base)"
    (is "?run \<longleftrightarrow> ?found")
proof -
  note f = endpoint_fields [of L DialPackets ep, simplified, OF assms(5)]
  let ?peer = "map_option fst (net address)"
  have unconnected: "\<not> ?run \<and> \<not> ?found" if "ql_connect L ep address SERVER_NAME ?peer = Inl e"
    "\<not> ?found" for e
    using that by (simp add: run_probe_def probe_liveness_def dial_packets_def assms(5))
  show ?thesis
  proof (cases "net address = None \<or> \<not> (\<exists>ip. sa_ip address = V4 ip) \<or> sa_port address = 0")
    case True
    then have "\<exists>e. ql_connect L ep address SERVER_NAME ?peer = Inl e"
      using assms(1) f family_refused [OF assms(1), of ep address] by (cases "sa_ip address") (auto simp: quic_ok_def)
    then show ?thesis using unconnected True by auto
  next
    case False
    then obtain ip s ssk where a: "sa_ip address = V4 ip" "sa_port address \<noteq> 0" "net address = Some (s, ssk)" by (metis option.exhaust surj_pair)
    then obtain listen where l: "build_server_endpoint L listen = Inr s" using assms(4) by (auto simp: listeners_ok_def)
    have c: "ql_connect L ep address SERVER_NAME (Some s) = Inr (Some MIXNET_ALPN)"
      using connect_single [OF assms(1) l _ _ _ _ a(1,2)] f server_alpn [OF l] by simp
    have sv: "select_service (Some MIXNET_ALPN) True True = ServePackets" using service_selected [of DialPackets True True] by simp
    have run: "?run \<longleftrightarrow> (\<exists>r. snd (noise_initiator_handshake H False isk pk
        (fst (noise_responder_handshake H False ssk (fst (noise_initiator_handshake H False isk pk []))))) = Inr r)"
      by (auto simp: run_probe_def probe_liveness_def dial_packets_def relay_answer_def assms(5) a(3) c sv case_prod_beta Let_def split: sum.split)
    show ?thesis
    proof (cases "pk = x25519 P ssk x25519_base")
      case True
      then show ?thesis unfolding run using xk_exchange [OF assms(2), of False isk ssk] a by auto
    next
      case ne: False
      then show ?thesis unfolding run xk_silence [OF assms(3) ne] using initiator_unanswered [of H isk pk] a by auto
    qed
  qed
qed

section \<open>Enrolment over the network\<close>

text \<open>The probes of an authority with the key \<open>isk\<close>, among the listeners.\<close>

definition network_probes :: "'h snow \<Rightarrow> quic_lib \<Rightarrow> listeners \<Rightarrow> nat \<Rightarrow> bytes \<Rightarrow> (sockaddr \<Rightarrow> bytes \<Rightarrow> bytes \<Rightarrow> bool option) \<Rightarrow> bool \<Rightarrow> probes" where
  "network_probes H L net timeout isk hosting permit =
     \<lparr>probe_relay_liveness = (\<lambda>address pk. run_probe H L net timeout isk address pk = Inr ()),
      probe_rendezvous_hosting = hosting, probe_permit = permit\<rparr>"

text \<open>
  C9: enrolment over the network. An authority that requires liveness enrols a directly reachable
  relay exactly when the request has the token, is within its rate, is newer than the last one and
  proves possession, a probe slot is free, and a relay with the secret of the enrolled key listens
  at the address, which has to be an IPv4 address: a relay with an IPv6 address passes validation
  but is never enrolled, since the probe is sent from an IPv4 socket.
\<close>

theorem enrolled_iff_answers:
  assumes "quic_ok L" and "xk_ok P H" and "xk_rejects P H" and "listeners_ok L net" and "build_client_endpoint L = Inr ep"
    and "st_require_liveness st" and "validate P e = Inr (Some address)"
  shows "(\<exists>att epoch. fst (enroll_handler P (network_probes H L net timeout isk hosting permit) st ip h e t1 t2 t3) = EnrollOk att epoch) \<longleftrightarrow>
    token_ok st h \<and> fst (rate_ok st ip t1) \<and> permit
    \<and> (\<forall>x. hm_get (st_registry st) (en_kem_hex e) = Some x \<longrightarrow> en_seq (reg_enrollment x) < en_seq e)
    \<and> possession P (st_pop_sk st) (st_accept_legacy_pop st) e
    \<and> (\<exists>v4 s ssk. sa_ip address = V4 v4 \<and> sa_port address \<noteq> 0 \<and> net address = Some (s, ssk)
         \<and> hex32 P (en_kem_hex e) = Some (x25519 P ssk x25519_base))"
proof -
  let ?Q = "network_probes H L net timeout isk hosting permit"
  have "liveness_check P ?Q st e (Some address) = None \<longleftrightarrow> possession P (st_pop_sk st) (st_accept_legacy_pop st) e \<and> permit
      \<and> (\<exists>pk. hex32 P (en_kem_hex e) = Some pk \<and> run_probe H L net timeout isk address pk = Inr ())"
    by (cases "hex32 P (en_kem_hex e)") (auto simp: liveness_check_def possession_def network_probes_def Let_def)
  then have "liveness_check P ?Q st e (Some address) = None \<longleftrightarrow> possession P (st_pop_sk st) (st_accept_legacy_pop st) e \<and> permit
      \<and> (\<exists>v4 s ssk. sa_ip address = V4 v4 \<and> sa_port address \<noteq> 0 \<and> net address = Some (s, ssk)
           \<and> hex32 P (en_kem_hex e) = Some (x25519 P ssk x25519_base))"
    unfolding probe_exact [OF assms(1-5)] by blast
  moreover have "(\<exists>att epoch. fst (enroll_handler P ?Q st ip h e t1 t2 t3) = EnrollOk att epoch) \<longleftrightarrow> entitled P ?Q st ip h e t1"
    using enroll_handler_cases [of P ?Q st ip h e t1 t2 t3] by (auto simp: Let_def)
  ultimately show ?thesis using assms(6,7) by (auto simp: entitled_def)
qed

subsection \<open>A concrete network\<close>

definition demo_xk :: "bytes snow" where
  "demo_xk = \<lparr>build_initiator = (\<lambda>params isk pk. Some pk), build_responder = (\<lambda>params ssk. Some (x25519 demo_prims ssk x25519_base)),
     hs_write = (\<lambda>h. if length h = 32 then Some (h, h) else None), hs_read = (\<lambda>h m. if m = h then Some h else None), hs_hash = id, hs_remote = (\<lambda>_. None),
     hs_split = (\<lambda>_. Some (demo_noise, demo_noise))\<rparr>"

lemma demo_xk_ok: "xk_ok demo_prims demo_xk" "xk_rejects demo_prims demo_xk"
  by (auto simp: xk_ok_def xk_rejects_def demo_xk_def sessions_ok_def demo_noise_ok MAX_HANDSHAKE_MSG_def split: if_splits)

definition demo_server :: server_endpoint where
  "demo_server = \<lparr>se_addr = \<lparr>sa_ip = V4 [0, 0, 0, 0], sa_port = 443\<rparr>, se_cert = [1], se_key = [2],
     se_alpn = [MIXNET_ALPN, MAILBOX_ALPN, GOSSIP_ALPN, RENDEZVOUS_ALPN, RENDEZVOUS_QUERY_ALPN]\<rparr>"

definition demo_listeners :: listeners where
  "demo_listeners = [\<lparr>sa_ip = V4 [97, 98, 99, 100], sa_port = 443\<rparr> \<mapsto> (demo_server, replicate 32 8)]"

theorem enrolled_iff_answers_witness:
  "(\<exists>att epoch. fst (enroll_handler demo_prims (network_probes demo_xk demo_quic demo_listeners 10 [9] (\<lambda>_ _ _. None) True) demo_app
      (V4 [1, 2, 3, 4]) None demo_request 1000 1000 1000) = EnrollOk att epoch)
   \<and> \<not> (\<exists>att epoch. fst (enroll_handler demo_prims (network_probes demo_xk demo_quic (\<lambda>_. None) 10 [9] (\<lambda>_ _ _. None) True) demo_app
      (V4 [1, 2, 3, 4]) None demo_request 1000 1000 1000) = EnrollOk att epoch)"
proof -
  have srv: "build_server_endpoint demo_quic \<lparr>sa_ip = V4 [0, 0, 0, 0], sa_port = 443\<rparr> = Inr demo_server"
    by (simp add: build_server_endpoint_def make_self_signed_cert_def demo_quic_def demo_server_def)
  have net: "listeners_ok demo_quic demo_listeners" "listeners_ok demo_quic (\<lambda>_. None)"
    using srv by (auto simp: listeners_ok_def demo_listeners_def split: if_splits)
  obtain ep where ep: "build_client_endpoint demo_quic = Inr ep" by (simp add: client_endpoint_defs demo_quic_def)
  have live: "st_require_liveness demo_app" by (simp add: demo_app_def)
  have "parse_sockaddr demo_prims ''abcd'' = Some \<lparr>sa_ip = V4 [97, 98, 99, 100], sa_port = 443\<rparr>"
    by (simp add: demo_prims_def ascii_byte_def)
  then have v: "validate demo_prims demo_request = Inr (Some \<lparr>sa_ip = V4 [97, 98, 99, 100], sa_port = 443\<rparr>)"
    using demo_validates by (auto simp: validate_def demo_request_fields split: option.splits if_splits)
  note ent = demo_entitled [unfolded entitled_def]
  have "possession demo_prims (st_pop_sk demo_app) (st_accept_legacy_pop demo_app) demo_request"
    using ent live liveness_possession by blast
  moreover have "hex32 demo_prims (en_kem_hex demo_request) = Some (x25519 demo_prims (replicate 32 8) x25519_base)"
    by (simp add: demo_request_fields demo_kem32)
  ultimately show ?thesis
    unfolding enrolled_iff_answers [OF demo_quic_ok demo_xk_ok net(1) ep live v] enrolled_iff_answers [OF demo_quic_ok demo_xk_ok net(2) ep live v]
    using ent by (auto simp: demo_listeners_def)
qed

end
