(* ===== verification/Relay_Daemon.thy ===== *)
theory Relay_Daemon
  imports Operator_Commands Enroll_Loop Restart Endpoints
begin

text \<open>
  The daemon of a relay: the command \<open>run\<close> of crypto-gotham-relay/src/main.rs from its options to
  the service, and the functions of crypto-gotham-relay/src/transport.rs that it serves with. The
  tasks that \<open>run\<close> spawns are a list, in the order in which they are started.
\<close>

section \<open>Options\<close>

text \<open>\<open>Cmd::Run\<close>.\<close>

record run_args =
  ra_key_file :: string
  ra_listen_port :: "16 word"
  ra_listen_host :: string
  ra_delay_micros :: nat
  ra_replay_size :: nat
  ra_replay_ttl_secs :: nat
  ra_replay_cache_path :: "string option"
  ra_strict_header_v3 :: bool
  ra_max_pps :: f64
  ra_max_bytes_per_day :: nat
  ra_authority_url :: "string option"
  ra_extra_authority_url :: "string list"
  ra_advertise_addr :: "string option"
  ra_no_upnp :: bool
  ra_rendezvous_key :: "string option"
  ra_rendezvous_addr :: "string option"
  ra_rendezvous_capable :: bool
  ra_authority_pop_key :: "string option"
  ra_enroll_token :: "string option"
  ra_tier :: string
  ra_country :: "string option"
  ra_operator :: "string option"
  ra_heartbeat_secs :: nat
  ra_mailbox :: bool
  ra_mailbox_store :: "string option"
  ra_allow_unauthenticated_mailbox_fetch :: bool
  ra_gossip :: bool
  ra_advert_key :: "string option"
  ra_admission_cert :: "string option"
  ra_authority_set :: "string option"
  ra_gossip_seeds :: "string list"
  ra_gossip_caps :: string
  ra_gossip_interval_secs :: nat

text \<open>The values of the options that are left out; only the key file has to be given.\<close>

definition run_args_default :: "string \<Rightarrow> run_args" where
  "run_args_default key_file =
     \<lparr>ra_key_file = key_file, ra_listen_port = 443, ra_listen_host = ''::'', ra_delay_micros = 500000, ra_replay_size = 1000000,
      ra_replay_ttl_secs = 300, ra_replay_cache_path = None, ra_strict_header_v3 = False, ra_max_pps = 2000, ra_max_bytes_per_day = 0,
      ra_authority_url = None, ra_extra_authority_url = [], ra_advertise_addr = None, ra_no_upnp = False, ra_rendezvous_key = None,
      ra_rendezvous_addr = None, ra_rendezvous_capable = False, ra_authority_pop_key = None, ra_enroll_token = None, ra_tier = ''mix'',
      ra_country = None, ra_operator = None, ra_heartbeat_secs = 300, ra_mailbox = False, ra_mailbox_store = None,
      ra_allow_unauthenticated_mailbox_fetch = False, ra_gossip = False, ra_advert_key = None, ra_admission_cert = None,
      ra_authority_set = None, ra_gossip_seeds = [], ra_gossip_caps = ''all'', ra_gossip_interval_secs = 60\<rparr>"

definition UPNP_LEASE_SECS :: nat where "UPNP_LEASE_SECS = 3600"

text \<open>
  The outside of a start: the libraries, what the router answers to the request for a port mapping
  (the port and the lease are its arguments), and the clocks.
\<close>

record run_env =
  rv_quic :: quic_lib
  rv_codec :: snap_codec
  rv_parse_ip :: "string \<Rightarrow> ipaddr option"
  rv_show_addr :: "sockaddr \<Rightarrow> string"
  rv_set_json :: "bytes \<Rightarrow> authority_set option"
  rv_cert_json :: "bytes \<Rightarrow> admission_cert option"
  rv_upnp :: "16 word \<Rightarrow> nat \<Rightarrow> nat_error + nat_mapping"
  rv_round :: "f64 \<Rightarrow> f64"
  rv_t1 :: nat
  rv_t2 :: nat
  rv_t3 :: nat
  rv_t4 :: nat
  rv_now :: nat
  rv_now_unix :: nat

section \<open>Start\<close>

datatype spawned =
    EnrollmentLoop loop_config
  | WatchOwnListing string "string list"
  | MailboxMaintenance "string option"
  | GossipLoop gossip_node nat
  | ReplayPersistence
  | RendezvousClient sockaddr bytes

definition options_of :: "run_args \<Rightarrow> relay_options" where
  "options_of a = \<lparr>ro_replay_size = ra_replay_size a, ro_replay_ttl_secs = ra_replay_ttl_secs a, ro_delay_micros = ra_delay_micros a,
     ro_max_pps = ra_max_pps a, ro_max_bytes_per_day = ra_max_bytes_per_day a, ro_strict_header_v3 = ra_strict_header_v3 a,
     ro_replay_cache_path = ra_replay_cache_path a\<rparr>"

definition run_relay :: "run_env \<Rightarrow> fs \<Rightarrow> run_args \<Rightarrow> bytes \<Rightarrow> relay" where
  "run_relay X fs a sk = start_relay (rv_round X) fs sk (options_of a) (rv_t1 X) (rv_t2 X) (rv_t3 X) (rv_t4 X) (rv_now X) (rv_now_unix X)"

text \<open>The key given with \<open>--authority-pop-key\<close>; text that is not such a key counts as no key.\<close>

definition pinned_pop_pk :: "prims \<Rightarrow> run_args \<Rightarrow> bytes option" where
  "pinned_pop_pk P a = (case ra_authority_pop_key a of None \<Rightarrow> None | Some h \<Rightarrow> hex32 P h)"

text \<open>What \<open>run\<close> spawns when an authority is given.\<close>

definition enrollment_tasks :: "prims \<Rightarrow> run_env \<Rightarrow> run_args \<Rightarrow> bytes \<Rightarrow> string \<Rightarrow> file_error + spawned list" where
  "enrollment_tasks P X a sk pk_hex =
     (case ra_authority_url a of
        None \<Rightarrow> Inr []
      | Some url \<Rightarrow>
          (case advertise_address P (rv_show_addr X) (ra_rendezvous_key a) (ra_advertise_addr a) (ra_no_upnp a)
                  (rv_upnp X (ra_listen_port a) UPNP_LEASE_SECS) of
             Inl e \<Rightarrow> Inl e
           | Inr advertise \<Rightarrow>
               (case parse_tier (ra_tier a) of
                  Inl other \<Rightarrow> Inl (OtherError other)
                | Inr t \<Rightarrow>
                    let cfg = \<lparr>lc_enroll = \<lparr>cfg_advertise_addr = advertise, cfg_kem_hex = pk_hex, cfg_tier = t, cfg_country = ra_country a,
                                 cfg_operator = ra_operator a, cfg_rendezvous = ra_rendezvous_key a,
                                 cfg_rendezvous_capable = ra_rendezvous_capable a, cfg_mailbox = ra_mailbox a, cfg_relay_sk = sk\<rparr>,
                          lc_authority_url = url, lc_extra_urls = ra_extra_authority_url a, lc_token = ra_enroll_token a,
                          lc_heartbeat = max (ra_heartbeat_secs a) 1, lc_authority_pop_pk = pinned_pop_pk P a,
                          lc_sink = ra_rendezvous_capable a\<rparr>
                    in Inr [EnrollmentLoop cfg, WatchOwnListing pk_hex (url # ra_extra_authority_url a)])))"

text \<open>What the daemon runs with.\<close>

datatype run_mode = Hosted sockaddr bytes | Listening sockaddr

record daemon =
  dm_sk :: bytes
  dm_relay :: relay
  dm_mailbox :: "mailbox option"
  dm_allow_unauth :: bool
  dm_delivery :: bool
  dm_gossip :: "gossip_node option"
  dm_queriers :: "bytes list"
  dm_mode :: run_mode

definition run_gossip :: "prims \<Rightarrow> run_env \<Rightarrow> fs \<Rightarrow> run_args \<Rightarrow> string \<Rightarrow> file_error + gossip_node option" where
  "run_gossip P X fs a pk_hex =
     (case build_gossip P (rv_set_json X) (rv_cert_json X) fs (ra_gossip a) pk_hex (ra_advertise_addr a) (ra_advert_key a) (ra_admission_cert a)
             (ra_authority_set a) (ra_gossip_seeds a) (ra_gossip_caps a) (rv_now_unix X) of
        Inr (Some node) \<Rightarrow>
          (case build_gossip_client_endpoint (rv_quic X) of Inl _ \<Rightarrow> Inl (InvalidInput ''gossip node'') | Inr _ \<Rightarrow> Inr (Some node))
      | r \<Rightarrow> r)"

text \<open>\<open>make_mailbox_service_handler\<close>, when a mailbox is hosted: whether there is a handler for deliveries.\<close>

definition make_mailbox_service_handler :: "quic_lib \<Rightarrow> bool \<Rightarrow> transport_error + bool" where
  "make_mailbox_service_handler L hosting =
     (if \<not> hosting then Inr False else case build_client_endpoint L of Inl e \<Rightarrow> Inl e | Inr reply_endpoint \<Rightarrow> Inr True)"

text \<open>
  \<open>Cmd::Run\<close> up to the service: the tasks it has spawned, and the daemon or the error it ends with.
\<close>

definition run_setup :: "prims \<Rightarrow> run_env \<Rightarrow> fs \<Rightarrow> run_args \<Rightarrow> spawned list \<times> (file_error + daemon)" where
  "run_setup P X fs a =
     (case read_key_file P fs (ra_key_file a) of
        Inl e \<Rightarrow> ([], Inl e)
      | Inr sk \<Rightarrow>
          let relay = run_relay X fs a sk;
              pk_hex = hex_encode P (identity_public_key P relay)
          in case enrollment_tasks P X a sk pk_hex of
               Inl e \<Rightarrow> ([], Inl e)
             | Inr enrol \<Rightarrow>
                 let mailbox = (if ra_mailbox a then Some (load_mailbox (rv_codec X) fs (ra_mailbox_store a) (rv_now_unix X)) else None);
                     tasks = enrol @ (if ra_mailbox a then [MailboxMaintenance (ra_mailbox_store a)] else [])
                 in case run_gossip P X fs a pk_hex of
                      Inl e \<Rightarrow> (tasks, Inl e)
                    | Inr gossip \<Rightarrow>
                        let tasks = tasks @ (case gossip of None \<Rightarrow> [] | Some node \<Rightarrow> [GossipLoop node (max (ra_gossip_interval_secs a) 5)])
                        in case make_mailbox_service_handler (rv_quic X) (ra_mailbox a) of
                             Inl _ \<Rightarrow> (tasks, Inl (OtherError ''transport''))
                           | Inr delivery \<Rightarrow>
                               (case rendezvous_dial P (ra_rendezvous_key a) (ra_rendezvous_addr a) of
                                  Inl e \<Rightarrow> (tasks, Inl e)
                                | Inr dial \<Rightarrow>
                                    (case parse_listen_addr (rv_parse_ip X) (ra_listen_host a) (ra_listen_port a) of
                                       Inl e \<Rightarrow> (tasks, Inl e)
                                     | Inr listen \<Rightarrow>
                                         (tasks, Inr \<lparr>dm_sk = sk, dm_relay = relay, dm_mailbox = mailbox,
                                            dm_allow_unauth = (ra_mailbox a \<and> ra_allow_unauthenticated_mailbox_fetch a),
                                            dm_delivery = delivery, dm_gossip = gossip, dm_queriers = querier_keys (pinned_pop_pk P a),
                                            dm_mode = (case dial of None \<Rightarrow> Listening listen | Some (r_addr, r_pk) \<Rightarrow> Hosted r_addr r_pk)\<rparr>))))"

section \<open>Service\<close>

text \<open>What a listener offers beside packets.\<close>

record services =
  sv_delivery :: bool
  sv_mailbox :: bool
  sv_gossip :: bool
  sv_queriers :: "bytes list option"

text \<open>A relay in service: its listening endpoint if it has one, the endpoint of its pool, the tasks it started.\<close>

record serving =
  sg_server :: "server_endpoint option"
  sg_client :: client_endpoint
  sg_services :: services
  sg_tasks :: "spawned list"

text \<open>The task of \<open>spawn_replay_persistence\<close> ends at once when the relay has no file.\<close>

definition spawn_replay_persistence :: "relay \<Rightarrow> spawned list" where
  "spawn_replay_persistence r = (if replay_path r = None then [] else [ReplayPersistence])"

definition serve_endpoint_with_services_shared :: "quic_lib \<Rightarrow> server_endpoint \<Rightarrow> relay \<Rightarrow> services \<Rightarrow> transport_error + serving" where
  "serve_endpoint_with_services_shared L endpoint r sv =
     (case build_client_endpoint L of
        Inl e \<Rightarrow> Inl e
      | Inr client \<Rightarrow> Inr \<lparr>sg_server = Some endpoint, sg_client = client, sg_services = sv, sg_tasks = spawn_replay_persistence r\<rparr>)"

definition serve_endpoint_with_services :: "quic_lib \<Rightarrow> server_endpoint \<Rightarrow> relay \<Rightarrow> services \<Rightarrow> transport_error + serving" where
  "serve_endpoint_with_services L endpoint r sv = serve_endpoint_with_services_shared L endpoint r sv"

definition serve_endpoint_with_mailbox :: "quic_lib \<Rightarrow> server_endpoint \<Rightarrow> relay \<Rightarrow> bool \<Rightarrow> bool \<Rightarrow> transport_error + serving" where
  "serve_endpoint_with_mailbox L endpoint r delivery mailbox =
     serve_endpoint_with_services L endpoint r \<lparr>sv_delivery = delivery, sv_mailbox = mailbox, sv_gossip = False, sv_queriers = None\<rparr>"

definition serve_endpoint :: "quic_lib \<Rightarrow> server_endpoint \<Rightarrow> relay \<Rightarrow> bool \<Rightarrow> transport_error + serving" where
  "serve_endpoint L endpoint r delivery =
     serve_endpoint_with_services L endpoint r \<lparr>sv_delivery = delivery, sv_mailbox = False, sv_gossip = False, sv_queriers = None\<rparr>"

definition run_relay_listener_with_services_shared :: "quic_lib \<Rightarrow> sockaddr \<Rightarrow> relay \<Rightarrow> services \<Rightarrow> transport_error + serving" where
  "run_relay_listener_with_services_shared L listen_addr r sv =
     (case build_server_endpoint L listen_addr of
        Inl e \<Rightarrow> Inl e
      | Inr server \<Rightarrow> serve_endpoint_with_services_shared L server r sv)"

definition run_relay_listener_with_services :: "quic_lib \<Rightarrow> sockaddr \<Rightarrow> relay \<Rightarrow> services \<Rightarrow> transport_error + serving" where
  "run_relay_listener_with_services L listen_addr r sv = run_relay_listener_with_services_shared L listen_addr r sv"

definition run_relay_listener_with_mailbox :: "quic_lib \<Rightarrow> sockaddr \<Rightarrow> relay \<Rightarrow> bool \<Rightarrow> bool \<Rightarrow> transport_error + serving" where
  "run_relay_listener_with_mailbox L listen_addr r delivery mailbox =
     run_relay_listener_with_services L listen_addr r \<lparr>sv_delivery = delivery, sv_mailbox = mailbox, sv_gossip = False, sv_queriers = None\<rparr>"

definition run_relay_listener :: "quic_lib \<Rightarrow> sockaddr \<Rightarrow> relay \<Rightarrow> bool \<Rightarrow> transport_error + serving" where
  "run_relay_listener L listen_addr r delivery = run_relay_listener_with_mailbox L listen_addr r delivery False"

text \<open>A relay behind a rendezvous point has no listener: what reaches it comes through the tunnel.\<close>

definition run_rendezvous_relay_shared :: "quic_lib \<Rightarrow> sockaddr \<Rightarrow> bytes \<Rightarrow> relay \<Rightarrow> bool \<Rightarrow> transport_error + serving" where
  "run_rendezvous_relay_shared L r_addr r_pk r delivery =
     (case build_client_endpoint L of
        Inl e \<Rightarrow> Inl e
      | Inr client \<Rightarrow>
          Inr \<lparr>sg_server = None, sg_client = client,
             sg_services = \<lparr>sv_delivery = delivery, sv_mailbox = False, sv_gossip = False, sv_queriers = None\<rparr>,
             sg_tasks = spawn_replay_persistence r @ [RendezvousClient r_addr r_pk]\<rparr>)"

definition run_rendezvous_relay :: "quic_lib \<Rightarrow> sockaddr \<Rightarrow> bytes \<Rightarrow> relay \<Rightarrow> bool \<Rightarrow> transport_error + serving" where
  "run_rendezvous_relay L r_addr r_pk r delivery = run_rendezvous_relay_shared L r_addr r_pk r delivery"

text \<open>The branch of \<open>Cmd::Run\<close> that serves.\<close>

definition run_serve :: "quic_lib \<Rightarrow> daemon \<Rightarrow> transport_error + serving" where
  "run_serve L d =
     (case dm_mode d of
        Hosted r_addr r_pk \<Rightarrow> run_rendezvous_relay_shared L r_addr r_pk (dm_relay d) (dm_delivery d)
      | Listening listen_addr \<Rightarrow>
          run_relay_listener_with_services_shared L listen_addr (dm_relay d)
            \<lparr>sv_delivery = dm_delivery d, sv_mailbox = (dm_mailbox d \<noteq> None), sv_gossip = (dm_gossip d \<noteq> None),
             sv_queriers = Some (dm_queriers d)\<rparr>)"

section \<open>What a started daemon offers\<close>

lemma run_setup_parts:
  assumes "run_setup P X fs a = (ts, Inr d)"
  obtains sk enrol gossip delivery dial listen
  where "read_key_file P fs (ra_key_file a) = Inr sk"
    and "enrollment_tasks P X a sk (hex_encode P (identity_public_key P (run_relay X fs a sk))) = Inr enrol"
    and "run_gossip P X fs a (hex_encode P (identity_public_key P (run_relay X fs a sk))) = Inr gossip"
    and "rendezvous_dial P (ra_rendezvous_key a) (ra_rendezvous_addr a) = Inr dial"
    and "parse_listen_addr (rv_parse_ip X) (ra_listen_host a) (ra_listen_port a) = Inr listen"
    and "ts = enrol @ (if ra_mailbox a then [MailboxMaintenance (ra_mailbox_store a)] else [])
           @ (case gossip of None \<Rightarrow> [] | Some node \<Rightarrow> [GossipLoop node (max (ra_gossip_interval_secs a) 5)])"
    and "d = \<lparr>dm_sk = sk, dm_relay = run_relay X fs a sk,
           dm_mailbox = (if ra_mailbox a then Some (load_mailbox (rv_codec X) fs (ra_mailbox_store a) (rv_now_unix X)) else None),
           dm_allow_unauth = (ra_mailbox a \<and> ra_allow_unauthenticated_mailbox_fetch a), dm_delivery = delivery, dm_gossip = gossip,
           dm_queriers = querier_keys (pinned_pop_pk P a),
           dm_mode = (case dial of None \<Rightarrow> Listening listen | Some (r_addr, r_pk) \<Rightarrow> Hosted r_addr r_pk)\<rparr>"
  using assms unfolding run_setup_def Let_def by (simp split: sum.splits) metis

lemma run_gossip_some: "run_gossip P X fs a pk = Inr gossip \<Longrightarrow> gossip \<noteq> None \<longleftrightarrow> ra_gossip a"
  by (simp add: run_gossip_def build_gossip_def split: sum.splits option.splits if_splits) auto

lemma run_setup_Inr:
  assumes "run_setup P X fs a = (ts, Inr d)"
  shows "read_key_file P fs (ra_key_file a) = Inr (dm_sk d)" "dm_relay d = run_relay X fs a (dm_sk d)"
    "dm_mailbox d = (if ra_mailbox a then Some (load_mailbox (rv_codec X) fs (ra_mailbox_store a) (rv_now_unix X)) else None)"
    "dm_gossip d \<noteq> None \<longleftrightarrow> ra_gossip a"
    "rendezvous_dial P (ra_rendezvous_key a) (ra_rendezvous_addr a) = Inr dial \<Longrightarrow>
       (case dial of None \<Rightarrow> \<exists>listen. dm_mode d = Listening listen \<and> sa_port listen = ra_listen_port a
        | Some (r_addr, r_pk) \<Rightarrow> dm_mode d = Hosted r_addr r_pk)"
    "\<exists>dial. rendezvous_dial P (ra_rendezvous_key a) (ra_rendezvous_addr a) = Inr dial"
proof -
  obtain sk gossip dial0 listen where p: "read_key_file P fs (ra_key_file a) = Inr sk"
    "run_gossip P X fs a (hex_encode P (identity_public_key P (run_relay X fs a sk))) = Inr gossip"
    "rendezvous_dial P (ra_rendezvous_key a) (ra_rendezvous_addr a) = Inr dial0"
    "parse_listen_addr (rv_parse_ip X) (ra_listen_host a) (ra_listen_port a) = Inr listen" "dm_sk d = sk"
    "dm_relay d = run_relay X fs a sk"
    "dm_mailbox d = (if ra_mailbox a then Some (load_mailbox (rv_codec X) fs (ra_mailbox_store a) (rv_now_unix X)) else None)"
    "dm_gossip d = gossip" "dm_mode d = (case dial0 of None \<Rightarrow> Listening listen | Some (r_addr, r_pk) \<Rightarrow> Hosted r_addr r_pk)"
    by (rule run_setup_parts [OF assms]) simp
  have "sa_port listen = ra_listen_port a" using p(4) by (auto simp: parse_listen_addr_def split: option.splits)
  then show "rendezvous_dial P (ra_rendezvous_key a) (ra_rendezvous_addr a) = Inr dial \<Longrightarrow>
       (case dial of None \<Rightarrow> \<exists>listen. dm_mode d = Listening listen \<and> sa_port listen = ra_listen_port a
        | Some (r_addr, r_pk) \<Rightarrow> dm_mode d = Hosted r_addr r_pk)"
    using p(3,9) by (cases dial) auto
  show "dm_gossip d \<noteq> None \<longleftrightarrow> ra_gossip a" using run_gossip_some [OF p(2)] p(8) by simp
  show "read_key_file P fs (ra_key_file a) = Inr (dm_sk d)" "dm_relay d = run_relay X fs a (dm_sk d)"
    "dm_mailbox d = (if ra_mailbox a then Some (load_mailbox (rv_codec X) fs (ra_mailbox_store a) (rv_now_unix X)) else None)"
    "\<exists>dial. rendezvous_dial P (ra_rendezvous_key a) (ra_rendezvous_addr a) = Inr dial" using p by simp_all
qed

lemma run_relay_fields:
  "identity_sk (run_relay X fs a sk) = sk" "replay_path (run_relay X fs a sk) = ra_replay_cache_path a"
  "rc_ttl (replay_cache (run_relay X fs a sk)) = ra_replay_ttl_secs a * NANOS"
  "rc_max_size (replay_cache (run_relay X fs a sk)) = ra_replay_size a" "cache_ok (run_relay X fs a sk)"
proof -
  show "cache_ok (run_relay X fs a sk)" unfolding run_relay_def by (rule cache_ok_start)
qed (auto simp: run_relay_def options_of_def start_relay_def Let_def relay_new_def with_rate_limit_def strict_header_v3_def
      with_replay_persistence_def persist_load_fields replay_new_def split: option.split)

lemma run_serve_listening:
  assumes "run_serve L d = Inr sg" "dm_mode d = Listening listen"
  obtains s where "build_server_endpoint L listen = Inr s" "sg_server sg = Some s" "sv_mailbox (sg_services sg) \<longleftrightarrow> dm_mailbox d \<noteq> None"
    "sv_gossip (sg_services sg) \<longleftrightarrow> dm_gossip d \<noteq> None" "\<exists>ep. build_client_endpoint L = Inr ep"
  using assms by (auto simp: run_serve_def run_relay_listener_with_services_shared_def serve_endpoint_with_services_shared_def split: sum.splits)

text \<open>
  C11: the options decide what a relay offers. A daemon that \<open>run\<close> has started without a rendezvous
  point listens at the port it was given, and a connection from any client endpoint of the program
  to an IPv4 address of it comes up and is handed to the service it is for: packets, tunnels and
  hosting queries always, mailboxes exactly with \<open>--mailbox\<close> and gossip exactly with \<open>--gossip\<close>, and
  is closed with the reason otherwise. One that is started with a rendezvous point has no listener,
  and its only task for inbound packets dials that point with the key that was given.
\<close>

theorem daemon_offers:
  assumes "quic_ok (rv_quic X)" and "run_setup P X fs a = (ts, Inr d)" and "run_serve (rv_quic X) d = Inr sg"
    and "endpoint_of (rv_quic X) dl = Inr ep" and "inflight < MAX_INFLIGHT_CONNS" and "sa_ip v4 = V4 ip" and "sa_port v4 \<noteq> 0"
  shows "case (ra_rendezvous_key a, ra_rendezvous_addr a) of
      (None, None) \<Rightarrow> \<exists>s alpn. sg_server sg = Some s \<and> sa_port (se_addr s) = ra_listen_port a
        \<and> ql_connect (rv_quic X) ep v4 SERVER_NAME (Some s) = Inr alpn
        \<and> accept_connection inflight (Some alpn) (sv_mailbox (sg_services sg)) (sv_gossip (sg_services sg))
            = (Some (service_for (ra_mailbox a) (ra_gossip a) dl), Suc inflight)
    | (Some k, Some v) \<Rightarrow> \<exists>r_addr r_pk. sg_server sg = None \<and> parse_sockaddr P v = Some r_addr \<and> hex32 P k = Some r_pk
        \<and> set (sg_tasks sg) = {RendezvousClient r_addr r_pk} \<union> (if ra_replay_cache_path a = None then {} else {ReplayPersistence})
    | _ \<Rightarrow> False"
proof -
  note u = run_setup_Inr [OF assms(2)]
  obtain dial where dl: "rendezvous_dial P (ra_rendezvous_key a) (ra_rendezvous_addr a) = Inr dial" using u(6) by blast
  show ?thesis
  proof (cases dial)
    case None
    with u(5) [OF dl] obtain listen where l: "dm_mode d = Listening listen" "sa_port listen = ra_listen_port a" by auto
    obtain s where s: "build_server_endpoint (rv_quic X) listen = Inr s" "sg_server sg = Some s"
      "sv_mailbox (sg_services sg) \<longleftrightarrow> dm_mailbox d \<noteq> None" "sv_gossip (sg_services sg) \<longleftrightarrow> dm_gossip d \<noteq> None"
      by (rule run_serve_listening [OF assms(3) l(1)])
    have "se_addr s = listen" using s(1) by (auto simp: build_server_endpoint_def split: sum.splits if_splits)
    moreover have "ra_rendezvous_key a = None \<and> ra_rendezvous_addr a = None"
      using dl None by (auto simp: rendezvous_dial_def split: option.splits)
    moreover have "sv_mailbox (sg_services sg) = ra_mailbox a" "sv_gossip (sg_services sg) = ra_gossip a" using s(3,4) u(3,4) by auto
    ultimately show ?thesis
      using dial_reaches_service [OF assms(1) s(1) assms(4-7), of "\<lparr>sa_ip = V6 [], sa_port = 0\<rparr>" "[]" "ra_mailbox a" "ra_gossip a"] s(2) l(2) by simp
  next
    case (Some r)
    then obtain r_addr r_pk where r: "r = (r_addr, r_pk)" by force
    have "replay_path (dm_relay d) = ra_replay_cache_path a" using u(2) by (simp add: run_relay_fields)
    moreover have "run_rendezvous_relay_shared (rv_quic X) r_addr r_pk (dm_relay d) (dm_delivery d) = Inr sg"
      using assms(3) u(5) [OF dl] Some r by (simp add: run_serve_def)
    ultimately show ?thesis using dl Some r
      by (auto simp: rendezvous_dial_def run_rendezvous_relay_shared_def spawn_replay_persistence_def split: option.splits sum.splits if_splits)
  qed
qed

section \<open>What a started daemon announces\<close>

lemma run_setup_enrollment:
  assumes "run_setup P X fs a = (ts, Inr d)" "EnrollmentLoop cfg \<in> set ts"
  shows "cfg_kem_hex (lc_enroll cfg) = hex_encode P (x25519 P (dm_sk d) x25519_base)" "cfg_relay_sk (lc_enroll cfg) = dm_sk d"
    "cfg_rendezvous (lc_enroll cfg) = ra_rendezvous_key a" "cfg_rendezvous_capable (lc_enroll cfg) = ra_rendezvous_capable a"
    "lc_authority_pop_pk cfg = pinned_pop_pk P a"
proof -
  obtain sk enrol where "enrollment_tasks P X a sk (hex_encode P (x25519 P sk x25519_base)) = Inr enrol" "EnrollmentLoop cfg \<in> set enrol" "dm_sk d = sk"
    by (rule run_setup_parts [OF assms(1)])
       (use assms(2) in \<open>auto simp: identity_public_key_def run_relay_fields split: if_splits option.splits\<close>)
  then show "cfg_kem_hex (lc_enroll cfg) = hex_encode P (x25519 P (dm_sk d) x25519_base)" "cfg_relay_sk (lc_enroll cfg) = dm_sk d"
    "cfg_rendezvous (lc_enroll cfg) = ra_rendezvous_key a" "cfg_rendezvous_capable (lc_enroll cfg) = ra_rendezvous_capable a"
    "lc_authority_pop_pk cfg = pinned_pop_pk P a"
    by (auto simp: enrollment_tasks_def Let_def split: sum.splits option.splits)
qed

lemma base_enrollment_fields:
  "en_kem_hex (base_enrollment c sq ep) = cfg_kem_hex c" "en_version (base_enrollment c sq ep) = ENROLL_VERSION"
  "en_rendezvous (base_enrollment c sq ep) = cfg_rendezvous c" "en_rendezvous_capable (base_enrollment c sq ep) = cfg_rendezvous_capable c"
  "en_addr (base_enrollment c sq ep) = (if cfg_rendezvous c = None then cfg_advertise_addr c else [])" "en_seq (base_enrollment c sq ep) = sq"
  by (auto simp: base_enrollment_def enrollment_new_def Let_def split: option.split)

text \<open>A key for \<open>--authority-pop-key\<close> that does not parse is taken as none: the authority's key is then the one it sends.\<close>

lemma mistyped_pop_key_unpinned:
  assumes "run_setup P X fs a = (ts, Inr d)" "EnrollmentLoop cfg \<in> set ts" "ra_authority_pop_key a = Some h" "hex32 P h = None"
  shows "\<forall>t \<in> set (make_targets cfg). pop_pk t = None \<and> \<not> pinned t"
  using run_setup_enrollment(5) [OF assms(1,2)] assms(3,4) by (auto simp: make_targets_def pinned_pop_pk_def)

text \<open>With \<open>--rendezvous-key\<close> and \<open>--rendezvous-capable\<close> the daemon starts, and every authority refuses its enrolments.\<close>

lemma hosted_and_capable_refused:
  assumes "hex_ok P" "run_setup P X fs a = (ts, Inr d)" "EnrollmentLoop cfg \<in> set ts" "ra_rendezvous_key a \<noteq> None" "ra_rendezvous_capable a"
  shows "validate P (base_enrollment (lc_enroll cfg) sq ep) = Inl (Directory ''a rendezvous-hosted relay cannot also be rendezvous_capable'')"
  using assms(1,4,5) by (auto simp: validate_def base_enrollment_fields run_setup_enrollment [OF assms(2,3)] hex_ok_def)

text \<open>
  C8: a relay that is started is enrolled. When \<open>run\<close> has started the enrolment loop and the
  listener, and the address it announces is an IPv4 address, neither unspecified nor a loopback
  address, at which its listener is reached, then the request that the loop makes with the key of
  the authority is accepted by an authority that probes the network: the authority's probe reaches
  the listener, which answers with the secret of the announced key. The token, the rate and the
  sequence number are those the authority requires.
\<close>

theorem daemon_gets_enrolled:
  assumes "quic_ok (rv_quic X)" and "xk_ok P H" and "xk_rejects P H" and "listeners_ok (rv_quic X) net" and "dh_ok P" and "hex_ok P"
    and "run_setup P X fs a = (ts, Inr d)" and "EnrollmentLoop cfg \<in> set ts" and "run_serve (rv_quic X) d = Inr sg" and "sg_server sg = Some s"
    and "parse_sockaddr P (cfg_advertise_addr (lc_enroll cfg)) = Some sa" and "sa_ip sa = V4 v4" and "sa_port sa \<noteq> 0"
    and "\<not> is_unspecified_ip (sa_ip sa)" and "\<not> is_loopback (sa_ip sa)" and "net sa = Some (s, dm_sk d)"
    and "token_ok st (bearer (lc_token cfg))" and "fst (rate_ok st ip now)"
    and "\<forall>x. hm_get (st_registry st) (cfg_kem_hex (lc_enroll cfg)) = Some x \<longrightarrow> en_seq (reg_enrollment x) < sq"
    and "e = attach_pop_proof P (base_enrollment (lc_enroll cfg) sq (current_attest_epoch now)) (lc_enroll cfg) (x25519 P (st_pop_sk st) x25519_base)"
    and "enroll_handler P (network_probes H (rv_quic X) net timeout isk hosting True) st ip (bearer (lc_token cfg)) e now now now = (reply, st')"
  shows "(\<exists>att epoch. reply = EnrollOk att epoch)
    \<and> (\<exists>x. hm_get (st_registry st') (hex_encode P (identity_public_key P (dm_relay d))) = Some x \<and> reg_enrollment x = e \<and> last_seen x = now)"
proof -
  let ?L = "rv_quic X" and ?c = "lc_enroll cfg" and ?Q = "network_probes H (rv_quic X) net timeout isk hosting True"
  let ?b = "base_enrollment ?c sq (current_attest_epoch now)" and ?pk = "x25519 P (dm_sk d) x25519_base"
  note c = run_setup_enrollment [OF assms(7,8)]
  have listening: "\<exists>listen. dm_mode d = Listening listen"
    using assms(9,10) by (cases "dm_mode d") (auto simp: run_serve_def run_rendezvous_relay_shared_def split: sum.splits)
  then obtain ep where ep: "build_client_endpoint ?L = Inr ep" using run_serve_listening [OF assms(9)] by blast
  have "ra_rendezvous_key a = None"
    using run_setup_Inr(5,6) [OF assms(7)] listening by (force simp: rendezvous_dial_def split: sum.splits option.splits)
  then have v: "validate P ?b = Inr (Some sa)"
    using assms(6,11,13-15) by (simp add: validate_def base_enrollment_fields c hex_ok_def)
  have kem: "hex32 P (cfg_kem_hex ?c) = Some ?pk" using assms(6) by (simp add: hex32_def c hex_ok_def)
  have "probe_relay_liveness ?Q sa ?pk"
    using probe_exact [OF assms(1-4) ep, of timeout isk sa ?pk] assms(12,13,16) by (simp add: network_probes_def)
  then have "willing P ?Q ip cfg ?b now st"
    using assms(17-19) v kem by (auto simp: willing_def base_enrollment_fields network_probes_def)
  moreover have "hex32 P (cfg_kem_hex ?c) = Some (x25519 P (cfg_relay_sk ?c) x25519_base)" using kem c(2) by simp
  ultimately have "entitled P ?Q st ip (bearer (lc_token cfg)) e now"
    unfolding assms(20) by (intro willing_entitled [OF assms(5,6)]) (simp_all add: base_enrollment_fields)
  then have h: "enroll_handler P ?Q st ip (bearer (lc_token cfg)) e now now now = (reply, st') \<Longrightarrow> ?thesis"
    using enroll_handler_cases [of P ?Q st ip "bearer (lc_token cfg)" e now now now, THEN conjunct1, rule_format]
    by (auto simp: Let_def assms(20) base_enrollment_fields c(1) identity_public_key_def run_setup_Inr(2) [OF assms(7)] run_relay_fields hm_simps)
  show ?thesis by (rule h [OF assms(21)])
qed

subsection \<open>A concrete daemon\<close>

definition demo_args :: run_args where
  "demo_args = (run_args_default ''relay.key'')\<lparr>ra_delay_micros := 1000, ra_replay_size := 1000, ra_max_pps := 0, ra_listen_host := ''0.0.0.0'',
     ra_replay_cache_path := Some ''replay.bin'', ra_mailbox := True, ra_mailbox_store := Some ''store/mailbox.db''\<rparr>"

definition demo_run_env :: "nat \<Rightarrow> nat \<Rightarrow> run_env" where
  "demo_run_env now now_unix = \<lparr>rv_quic = demo_quic, rv_codec = demo_snap_codec, rv_parse_ip = (\<lambda>_. Some (V4 [0, 0, 0, 0])), rv_show_addr = (\<lambda>_. []),
     rv_set_json = (\<lambda>_. None), rv_cert_json = (\<lambda>_. None), rv_upnp = (\<lambda>_ _. Inl NoGateway), rv_round = (\<lambda>x. x),
     rv_t1 = 0, rv_t2 = 0, rv_t3 = 0, rv_t4 = 0, rv_now = now, rv_now_unix = now_unix\<rparr>"

definition demo_daemon_fs :: fs where
  "demo_daemon_fs = [''relay.key'' \<mapsto> replicate 32 8]"

lemma demo_setup:
  assumes "fs ''relay.key'' = Some (replicate 32 8)"
  shows "\<exists>ts d. run_setup demo_prims (demo_run_env now u) fs demo_args = (ts, Inr d)"
proof -
  have "read_key_file demo_prims fs (ra_key_file demo_args) = Inr (replicate 32 8)"
    using assms by (simp add: read_key_file_def demo_args_def run_args_default_def text_of_def trim_def is_space_def demo_prims_def ascii_byte_def)
  moreover have "enrollment_tasks demo_prims X demo_args sk pk = Inr []" for X sk pk
    by (simp add: enrollment_tasks_def demo_args_def run_args_default_def)
  moreover have "run_gossip demo_prims X fs demo_args pk = Inr None" for X pk
    by (simp add: run_gossip_def build_gossip_def demo_args_def run_args_default_def)
  moreover have "make_mailbox_service_handler demo_quic h = Inr h" for h
    by (simp add: make_mailbox_service_handler_def client_endpoint_defs demo_quic_def)
  moreover have "rendezvous_dial demo_prims (ra_rendezvous_key demo_args) (ra_rendezvous_addr demo_args) = Inr None"
    by (simp add: rendezvous_dial_def demo_args_def run_args_default_def)
  ultimately show ?thesis
    by (simp add: run_setup_def Let_def demo_run_env_def parse_listen_addr_def)
qed

theorem daemon_offers_witness:
  "\<exists>ts d sg s ep alpn. run_setup demo_prims (demo_run_env 0 0) demo_daemon_fs demo_args = (ts, Inr d) \<and> run_serve demo_quic d = Inr sg
     \<and> endpoint_of demo_quic DialMailbox = Inr ep \<and> sg_server sg = Some s
     \<and> ql_connect demo_quic ep \<lparr>sa_ip = V4 [1, 2, 3, 4], sa_port = 443\<rparr> SERVER_NAME (Some s) = Inr alpn
     \<and> accept_connection 5 (Some alpn) (sv_mailbox (sg_services sg)) (sv_gossip (sg_services sg)) = (Some ServeMailbox, 6)"
proof -
  let ?X = "demo_run_env 0 0"
  obtain ts d where d: "run_setup demo_prims ?X demo_daemon_fs demo_args = (ts, Inr d)" using demo_setup by (force simp: demo_daemon_fs_def)
  have a: "ra_rendezvous_key demo_args = None" "ra_rendezvous_addr demo_args = None" "ra_mailbox demo_args"
    by (simp_all add: demo_args_def run_args_default_def)
  have q: "rv_quic ?X = demo_quic" by (simp add: demo_run_env_def)
  obtain listen where l: "dm_mode d = Listening listen" using run_setup_Inr(5) [OF d, of None] a by (auto simp: rendezvous_dial_def)
  then obtain sg where sg: "run_serve demo_quic d = Inr sg"
    by (simp add: run_serve_def run_relay_listener_with_services_shared_def serve_endpoint_with_services_shared_def build_server_endpoint_def
        make_self_signed_cert_def client_endpoint_defs demo_quic_def)
  obtain ep where ep: "endpoint_of demo_quic DialMailbox = Inr ep" by (simp add: client_endpoint_defs demo_quic_def)
  from daemon_offers [OF _ d, unfolded q, OF demo_quic_ok sg ep, of 5 "\<lparr>sa_ip = V4 [1, 2, 3, 4], sa_port = 443\<rparr>"] a
  show ?thesis using d sg ep by (auto simp: MAX_INFLIGHT_CONNS_def)
qed

definition demo_enroll_args :: run_args where
  "demo_enroll_args = demo_args\<lparr>ra_authority_url := Some ''http://a'', ra_advertise_addr := Some ''abcd''\<rparr>"

lemma demo_enroll_setup:
  "\<exists>ts d cfg. run_setup demo_prims (demo_run_env 0 0) demo_daemon_fs demo_enroll_args = (ts, Inr d) \<and> EnrollmentLoop cfg \<in> set ts
     \<and> lc_token cfg = None \<and> cfg_advertise_addr (lc_enroll cfg) = ''abcd'' \<and> dm_sk d = replicate 32 8
     \<and> dm_mode d = Listening \<lparr>sa_ip = V4 [0, 0, 0, 0], sa_port = 443\<rparr>"
proof -
  have k: "read_key_file demo_prims demo_daemon_fs (ra_key_file demo_enroll_args) = Inr (replicate 32 8)"
    by (simp add: read_key_file_def demo_enroll_args_def demo_args_def run_args_default_def demo_daemon_fs_def text_of_def trim_def is_space_def
        demo_prims_def ascii_byte_def)
  have e: "\<exists>cfg. enrollment_tasks demo_prims (demo_run_env 0 0) demo_enroll_args sk pk
        = Inr [EnrollmentLoop cfg, WatchOwnListing pk [''http://a'']] \<and> lc_token cfg = None \<and> cfg_advertise_addr (lc_enroll cfg) = ''abcd''" for sk pk
    by (simp add: enrollment_tasks_def demo_enroll_args_def demo_args_def run_args_default_def advertise_address_def demo_prims_def
        parse_tier_def trim_def is_space_def to_ascii_lower_def Let_def)
  then obtain cfg where cfg: "enrollment_tasks demo_prims (demo_run_env 0 0) demo_enroll_args (replicate 32 8)
      (hex_encode demo_prims (identity_public_key demo_prims (run_relay (demo_run_env 0 0) demo_daemon_fs demo_enroll_args (replicate 32 8))))
        = Inr [EnrollmentLoop cfg, WatchOwnListing (hex_encode demo_prims (identity_public_key demo_prims
            (run_relay (demo_run_env 0 0) demo_daemon_fs demo_enroll_args (replicate 32 8)))) [''http://a'']]"
    "lc_token cfg = None" "cfg_advertise_addr (lc_enroll cfg) = ''abcd''" by blast
  have g: "run_gossip demo_prims (demo_run_env 0 0) demo_daemon_fs demo_enroll_args pk = Inr None" for pk
    by (simp add: run_gossip_def build_gossip_def demo_enroll_args_def demo_args_def run_args_default_def)
  have m: "make_mailbox_service_handler (rv_quic (demo_run_env 0 0)) h = Inr h" for h
    by (simp add: make_mailbox_service_handler_def client_endpoint_defs demo_run_env_def demo_quic_def)
  have r: "rendezvous_dial demo_prims (ra_rendezvous_key demo_enroll_args) (ra_rendezvous_addr demo_enroll_args) = Inr None"
    "parse_listen_addr (rv_parse_ip (demo_run_env 0 0)) (ra_listen_host demo_enroll_args) (ra_listen_port demo_enroll_args)
       = Inr \<lparr>sa_ip = V4 [0, 0, 0, 0], sa_port = 443\<rparr>"
    by (simp_all add: rendezvous_dial_def parse_listen_addr_def demo_enroll_args_def demo_args_def run_args_default_def demo_run_env_def)
  show ?thesis using cfg(2,3) by (simp add: run_setup_def k cfg(1) g m r Let_def)
qed

theorem daemon_gets_enrolled_witness:
  "\<exists>ts d cfg att epoch. run_setup demo_prims (demo_run_env 0 0) demo_daemon_fs demo_enroll_args = (ts, Inr d) \<and> EnrollmentLoop cfg \<in> set ts
     \<and> fst (enroll_handler demo_prims (network_probes demo_xk demo_quic demo_listeners 10 [9] (\<lambda>_ _ _. None) True) demo_app (V4 [1, 2, 3, 4]) None
         (attach_pop_proof demo_prims (base_enrollment (lc_enroll cfg) 7 (current_attest_epoch 1000)) (lc_enroll cfg)
            (x25519 demo_prims (replicate 32 16) x25519_base)) 1000 1000 1000) = EnrollOk att epoch"
proof -
  let ?X = "demo_run_env 0 0"
  obtain ts d cfg where d: "run_setup demo_prims ?X demo_daemon_fs demo_enroll_args = (ts, Inr d)" "EnrollmentLoop cfg \<in> set ts"
    "lc_token cfg = None" "cfg_advertise_addr (lc_enroll cfg) = ''abcd''" "dm_sk d = replicate 32 8"
    "dm_mode d = Listening \<lparr>sa_ip = V4 [0, 0, 0, 0], sa_port = 443\<rparr>" using demo_enroll_setup by blast
  have q: "rv_quic ?X = demo_quic" by (simp add: demo_run_env_def)
  have srv: "build_server_endpoint demo_quic \<lparr>sa_ip = V4 [0, 0, 0, 0], sa_port = 443\<rparr> = Inr demo_server"
    by (simp add: build_server_endpoint_def make_self_signed_cert_def demo_quic_def demo_server_def)
  then obtain sg where sg: "run_serve demo_quic d = Inr sg" "sg_server sg = Some demo_server" using d(6)
    by (simp add: run_serve_def run_relay_listener_with_services_shared_def serve_endpoint_with_services_shared_def client_endpoint_defs)
      (simp add: demo_quic_def)
  have net: "listeners_ok demo_quic demo_listeners" using srv by (auto simp: listeners_ok_def demo_listeners_def split: if_splits)
  let ?sa = "\<lparr>sa_ip = V4 [97, 98, 99, 100], sa_port = 443\<rparr>"
  have addr: "parse_sockaddr demo_prims (cfg_advertise_addr (lc_enroll cfg)) = Some ?sa" by (simp add: d(4) demo_prims_def ascii_byte_def)
  have app: "token_ok demo_app (bearer (lc_token cfg))" "fst (rate_ok demo_app (V4 [1, 2, 3, 4]) 1000)"
    "st_registry demo_app = []" "st_pop_sk demo_app = replicate 32 16" "bearer (lc_token cfg) = None"
    by (simp_all add: d(3) bearer_def token_ok_def rate_ok_def demo_app_def RATE_MAP_MAX_def hm_simps)
  obtain reply st' where h: "enroll_handler demo_prims (network_probes demo_xk demo_quic demo_listeners 10 [9] (\<lambda>_ _ _. None) True) demo_app (V4 [1, 2, 3, 4])
      (bearer (lc_token cfg)) (attach_pop_proof demo_prims (base_enrollment (lc_enroll cfg) 7 (current_attest_epoch 1000)) (lc_enroll cfg)
         (x25519 demo_prims (st_pop_sk demo_app) x25519_base)) 1000 1000 1000 = (reply, st')" by force
  from daemon_gets_enrolled [OF _ demo_xk_ok _ demo_dh_ok demo_hex_ok d(1,2), unfolded q, OF demo_quic_ok net sg addr _ _ _ _ _ app(1,2) _ refl h]
  have "\<exists>att epoch. reply = EnrollOk att epoch"
    by (simp add: is_unspecified_ip_def is_loopback_def demo_listeners_def d(5) app(3) hm_simps)
  then show ?thesis using d(1,2) h unfolding app(4,5) by (metis fst_conv)
qed

end
