(* ===== verification/Mailbox_Service.thy ===== *)
theory Mailbox_Service
  imports Mailbox_Correct Surb Noise_Framing
begin

text \<open>
  The mailbox protocol: the requests and responses of crypto-gotham/src/mailbox.rs, the request
  handlers of crypto-gotham-relay/src/transport.rs, and the client's fetch loop of
  crypto-gotham-relay/src/mailbox_client.rs. The serialisation (\<open>rmp_serde\<close>) is a parameter;
  the framing of the messages over a Noise session is the theory \<open>Noise_Framing\<close>.
\<close>

section \<open>Requests and responses\<close>

datatype mailbox_request =
    Deposit bytes bytes nat
  | Fetch bytes "fetch_auth option"
  | FetchWithSurb bytes bytes "fetch_auth option"

datatype mailbox_wire_error = WTooLarge | WMailboxFull | WStoreFull | WMalformed | WUnauthorized | WRateLimited

datatype mailbox_response = Ack | Delivery "bytes list" bool | WireError mailbox_wire_error

fun from_deposit_error :: "deposit_error \<Rightarrow> mailbox_wire_error" where
  "from_deposit_error TooLarge = WTooLarge"
| "from_deposit_error MailboxFull = WMailboxFull"
| "from_deposit_error StoreFull = WStoreFull"

record wire =
  req_to_bytes :: "mailbox_request \<Rightarrow> bytes option"
  req_from_bytes :: "bytes \<Rightarrow> mailbox_request option"
  resp_to_bytes :: "mailbox_response \<Rightarrow> bytes option"
  resp_from_bytes :: "bytes \<Rightarrow> mailbox_response option"
  surb_from_bytes :: "bytes \<Rightarrow> surb option"

text \<open>
  MessagePack as \<open>rmp_serde\<close> writes it: it reads what it wrote, a request for a fetch is short,
  and a delivery takes at most two bytes per byte, five per message and 64 more.
\<close>

definition wire_ok :: "wire \<Rightarrow> bool" where
  "wire_ok W \<longleftrightarrow>
     (\<forall>r. \<exists>b. req_to_bytes W r = Some b \<and> req_from_bytes W b = Some r)
     \<and> (\<forall>r. \<exists>b. resp_to_bytes W r = Some b \<and> resp_from_bytes W b = Some r)
     \<and> (\<forall>mid a b. req_to_bytes W (Fetch mid (Some a)) = Some b \<longrightarrow> length mid = 32 \<longrightarrow> length (auth_pk a) = 32
          \<longrightarrow> length (auth_tag a) = 32 \<longrightarrow> length b \<le> 1024)
     \<and> (\<forall>ms again b. resp_to_bytes W (Delivery ms again) = Some b \<longrightarrow>
          length b \<le> 2 * length (concat ms) + 5 * length ms + 64)"

section \<open>The host\<close>

definition MAILBOX_FETCH_BUDGET :: nat where "MAILBOX_FETCH_BUDGET = 1024 * 1024"
definition SURB_FETCH_BUDGET :: nat where "SURB_FETCH_BUDGET = MAX_PAYLOAD_SIZE - 256"
definition MAX_MAILBOX_REQUESTS_PER_CONN :: nat where "MAX_MAILBOX_REQUESTS_PER_CONN = 512"

text \<open>
  The answer to one request in \<open>serve_mailbox_connection\<close>: the clock is read once to check a
  proof and once to serve the request.
\<close>

definition serve_request :: "prims \<Rightarrow> wire \<Rightarrow> bytes \<Rightarrow> bytes \<Rightarrow> bool \<Rightarrow> nat \<Rightarrow> nat \<Rightarrow> mailbox \<Rightarrow> bytes \<Rightarrow> mailbox_response \<times> mailbox" where
  "serve_request P W static_sk binding allow_unauth t_auth now m blob =
     (case req_from_bytes W blob of
        None \<Rightarrow> (WireError WMalformed, m)
      | Some (Deposit mid msg ttl) \<Rightarrow>
          (case deposit m mid msg now ttl of
             (Inr _, m') \<Rightarrow> (Ack, m')
           | (Inl e, m') \<Rightarrow> (WireError (from_deposit_error e), m'))
      | Some (Fetch mid auth) \<Rightarrow>
          (case auth of
             Some a \<Rightarrow>
               if verify_at P a (x25519 P static_sk (auth_pk a)) binding mid t_auth
               then (case fetch_batch m mid now MAILBOX_FETCH_BUDGET of ((batch, again), m') \<Rightarrow> (Delivery batch again, m'))
               else (WireError WUnauthorized, m)
           | None \<Rightarrow>
               if allow_unauth
               then (case fetch_batch m mid now MAILBOX_FETCH_BUDGET of ((batch, again), m') \<Rightarrow> (Delivery batch again, m'))
               else (WireError WUnauthorized, m))
      | Some (FetchWithSurb _ _ _) \<Rightarrow> (WireError WMalformed, m))"

text \<open>
  One turn of the connection loop after \<open>served\<close> requests: the bytes written back (none when
  writing fails), whether the connection goes on, and the store.
\<close>

definition serve_turn :: "prims \<Rightarrow> wire \<Rightarrow> bytes \<Rightarrow> bytes \<Rightarrow> bool \<Rightarrow> nat \<Rightarrow> nat \<Rightarrow> nat \<Rightarrow> mailbox \<Rightarrow> bytes
    \<Rightarrow> bytes option \<times> bool \<times> mailbox" where
  "serve_turn P W static_sk binding allow_unauth served t_auth now m blob =
     (if MAX_MAILBOX_REQUESTS_PER_CONN < served + 1
      then (resp_to_bytes W (WireError WRateLimited), False, m)
      else case serve_request P W static_sk binding allow_unauth t_auth now m blob of
        (resp, m') \<Rightarrow>
          (case resp_to_bytes W resp of
             None \<Rightarrow> (None, False, m')
           | Some b \<Rightarrow> if MAX_MAILBOX_FRAME < length b then (None, False, m') else (Some b, True, m')))"

text \<open>
  \<open>make_mailbox_deposit_handler\<close> and \<open>make_mailbox_service_handler\<close>: what a delivery at the
  host does to the store, and the reply it ships. \<open>sent\<close> says whether the transport took it.
\<close>

definition mailbox_deposit_delivery :: "prims \<Rightarrow> wire \<Rightarrow> bytes \<Rightarrow> nat \<Rightarrow> mailbox \<Rightarrow> bytes \<Rightarrow> mailbox" where
  "mailbox_deposit_delivery P W host_sk now m pl =
     (case unseal_delivery P host_sk pl of
        None \<Rightarrow> m
      | Some (_, body) \<Rightarrow>
          (case req_from_bytes W body of
             Some (Deposit mid msg ttl) \<Rightarrow> snd (deposit m mid msg now ttl)
           | _ \<Rightarrow> m))"

definition mailbox_service_delivery :: "prims \<Rightarrow> wire \<Rightarrow> bytes \<Rightarrow> nat \<Rightarrow> nat \<Rightarrow> bool \<Rightarrow> mailbox \<Rightarrow> bytes
    \<Rightarrow> (((bytes \<times> 16 word) \<times> bytes) \<times> bytes) option \<times> mailbox" where
  "mailbox_service_delivery P W host_sk t_auth now sent m pl =
     (case unseal_delivery P host_sk pl of
        None \<Rightarrow> (None, m)
      | Some (_, body) \<Rightarrow>
          (case req_from_bytes W body of
             Some (Deposit mid msg ttl) \<Rightarrow> (None, snd (deposit m mid msg now ttl))
           | Some (FetchWithSurb mid surb_bytes auth) \<Rightarrow>
               (case auth of
                  None \<Rightarrow> (None, m)
                | Some a \<Rightarrow>
                    if \<not> verify_at P a (x25519 P host_sk (auth_pk a)) (surb_fetch_binding P surb_bytes) mid t_auth then (None, m)
                    else case surb_from_bytes W surb_bytes of
                      None \<Rightarrow> (None, m)
                    | Some s \<Rightarrow>
                        (case fetch_batch m mid now SURB_FETCH_BUDGET of
                           ((batch, again), m') \<Rightarrow>
                             if batch = [] then (None, m')
                             else let ship = (case resp_to_bytes W (Delivery batch again) of
                                        None \<Rightarrow> None
                                      | Some b \<Rightarrow> (case ship_surb_reply P s b of
                                            Inl _ \<Rightarrow> None
                                          | Inr out \<Rightarrow> if sent then Some out else None))
                                  in case ship of
                                       Some out \<Rightarrow> (Some out, m')
                                     | None \<Rightarrow> (None, fold (\<lambda>env m. snd (deposit m mid env now 0)) batch m')))
           | _ \<Rightarrow> (None, m)))"

section \<open>The client\<close>

definition MAX_FETCH_ROUNDS :: nat where "MAX_FETCH_ROUNDS = 64"
definition MAX_FETCH_TOTAL_BYTES :: nat where "MAX_FETCH_TOTAL_BYTES = 96 * 1024 * 1024"

datatype mailbox_client_error = ClientTransport | ClientWire mailbox_wire_error | ClientUnexpected

text \<open>
  The loop of \<open>fetch_all\<close>, with the rounds that remain; \<open>serve k\<close> is what the host does with
  the \<open>k\<close>-th request of the connection.
\<close>

fun fetch_loop :: "wire \<Rightarrow> (nat \<Rightarrow> 'h \<Rightarrow> bytes \<Rightarrow> bytes option \<times> 'h) \<Rightarrow> bytes \<Rightarrow> fetch_auth \<Rightarrow> nat \<Rightarrow> nat \<Rightarrow> nat \<Rightarrow> bytes list \<Rightarrow> 'h
    \<Rightarrow> (mailbox_client_error + bytes list) \<times> 'h" where
  "fetch_loop W serve mid auth 0 k total_bytes acc h = (Inl ClientUnexpected, h)"
| "fetch_loop W serve mid auth (Suc rounds) k total_bytes acc h =
     (case req_to_bytes W (Fetch mid (Some auth)) of
        None \<Rightarrow> (Inl (ClientWire WMalformed), h)
      | Some blob \<Rightarrow>
          if MAX_MAILBOX_FRAME < length blob then (Inl ClientTransport, h)
          else case serve k h blob of
            (None, h') \<Rightarrow> (Inl ClientTransport, h')
          | (Some bytes, h') \<Rightarrow>
              (case resp_from_bytes W bytes of
                 None \<Rightarrow> (Inl (ClientWire WMalformed), h')
               | Some (Delivery ms again) \<Rightarrow>
                   if again \<and> ms = [] then (Inl ClientUnexpected, h')
                   else let tot = sat_add total_bytes (sum_list (map length ms))
                        in if MAX_FETCH_TOTAL_BYTES < tot then (Inl ClientUnexpected, h')
                           else if \<not> again then (Inr (acc @ ms), h')
                           else fetch_loop W serve mid auth rounds (Suc k) tot (acc @ ms) h'
               | Some (WireError e) \<Rightarrow> (Inl (ClientWire e), h')
               | Some Ack \<Rightarrow> (Inl ClientUnexpected, h')))"

definition fetch_all :: "prims \<Rightarrow> wire \<Rightarrow> (nat \<Rightarrow> 'h \<Rightarrow> bytes \<Rightarrow> bytes option \<times> 'h) \<Rightarrow> bytes \<Rightarrow> bytes \<Rightarrow> bytes \<Rightarrow> bytes \<Rightarrow> 'h
    \<Rightarrow> (mailbox_client_error + bytes list) \<times> 'h" where
  "fetch_all P W serve relay_pk binding mid my_sk h =
     fetch_loop W serve mid (fetch_auth_for P my_sk relay_pk binding mid) MAX_FETCH_ROUNDS 0 0 [] h"

definition client_deposit :: "wire \<Rightarrow> ('h \<Rightarrow> bytes \<Rightarrow> bytes option \<times> 'h) \<Rightarrow> bytes \<Rightarrow> bytes \<Rightarrow> nat \<Rightarrow> 'h
    \<Rightarrow> (mailbox_client_error + unit) \<times> 'h" where
  "client_deposit W serve mid msg ttl h =
     (case req_to_bytes W (Deposit mid msg ttl) of
        None \<Rightarrow> (Inl (ClientWire WMalformed), h)
      | Some blob \<Rightarrow>
          if MAX_MAILBOX_FRAME < length blob then (Inl ClientTransport, h)
          else case serve h blob of
            (None, h') \<Rightarrow> (Inl ClientTransport, h')
          | (Some bytes, h') \<Rightarrow>
              (case resp_from_bytes W bytes of
                 None \<Rightarrow> (Inl (ClientWire WMalformed), h')
               | Some Ack \<Rightarrow> (Inr (), h')
               | Some (WireError e) \<Rightarrow> (Inl (ClientWire e), h')
               | Some (Delivery _ _) \<Rightarrow> (Inl ClientUnexpected, h')))"

section \<open>A fetch brings everything\<close>

text \<open>The host's side of a connection as the client's loop sees it.\<close>

definition host_serve :: "prims \<Rightarrow> wire \<Rightarrow> bytes \<Rightarrow> bytes \<Rightarrow> bool \<Rightarrow> (nat \<Rightarrow> nat) \<Rightarrow> nat \<Rightarrow> mailbox \<Rightarrow> bytes \<Rightarrow> bytes option \<times> mailbox" where
  "host_serve P W static_sk binding allow_unauth clock k m blob =
     (case serve_turn P W static_sk binding allow_unauth k (clock k) (clock k) m blob of (b, _, m') \<Rightarrow> (b, m'))"

lemma batch_loop_stops:
  "batch_loop limit first used es = (batch, used', e # rest) \<Longrightarrow> limit < used' + length (sealed e)"
  by (induction limit first used es arbitrary: batch rule: batch_loop.induct)
    (auto split: if_splits prod.splits)

lemma entries_bytes_concat: "entries_bytes v = length (concat (map sealed v))"
  by (induction v) simp_all

text \<open>A batch of a box of which nothing has expired.\<close>

lemma fetch_batch_live:
  assumes "mailbox_inv m" "\<forall>e \<in> set (box m mid). now < expires_at e" "fetch_batch m mid now bud = ((batch, again), m')"
  shows "map sealed (box m mid) = batch @ map sealed (box m' mid)" "set (box m' mid) \<subseteq> set (box m mid)"
    "again \<longleftrightarrow> box m' mid \<noteq> []" "box m mid \<noteq> [] \<Longrightarrow> batch \<noteq> []"
    "again \<Longrightarrow> \<forall>e \<in> set (box m mid). length (sealed e) \<le> M \<Longrightarrow> bud < length (concat batch) + M"
proof -
  have live: "live_entries now (box m mid) = box m mid" using assms(2) by (simp add: live_entries_def)
  obtain u rest where l: "batch_loop bud True 0 (box m mid) = (batch, u, rest)" "again = (rest \<noteq> [])" "box m' mid = rest"
  proof (cases "hm_get (boxes m) mid")
    case None
    then show ?thesis using assms(3) that by (auto simp: fetch_batch_def box_def)
  next
    case (Some v)
    obtain b u r where l: "batch_loop bud True 0 v = (b, u, r)" by (cases "batch_loop bud True 0 v") auto
    have v: "box m mid = v" using Some by (simp add: box_def)
    with Some live l assms(3) have "batch = b" "again = (r \<noteq> [])" "box m' mid = r"
      by (auto simp: fetch_batch_def box_def hm_simps)
    with l v show ?thesis using that by blast
  qed
  from batch_loop_props [OF l(1)] obtain ts where ts: "box m mid = ts @ rest" "batch = map sealed ts" "u = 0 + entries_bytes ts"
    "True \<and> box m mid \<noteq> [] \<longrightarrow> ts \<noteq> []" by blast
  show "map sealed (box m mid) = batch @ map sealed (box m' mid)" "set (box m' mid) \<subseteq> set (box m mid)"
    unfolding l(3) ts(1,2) by simp_all
  show "again \<longleftrightarrow> box m' mid \<noteq> []" using l by simp
  show "box m mid \<noteq> [] \<Longrightarrow> batch \<noteq> []" using ts(2,4) by simp
  assume "again" and M: "\<forall>e \<in> set (box m mid). length (sealed e) \<le> M"
  then obtain e r where r: "rest = e # r" using l(2) by (cases rest) auto
  then have "bud < u + length (sealed e)" using batch_loop_stops l(1) by blast
  moreover have "length (sealed e) \<le> M" using M ts(1) r by simp
  ultimately show "bud < length (concat batch) + M" using ts by (simp add: entries_bytes_concat)
qed

lemma serve_fetch:
  assumes "wire_ok W" "verify_at P a (x25519 P sk (auth_pk a)) binding mid (clock k)" "length mid = 32" "length (auth_pk a) = 32 \<and> length (auth_tag a) = 32" "k < MAX_MAILBOX_REQUESTS_PER_CONN"
    "fetch_batch m mid (clock k) MAILBOX_FETCH_BUDGET = ((batch, again), m')" "2 * length (concat batch) + 5 * length batch + 64 \<le> MAX_MAILBOX_FRAME"
  shows "\<exists>blob bytes. req_to_bytes W (Fetch mid (Some a)) = Some blob \<and> length blob \<le> MAX_MAILBOX_FRAME
    \<and> host_serve P W sk binding al clock k m blob = (Some bytes, m') \<and> resp_from_bytes W bytes = Some (Delivery batch again)"
proof -
  obtain blob where b: "req_to_bytes W (Fetch mid (Some a)) = Some blob" "req_from_bytes W blob = Some (Fetch mid (Some a))"
    using assms(1) unfolding wire_ok_def by blast
  have "length blob \<le> 1024" using assms(1,3,4) b(1) unfolding wire_ok_def by blast
  then have lb: "length blob \<le> MAX_MAILBOX_FRAME" by (simp add: MAX_MAILBOX_FRAME_def)
  obtain bytes where r: "resp_to_bytes W (Delivery batch again) = Some bytes" "resp_from_bytes W bytes = Some (Delivery batch again)"
    using assms(1) unfolding wire_ok_def by blast
  have "length bytes \<le> 2 * length (concat batch) + 5 * length batch + 64" using assms(1) r(1) unfolding wire_ok_def by blast
  with assms(7) have lr: "length bytes \<le> MAX_MAILBOX_FRAME" by simp
  have "serve_request P W sk binding al (clock k) (clock k) m blob = (Delivery batch again, m')"
    using assms(2,6) b(2) by (simp add: serve_request_def)
  then have "host_serve P W sk binding al clock k m blob = (Some bytes, m')"
    using assms(5) r(1) lr by (simp add: host_serve_def serve_turn_def)
  with b(1) lb r(2) show ?thesis by blast
qed

text \<open>What the limits of the store and of the client must leave room for.\<close>

definition fits :: "mailbox_policy \<Rightarrow> bool" where
  "fits p \<longleftrightarrow> max_msg_bytes p < MAILBOX_FETCH_BUDGET
     \<and> max_msgs_per_mailbox p * max_msg_bytes p \<le> MAX_FETCH_ROUNDS * (MAILBOX_FETCH_BUDGET - max_msg_bytes p)
     \<and> max_msgs_per_mailbox p * max_msg_bytes p \<le> MAX_FETCH_TOTAL_BYTES
     \<and> 4 * MAILBOX_FETCH_BUDGET + 5 * max_msgs_per_mailbox p + 64 \<le> MAX_MAILBOX_FRAME"

lemma default_fits: "fits policy_default"
  by (simp add: fits_def policy_default_def MAILBOX_FETCH_BUDGET_def MAX_FETCH_ROUNDS_def MAX_FETCH_TOTAL_BYTES_def MAX_MAILBOX_FRAME_def)

lemma sum_length_concat: "sum_list (map length xs) = length (concat xs)"
  by (simp add: length_concat)

lemma fetch_loop_drains:
  assumes "wire_ok W" "length mid = 32" "\<forall>i < MAX_FETCH_ROUNDS. verify_at P a (x25519 P sk (auth_pk a)) binding mid (clock i)"
    "fits p" "M = max_msg_bytes p" "length (auth_pk a) = 32 \<and> length (auth_tag a) = 32"
  shows "mailbox_inv m \<Longrightarrow> policy m = p \<Longrightarrow> \<forall>e \<in> set (box m mid). \<forall>i. clock i < expires_at e \<Longrightarrow>
    k + rounds = MAX_FETCH_ROUNDS \<Longrightarrow> length (concat (map sealed (box m mid))) \<le> rounds * (MAILBOX_FETCH_BUDGET - M) \<Longrightarrow>
    0 < rounds \<Longrightarrow> tot + length (concat (map sealed (box m mid))) \<le> MAX_FETCH_TOTAL_BYTES \<Longrightarrow>
    \<exists>m'. fetch_loop W (host_serve P W sk binding al clock) mid a rounds k tot acc m = (Inr (acc @ map sealed (box m mid)), m')
      \<and> box m' mid = [] \<and> (\<forall>mid'. mid' \<noteq> mid \<longrightarrow> box m' mid' = box m mid') \<and> mailbox_inv m'"
proof (induction rounds arbitrary: k tot acc m)
  case 0
  then show ?case by simp
next
  case (Suc rounds)
  obtain batch again m' where fb: "fetch_batch m mid (clock k) MAILBOX_FETCH_BUDGET = ((batch, again), m')"
    by (cases "fetch_batch m mid (clock k) MAILBOX_FETCH_BUDGET") auto
  have live: "\<forall>e \<in> set (box m mid). clock k < expires_at e" using Suc.prems(3) by blast
  note fp = fetch_batch_props [OF Suc.prems(1) fb] and fl = fetch_batch_live [OF Suc.prems(1) live fb]
  have bo: "length (box m mid) \<le> max_msgs_per_mailbox p" "\<forall>e \<in> set (box m mid). length (sealed e) \<le> M"
    using Suc.prems(1,2) assms(5) by (auto simp: mailbox_inv_def box_ok_def)
  have split: "length (concat (map sealed (box m mid))) = length (concat batch) + length (concat (map sealed (box m' mid)))"
    using fl(1) by simp
  have "length batch \<le> length (map sealed (box m mid))" unfolding fl(1) by simp
  then have lb: "length batch \<le> max_msgs_per_mailbox p" using bo(1) by simp
  have one: "length (concat (take 1 batch)) \<le> M"
  proof (cases batch)
    case (Cons x xs)
    then obtain e where "e \<in> set (box m mid)" "x = sealed e" using fl(1) by (cases "box m mid") auto
    with Cons bo(2) show ?thesis by simp
  qed simp
  have "length (concat batch) \<le> MAILBOX_FETCH_BUDGET" using fp(7) one assms(4,5) by (simp add: fits_def)
  then have size: "2 * length (concat batch) + 5 * length batch + 64 \<le> MAX_MAILBOX_FRAME"
    using lb assms(4) by (simp add: fits_def)
  have k: "k < MAX_FETCH_ROUNDS" using Suc.prems(4) by simp
  then have "k < MAX_MAILBOX_REQUESTS_PER_CONN" by (simp add: MAX_FETCH_ROUNDS_def MAX_MAILBOX_REQUESTS_PER_CONN_def)
  from serve_fetch [where clock = clock and k = k, OF assms(1) assms(3) [rule_format, OF k] assms(2,6) this fb size, of al] obtain blob bytes where
    s: "req_to_bytes W (Fetch mid (Some a)) = Some blob" "length blob \<le> MAX_MAILBOX_FRAME"
      "host_serve P W sk binding al clock k m blob = (Some bytes, m')" "resp_from_bytes W bytes = Some (Delivery batch again)" by blast
  have tot: "sat_add tot (sum_list (map length batch)) = tot + length (concat batch)" "tot + length (concat batch) \<le> MAX_FETCH_TOTAL_BYTES"
    using Suc.prems(7) split by (simp_all add: sum_length_concat sat_add_def u64_max_def MAX_FETCH_TOTAL_BYTES_def)
  have "box m' mid \<noteq> [] \<Longrightarrow> box m mid \<noteq> []" using fl(2) by auto
  then have ne: "\<not> (again \<and> batch = [])" using fl(3,4) by blast
  have step: "fetch_loop W (host_serve P W sk binding al clock) mid a (Suc rounds) k tot acc m =
      (if \<not> again then (Inr (acc @ batch), m')
       else fetch_loop W (host_serve P W sk binding al clock) mid a rounds (Suc k) (tot + length (concat batch)) (acc @ batch) m')"
    using s tot ne by (simp add: Let_def)
  have oth: "\<forall>mid'. mid' \<noteq> mid \<longrightarrow> box m' mid' = box m mid'" using fp(6) by blast
  show ?case
  proof (cases again)
    case False
    then show ?thesis using step fl(1,3) oth fp(1) by simp
  next
    case True
    have lim: "MAILBOX_FETCH_BUDGET < length (concat batch) + M" using fl(5) [OF True bo(2)] .
    have rest: "length (concat (map sealed (box m' mid))) \<le> rounds * (MAILBOX_FETCH_BUDGET - M)"
    proof -
      have "MAILBOX_FETCH_BUDGET - M \<le> length (concat batch)" using lim by simp
      moreover have "length (concat (map sealed (box m mid))) \<le> (MAILBOX_FETCH_BUDGET - M) + rounds * (MAILBOX_FETCH_BUDGET - M)"
        using Suc.prems(5) by (simp only: mult_Suc)
      ultimately show ?thesis using split by linarith
    qed
    have "0 < rounds"
    proof (rule ccontr)
      assume "\<not> 0 < rounds"
      then have "length (concat batch) \<le> MAILBOX_FETCH_BUDGET - M" using Suc.prems(5) split by simp
      moreover have "M < MAILBOX_FETCH_BUDGET" using assms(4,5) by (simp add: fits_def)
      ultimately show False using lim by linarith
    qed
    moreover have "\<forall>e \<in> set (box m' mid). \<forall>i. clock i < expires_at e" using Suc.prems(3) fl(2) by blast
    moreover have "tot + length (concat batch) + length (concat (map sealed (box m' mid))) \<le> MAX_FETCH_TOTAL_BYTES"
      using Suc.prems(7) split by simp
    moreover have "policy m' = p" "Suc k + rounds = MAX_FETCH_ROUNDS" using fp(2) Suc.prems(2,4) by simp_all
    ultimately obtain m'' where "fetch_loop W (host_serve P W sk binding al clock) mid a rounds (Suc k) (tot + length (concat batch)) (acc @ batch) m'
        = (Inr ((acc @ batch) @ map sealed (box m' mid)), m'')" "box m'' mid = []"
        "\<forall>mid'. mid' \<noteq> mid \<longrightarrow> box m'' mid' = box m' mid'" "mailbox_inv m''"
      using Suc.IH [OF fp(1) _ _ _ rest, of "Suc k" "tot + length (concat batch)" "acc @ batch"] by blast
    then show ?thesis using step True fl(1) oth by auto
  qed
qed

lemma box_total: "box_ok p v \<Longrightarrow> length (concat (map sealed v)) \<le> max_msgs_per_mailbox p * max_msg_bytes p"
proof -
  assume ok: "box_ok p v"
  have "\<forall>e \<in> set v. length (sealed e) \<le> M \<Longrightarrow> length (concat (map sealed v)) \<le> length v * M" for v M
    by (induction v) (auto simp: add_mono)
  then have "length (concat (map sealed v)) \<le> length v * max_msg_bytes p" using ok by (auto simp: box_ok_def)
  also have "\<dots> \<le> max_msgs_per_mailbox p * max_msg_bytes p" using ok by (simp add: box_ok_def)
  finally show ?thesis .
qed

text \<open>
  C6: a fetch brings everything. From a host whose limits leave room for it, as the default
  ones do, the owner's fetch ends within its 64 rounds with exactly the messages of the
  mailbox, in order and none twice, and leaves it empty and every other mailbox as it was.
\<close>

theorem fetch_all_complete:
  assumes "dh_ok P" and "wire_ok W" and "mailbox_inv m" and "fits (policy m)"
    and "length mid = 32" and "\<forall>i. mailbox_id_owned_at P (x25519 P my_sk x25519_base) mid (clock i)"
    and "\<forall>e \<in> set (box m mid). \<forall>i. clock i < expires_at e"
  shows "\<exists>m'. fetch_all P W (host_serve P W host_sk binding al clock) (x25519 P host_sk x25519_base) binding mid my_sk m
      = (Inr (map sealed (box m mid)), m')
    \<and> box m' mid = [] \<and> (\<forall>mid'. mid' \<noteq> mid \<longrightarrow> box m' mid' = box m mid') \<and> mailbox_inv m'"
proof -
  let ?a = "fetch_auth_for P my_sk (x25519 P host_sk x25519_base) binding mid"
  have "x25519 P my_sk (x25519 P host_sk x25519_base) = x25519 P host_sk (x25519 P my_sk x25519_base)"
    using assms(1) by (simp add: dh_ok_def)
  then have v: "\<forall>i < MAX_FETCH_ROUNDS. verify_at P ?a (x25519 P host_sk (auth_pk ?a)) binding mid (clock i)"
    using assms(6) by (simp add: verify_at_def fetch_auth_for_def fetch_auth_tag_def ct_diff_eq Let_def)
  have "box_ok (policy m) (box m mid)" using assms(3) by (simp add: mailbox_inv_def)
  note bt = box_total [OF this]
  have "length (concat (map sealed (box m mid))) \<le> MAX_FETCH_ROUNDS * (MAILBOX_FETCH_BUDGET - max_msg_bytes (policy m))"
    "0 < MAX_FETCH_ROUNDS" "0 + length (concat (map sealed (box m mid))) \<le> MAX_FETCH_TOTAL_BYTES"
    using bt assms(4) by (simp_all add: fits_def MAX_FETCH_ROUNDS_def)
  moreover have "length (auth_pk ?a) = 32 \<and> length (auth_tag ?a) = 32" by (simp add: fetch_auth_for_def fetch_auth_tag_def Let_def)
  ultimately show ?thesis
    using fetch_loop_drains [OF assms(2,5) v assms(4) refl _ assms(3) refl assms(7), of 0 MAX_FETCH_ROUNDS 0 al "[]"]
    by (simp add: fetch_all_def)
qed

subsection \<open>A concrete codec and fetch\<close>

fun enc :: "bytes \<Rightarrow> bytes" where
  "enc [] = [0]"
| "enc (x # xs) = 1 # x # enc xs"

fun dec :: "bytes \<Rightarrow> (bytes \<times> bytes) option" where
  "dec (t # xs) = (if t = 0 then Some ([], xs)
     else case xs of [] \<Rightarrow> None | x # ys \<Rightarrow> map_option (\<lambda>(b, r). (x # b, r)) (dec ys))"
| "dec [] = None"

fun enc_list :: "bytes list \<Rightarrow> bytes" where
  "enc_list [] = [0]"
| "enc_list (m # ms) = 1 # enc m @ enc_list ms"

fun dec_list :: "nat \<Rightarrow> bytes \<Rightarrow> bytes list option" where
  "dec_list (Suc n) (t # xs) = (if t = 0 then Some []
     else case dec xs of None \<Rightarrow> None | Some (m, r) \<Rightarrow> map_option (Cons m) (dec_list n r))"
| "dec_list _ _ = None"

fun enc_auth :: "fetch_auth option \<Rightarrow> bytes" where
  "enc_auth None = [0]"
| "enc_auth (Some a) = 1 # enc (auth_pk a) @ enc (auth_tag a)"

definition dec_auth :: "bytes \<Rightarrow> fetch_auth option option" where
  "dec_auth xs = (case xs of [] \<Rightarrow> None
     | t # r \<Rightarrow> if t = 0 then Some None
         else (case dec r of None \<Rightarrow> None
            | Some (pk, r') \<Rightarrow> map_option (\<lambda>(tg, _). Some \<lparr>auth_pk = pk, auth_tag = tg\<rparr>) (dec r')))"

definition demo_wire :: wire where
  "demo_wire = \<lparr>
     req_to_bytes = (\<lambda>r. Some (case r of
        Deposit mid msg ttl \<Rightarrow> 0 # enc mid @ enc msg @ enc (replicate ttl 0)
      | Fetch mid a \<Rightarrow> 1 # enc mid @ enc_auth a
      | FetchWithSurb mid sb a \<Rightarrow> 2 # enc mid @ enc sb @ enc_auth a)),
     req_from_bytes = (\<lambda>xs. case xs of [] \<Rightarrow> None
      | t # r \<Rightarrow> (case dec r of None \<Rightarrow> None
          | Some (mid, r) \<Rightarrow>
              if t = 1 then map_option (Fetch mid) (dec_auth r)
              else (case dec r of None \<Rightarrow> None
                 | Some (b, r) \<Rightarrow> if t = 0 then map_option (\<lambda>(z, _). Deposit mid b (length z)) (dec r)
                                 else map_option (FetchWithSurb mid b) (dec_auth r)))),
     resp_to_bytes = (\<lambda>r. Some (case r of
        Ack \<Rightarrow> [0]
      | Delivery ms again \<Rightarrow> 1 # (if again then 1 else 0) # enc_list ms
      | WireError e \<Rightarrow> [2, (case e of WTooLarge \<Rightarrow> 0 | WMailboxFull \<Rightarrow> 1 | WStoreFull \<Rightarrow> 2 | WMalformed \<Rightarrow> 3
                             | WUnauthorized \<Rightarrow> 4 | WRateLimited \<Rightarrow> 5)])),
     resp_from_bytes = (\<lambda>xs. case xs of
        [] \<Rightarrow> None
      | t # r \<Rightarrow> if t = 0 then Some Ack
          else (case r of [] \<Rightarrow> None
             | u # r \<Rightarrow> if t = 1 then map_option (\<lambda>ms. Delivery ms (u = 1)) (dec_list (length r) r)
                 else Some (WireError (if u = 0 then WTooLarge else if u = 1 then WMailboxFull else if u = 2 then WStoreFull
                        else if u = 3 then WMalformed else if u = 4 then WUnauthorized else WRateLimited)))),
     surb_from_bytes = (\<lambda>_. None)\<rparr>"

lemma dec_enc [simp]: "dec (enc b @ r) = Some (b, r)" "dec (enc b) = Some (b, [])"
proof -
  show "dec (enc b @ r) = Some (b, r)" for r by (induction b) simp_all
  from this [of "[]"] show "dec (enc b) = Some (b, [])" by simp
qed

lemma length_enc: "length (enc b) = 2 * length b + 1"
  by (induction b) simp_all

lemma enc_list_props:
  "length ms < n \<Longrightarrow> dec_list n (enc_list ms) = Some ms" "length ms < length (enc_list ms)"
  "length (enc_list ms) = 2 * length (concat ms) + 2 * length ms + 1"
proof -
  show "length ms < n \<Longrightarrow> dec_list n (enc_list ms) = Some ms"
    by (induction ms arbitrary: n) (case_tac n; simp)+
  show l: "length (enc_list ms) = 2 * length (concat ms) + 2 * length ms + 1" by (induction ms) (simp_all add: length_enc)
  then show "length ms < length (enc_list ms)" by simp
qed

lemma dec_enc_auth: "dec_auth (enc_auth a) = Some a"
  by (cases a) (simp_all add: dec_auth_def)

lemma demo_wire_ok: "wire_ok demo_wire"
  unfolding wire_ok_def
proof (intro conjI allI impI)
  show "\<exists>b. req_to_bytes demo_wire r = Some b \<and> req_from_bytes demo_wire b = Some r" for r
    by (cases r) (simp_all add: demo_wire_def dec_enc_auth)
  show "\<exists>b. resp_to_bytes demo_wire r = Some b \<and> resp_from_bytes demo_wire b = Some r" for r
    using enc_list_props(1,2)
    by (cases r) (auto simp: demo_wire_def split: mailbox_wire_error.split)
  show "length b \<le> 1024" if "req_to_bytes demo_wire (Fetch mid (Some a)) = Some b" "length mid = 32"
    "length (auth_pk a) = 32" "length (auth_tag a) = 32" for mid a b
    using that by (auto simp: demo_wire_def length_enc)
  show "length b \<le> 2 * length (concat ms) + 5 * length ms + 64"
    if "resp_to_bytes demo_wire (Delivery ms again) = Some b" for ms again b
    using that by (auto simp: demo_wire_def enc_list_props(3))
qed

definition demo_owner_id :: bytes where
  "demo_owner_id = mailbox_id_for_deposit demo_prims (x25519 demo_prims [16] x25519_base) 1700000000"

definition demo_owner_box :: mailbox where
  "demo_owner_box = \<lparr>boxes = [(demo_owner_id, [\<lparr>sealed = [9, 9], expires_at = 1700000100\<rparr>, \<lparr>sealed = [8], expires_at = 1700000200\<rparr>])],
     policy = policy_default, total = 2, mbytes = 3\<rparr>"

theorem fetch_all_complete_witness:
  "\<exists>m'. fetch_all demo_prims demo_wire (host_serve demo_prims demo_wire [24] [5] False (\<lambda>_. 1700000050))
     (x25519 demo_prims [24] x25519_base) [5] demo_owner_id [16] demo_owner_box = (Inr [[9, 9], [8]], m')"
proof -
  have b: "box demo_owner_box demo_owner_id = [\<lparr>sealed = [9, 9], expires_at = 1700000100\<rparr>, \<lparr>sealed = [8], expires_at = 1700000200\<rparr>]"
    by (simp add: box_def demo_owner_box_def hm_get_def)
  have inv: "mailbox_inv demo_owner_box"
    by (auto simp: mailbox_inv_def demo_owner_box_def counters_ok_def policy_default_def policy_ok_def
        box_ok_def box_def hm_wf_def hm_sum_def hm_get_def)
  have f: "fits (policy demo_owner_box)" using default_fits by (simp add: demo_owner_box_def)
  have l: "length demo_owner_id = 32" by (simp add: demo_owner_id_def mailbox_id_for_deposit_def mailbox_id_for_epoch_def)
  have o: "\<forall>i :: nat. mailbox_id_owned_at demo_prims (x25519 demo_prims [16] x25519_base) demo_owner_id 1700000050"
    unfolding demo_owner_id_def
    by (intro allI owned_deposit) (simp_all add: MAILBOX_EPOCH_SECS_def DEFAULT_MAX_TTL_SECS_def u64_max_def)
  have x: "\<forall>e \<in> set (box demo_owner_box demo_owner_id). \<forall>i :: nat. 1700000050 < expires_at e" by (simp add: b)
  from fetch_all_complete [OF demo_dh_ok demo_wire_ok inv f l o x, of "[24]" "[5]" False] b show ?thesis by auto
qed

end
