(* ===== verification/Daemon_Restart.thy ===== *)
theory Daemon_Restart
  imports Relay_Daemon Mailbox_Service
begin

text \<open>
  What a running daemon does with its state and its files, its shutdown (the end of the command
  \<open>run\<close> of crypto-gotham-relay/src/main.rs), and the next start with the same options.
\<close>

section \<open>Life and shutdown\<close>

text \<open>
  What changes the daemon or its files: a packet, a request to the mailbox (\<open>binding\<close> is the
  transcript of its connection), a delivery for the mailbox service, and the ticks of the tasks
  that write the files.
\<close>

datatype daemon_event =
    OnPacket env bytes
  | OnRequest bytes nat nat bytes
  | OnDelivery nat nat bool bytes
  | OnMaintenance nat
  | OnReplayTick nat nat

fun daemon_step :: "prims \<Rightarrow> wire \<Rightarrow> snap_codec \<Rightarrow> run_args \<Rightarrow> daemon \<times> fs \<Rightarrow> daemon_event \<Rightarrow> daemon \<times> fs" where
  "daemon_step P W C a (d, fs) (OnPacket E pkt) = (d\<lparr>dm_relay := snd (process P E (dm_relay d) pkt)\<rparr>, fs)"
| "daemon_step P W C a (d, fs) (OnRequest binding t now blob) =
     (d\<lparr>dm_mailbox := map_option (\<lambda>m. snd (serve_request P W (dm_sk d) binding (dm_allow_unauth d) t now m blob)) (dm_mailbox d)\<rparr>, fs)"
| "daemon_step P W C a (d, fs) (OnDelivery t now sent pl) =
     (d\<lparr>dm_mailbox := map_option (\<lambda>m. snd (mailbox_service_delivery P W (dm_sk d) t now sent m pl)) (dm_mailbox d)\<rparr>, fs)"
| "daemon_step P W C a (d, fs) (OnMaintenance now) =
     (case dm_mailbox d of
        None \<Rightarrow> (d, fs)
      | Some m \<Rightarrow>
          (case maintenance_tick C fs (ra_mailbox_store a) m now of (m', states) \<Rightarrow> (d\<lparr>dm_mailbox := Some m'\<rparr>, last states)))"
| "daemon_step P W C a (d, fs) (OnReplayTick now now_unix) =
     (d, case replay_tick fs (dm_relay d) now now_unix of None \<Rightarrow> fs | Some states \<Rightarrow> last states)"

text \<open>The end of \<open>Cmd::Run\<close>: the mailbox, then the replay cache.\<close>

definition run_shutdown :: "snap_codec \<Rightarrow> run_args \<Rightarrow> daemon \<Rightarrow> fs \<Rightarrow> nat \<Rightarrow> nat \<Rightarrow> fs" where
  "run_shutdown C a d fs now now_unix =
     (let fs = (case (dm_mailbox d, ra_mailbox_store a) of
            (Some m, Some path) \<Rightarrow> last (persist_mailbox C fs path (mailbox_snapshot m))
          | _ \<Rightarrow> fs)
      in case persist_replay fs (dm_relay d) now now_unix of None \<Rightarrow> fs | Some states \<Rightarrow> last states)"

section \<open>Invariant of a running daemon\<close>

text \<open>The files of the daemon do not overlap, their temporary siblings included.\<close>

definition files_apart :: "run_args \<Rightarrow> bool" where
  "files_apart a \<longleftrightarrow>
     (\<forall>p. ra_mailbox_store a = Some p \<or> ra_replay_cache_path a = Some p \<longrightarrow> ra_key_file a \<notin> {p, with_extension_tmp p})
     \<and> (\<forall>p q. ra_mailbox_store a = Some p \<longrightarrow> ra_replay_cache_path a = Some q \<longrightarrow> p \<notin> {q, with_extension_tmp q})"

lemma replace_file_other: "q \<notin> {path, with_extension_tmp path} \<Longrightarrow> last (replace_file fs path b) q = fs q"
  by (simp add: replace_file_def Let_def)

lemma persist_other:
  "q \<notin> {p, with_extension_tmp p} \<Longrightarrow> last (persist_mailbox C fs p snap) q = fs q"
  "persist_replay fs r now u = Some states \<Longrightarrow> replay_path r = Some p \<Longrightarrow> q \<notin> {p, with_extension_tmp p} \<Longrightarrow> last states q = fs q"
  using replace_file_other [of q p]
  by (auto simp: persist_mailbox_def persist_replay_def write_encoded_def split: option.splits)

text \<open>The store stays within its policy, whatever requests and deliveries arrive.\<close>

lemma deposit_inv: "mailbox_inv m \<Longrightarrow> mailbox_inv (snd (deposit m mid msg now ttl)) \<and> policy (snd (deposit m mid msg now ttl)) = policy m"
  using deposit_cases [of m mid msg now ttl] by (cases "deposit m mid msg now ttl") (auto simp: cleaned_def)

lemma fetch_batch_inv:
  "mailbox_inv m \<Longrightarrow> mailbox_inv (snd (fetch_batch m mid now budget)) \<and> policy (snd (fetch_batch m mid now budget)) = policy m"
  using fetch_batch_props(1,2) [of m mid now budget] by (metis prod.collapse)

lemma deposits_inv:
  "mailbox_inv m \<Longrightarrow> mailbox_inv (fold (\<lambda>env m. snd (deposit m mid env now 0)) batch m)
     \<and> policy (fold (\<lambda>env m. snd (deposit m mid env now 0)) batch m) = policy m"
  by (induction batch arbitrary: m) (simp_all add: deposit_inv)

lemma serve_request_inv:
  assumes "mailbox_inv m"
  shows "mailbox_inv (snd (serve_request P W sk binding allow t now m blob)) \<and> policy (snd (serve_request P W sk binding allow t now m blob)) = policy m"
  using assms deposit_inv [OF assms] fetch_batch_inv [OF assms]
  by (simp add: serve_request_def case_prod_beta split: option.split mailbox_request.split sum.split prod.split)

lemma delivery_inv:
  assumes "mailbox_inv m"
  shows "mailbox_inv (snd (mailbox_service_delivery P W sk t now sent m pl)) \<and> policy (snd (mailbox_service_delivery P W sk t now sent m pl)) = policy m"
  using assms deposit_inv [OF assms] fetch_batch_inv [OF assms] deposits_inv [OF fetch_batch_inv [OF assms, THEN conjunct1]]
  by (auto simp: mailbox_service_delivery_def Let_def case_prod_beta split: option.split mailbox_request.split sum.split)

text \<open>What a daemon that was started as \<open>d0\<close> keeps.\<close>

definition daemon_inv :: "run_args \<Rightarrow> daemon \<times> fs \<Rightarrow> daemon \<times> fs \<Rightarrow> bool" where
  "daemon_inv a s0 s \<longleftrightarrow> (case (s0, s) of ((d0, fs0), (d, fs)) \<Rightarrow>
     fs (ra_key_file a) = fs0 (ra_key_file a) \<and> cache_ok (dm_relay d)
     \<and> rc_ttl (replay_cache (dm_relay d)) = ra_replay_ttl_secs a * NANOS \<and> rc_max_size (replay_cache (dm_relay d)) = ra_replay_size a
     \<and> replay_path (dm_relay d) = ra_replay_cache_path a
     \<and> (dm_mailbox d = None \<longleftrightarrow> \<not> ra_mailbox a) \<and> (\<forall>m. dm_mailbox d = Some m \<longrightarrow> mailbox_inv m \<and> policy m = policy_default))"

lemma load_mailbox_policy: "policy (load_mailbox C fs path now) = policy_default"
  by (auto simp: load_mailbox_def mailbox_new_def from_snapshot_def policy_default_def MAX_MAILBOX_FRAME_def sat_sub_def Let_def
      split: option.split prod.split)

lemma daemon_inv_start:
  assumes "run_setup P X fs a = (ts, Inr d)" "\<forall>m. dm_mailbox d = Some m \<longrightarrow> mailbox_inv m"
  shows "daemon_inv a (d, fs) (d, fs)"
  using assms(2) by (auto simp: daemon_inv_def run_setup_Inr [OF assms(1)] run_relay_fields load_mailbox_policy)

lemma daemon_inv_step:
  assumes "files_apart a" "daemon_inv a s0 (d, fs)"
  shows "daemon_inv a s0 (daemon_step P W C a (d, fs) ev)"
proof (cases ev)
  case (OnPacket E pkt)
  obtain out r' where p: "process P E (dm_relay d) pkt = (out, r')" by force
  then have "relay_run P (dm_relay d) [(E, pkt)] = ([out], r')" by simp
  from run_fields [OF this] cache_ok_process [OF _ p] show ?thesis using assms(2) OnPacket p by (auto simp: daemon_inv_def split: prod.splits)
next
  case (OnMaintenance now)
  show ?thesis
  proof (cases "dm_mailbox d")
    case (Some m)
    obtain n m' where pr: "prune_expired m now = (n, m')" by force
    have "mailbox_inv m \<and> policy m = policy_default" using assms(2) Some by (auto simp: daemon_inv_def split: prod.splits)
    then have m': "mailbox_inv m' \<and> policy m' = policy_default" using cleaned_prune [of m now] pr by (auto simp: cleaned_def)
    have "last (snd (maintenance_tick C fs (ra_mailbox_store a) m now)) (ra_key_file a) = fs (ra_key_file a)"
      using assms(1) persist_other(1) [of "ra_key_file a"] by (auto simp: maintenance_tick_def files_apart_def pr split: option.split)
    then show ?thesis using assms(2) OnMaintenance Some m' by (auto simp: daemon_inv_def maintenance_tick_def pr split: prod.splits)
  qed (use assms(2) OnMaintenance in simp)
next
  case (OnReplayTick now u)
  have "last states (ra_key_file a) = fs (ra_key_file a)" if "persist_replay fs (dm_relay d) now u = Some states" for states
    using assms persist_other(2) [OF that] that by (auto simp: files_apart_def daemon_inv_def persist_replay_def split: prod.splits option.splits)
  then show ?thesis using assms(2) OnReplayTick by (auto simp: daemon_inv_def replay_tick_persists split: prod.splits option.split)
qed (use assms(2) serve_request_inv delivery_inv in \<open>auto simp: daemon_inv_def split: prod.splits\<close>)

lemma daemon_inv_run:
  assumes "files_apart a"
  shows "daemon_inv a s0 s \<Longrightarrow> daemon_inv a s0 (foldl (daemon_step P W C a) s evs)"
proof (induction evs arbitrary: s)
  case (Cons ev evs)
  have "daemon_inv a s0 (daemon_step P W C a s ev)" using daemon_inv_step [OF assms] Cons.prems by (cases s) blast
  with Cons.IH show ?case by simp
qed simp

section \<open>Restart\<close>

lemma shutdown_files:
  assumes "files_apart a" "daemon_inv a s0 (d, fs)"
  shows "run_shutdown C a d fs now u (ra_key_file a) = fs (ra_key_file a)"
    "dm_mailbox d = Some m \<Longrightarrow> ra_mailbox_store a = Some p \<Longrightarrow> snap_to_bytes C (mailbox_snapshot m) = Some b \<Longrightarrow>
       run_shutdown C a d fs now u p = Some b"
    "ra_replay_cache_path a = Some q \<Longrightarrow> run_shutdown C a d fs now u q = Some (persist_encode (replay_cache (dm_relay d)) now u)"
proof -
  let ?fs = "case (dm_mailbox d, ra_mailbox_store a) of
      (Some m, Some path) \<Rightarrow> last (persist_mailbox C fs path (mailbox_snapshot m)) | _ \<Rightarrow> fs"
  have path: "replay_path (dm_relay d) = ra_replay_cache_path a" using assms(2) by (auto simp: daemon_inv_def split: prod.splits)
  have down: "run_shutdown C a d fs now u = (case ra_replay_cache_path a of None \<Rightarrow> ?fs
      | Some q \<Rightarrow> last (replace_file ?fs q (persist_encode (replay_cache (dm_relay d)) now u)))"
    by (simp add: run_shutdown_def persist_replay_def path write_encoded_def Let_def split: option.split)
  have apart: "ra_replay_cache_path a = Some q \<Longrightarrow> x = ra_key_file a \<or> ra_mailbox_store a = Some x \<Longrightarrow>
      last (replace_file ?fs q b') x = ?fs x" for q x b'
    using assms(1) by (intro replace_file_other) (auto simp: files_apart_def)
  have key: "?fs (ra_key_file a) = fs (ra_key_file a)"
    using assms(1) persist_other(1) [of "ra_key_file a"] by (auto simp: files_apart_def split: option.split)
  show "run_shutdown C a d fs now u (ra_key_file a) = fs (ra_key_file a)"
    using key apart by (simp add: down split: option.split)
  show "run_shutdown C a d fs now u p = Some b"
    if "dm_mailbox d = Some m" "ra_mailbox_store a = Some p" "snap_to_bytes C (mailbox_snapshot m) = Some b"
    using that apart by (simp add: down persist_mailbox_def replace_file_last split: option.split)
  show "run_shutdown C a d fs now u q = Some (persist_encode (replay_cache (dm_relay d)) now u)" if "ra_replay_cache_path a = Some q"
    using that by (simp add: down replace_file_last)
qed

definition mailbox_view :: "daemon \<Rightarrow> bytes \<Rightarrow> nat \<Rightarrow> bytes list" where
  "mailbox_view d mid later = (case dm_mailbox d of None \<Rightarrow> [] | Some m \<Rightarrow> view m mid later)"

lemma mailbox_over_restart:
  assumes "snap_codec_ok (rv_codec X2)" "files_apart a" "daemon_inv a s0 (d, fs)" "ra_mailbox_store a = Some p" "rv_now_unix X2 \<le> later"
    and "run_setup P X2 (run_shutdown (rv_codec X2) a d fs now u) a = (ts, Inr d2)"
  shows "mailbox_view d2 mid later = mailbox_view d mid later"
proof (cases "dm_mailbox d")
  case None
  then show ?thesis using assms(3) run_setup_Inr(3) [OF assms(6)] by (auto simp: mailbox_view_def daemon_inv_def split: prod.splits)
next
  case (Some m)
  have m: "mailbox_inv m" "policy m = policy_default" "ra_mailbox a" using assms(3) Some by (auto simp: daemon_inv_def split: prod.splits)
  obtain b where b: "snap_to_bytes (rv_codec X2) (mailbox_snapshot m) = Some b" "snap_from_bytes (rv_codec X2) b = Some (mailbox_snapshot m)"
    using assms(1) unfolding snap_codec_ok_def by blast
  have "dm_mailbox d2 = Some (from_snapshot policy_default (mailbox_snapshot m) (rv_now_unix X2))"
    using run_setup_Inr(3) [OF assms(6)] m(3) shutdown_files(2) [OF assms(2,3) Some assms(4) b(1)] b(2) assms(4) by (simp add: load_mailbox_def)
  then show ?thesis using Some restored_view [OF m(1) assms(5), of mid] m(2) by (simp add: mailbox_view_def)
qed

text \<open>How long ago, by the wall clock, an entry of the replay cache was made, when the relay is started again.\<close>

definition age_at :: "run_env \<Rightarrow> nat \<Rightarrow> nat \<Rightarrow> nat \<Rightarrow> nat" where
  "age_at X now u t = (rv_now_unix X - (u - (now - t) div NANOS)) * NANOS"

lemma replays_over_restart:
  assumes "files_apart a" "daemon_inv a s0 (d, fs)" "ra_replay_cache_path a = Some q" "0 < ra_replay_size a" "u < 2 ^ 64"
    and "run_setup P X2 (run_shutdown C a d fs now u) a = (ts, Inr d2)"
    and "(gamma_of pkt, t) \<in> set (rc_queue (replay_cache (dm_relay d)))"
    and "now \<le> t + ra_replay_ttl_secs a * NANOS" "age_at X2 now u t \<le> ra_replay_ttl_secs a * NANOS"
    and "e_cache_now E + age_at X2 now u t \<le> rv_now X2 + ra_replay_ttl_secs a * NANOS"
  shows "is_drop (fst (process P E (dm_relay d2) pkt))"
proof -
  let ?r = "dm_relay d"
  have r: "cache_ok ?r" "replay_path ?r = Some q" "rc_ttl (replay_cache ?r) = ra_replay_ttl_secs a * NANOS"
    "rc_max_size (replay_cache ?r) = ra_replay_size a"
    using assms(2,3) by (auto simp: daemon_inv_def split: prod.splits)
  let ?fs2 = "run_shutdown C a d fs now u"
  obtain states where st: "persist_replay (case (dm_mailbox d, ra_mailbox_store a) of
      (Some m, Some path) \<Rightarrow> last (persist_mailbox C fs path (mailbox_snapshot m)) | _ \<Rightarrow> fs) ?r now u = Some states"
    using r(2) by (simp add: persist_replay_def)
  then have last: "last states = ?fs2" by (simp add: run_shutdown_def)
  obtain ys zs where "rc_queue (replay_cache ?r) = ys @ (gamma_of pkt, t) # zs" using assms(7) by (meson split_list)
  then have k: "kept (replay_cache ?r) (gamma_of pkt) t (length zs)" using r(1) unfolding kept_def cache_ok_def by blast
  obtain t' where "kept (replay_cache (start_relay (rv_round X2) (last states) (dm_sk d2) (options_of a) (rv_t1 X2) (rv_t2 X2) (rv_t3 X2) (rv_t4 X2)
      (rv_now X2) (rv_now_unix X2))) (gamma_of pkt) t' (length (rc_queue (replay_cache ?r)))" "rv_now X2 \<le> t' + age_at X2 now u t"
    by (rule kept_over_restart [OF r(1) k r(2) _ st assms(5), of "options_of a" "rv_now_unix X2" "rv_round X2" "dm_sk d2" "rv_t1 X2" "rv_t2 X2"
          "rv_t3 X2" "rv_t4 X2" "rv_now X2"])
       (use r assms(3,4,8,9) in \<open>simp_all add: options_of_def age_at_def\<close>)
  then have "kept (replay_cache (dm_relay d2)) (gamma_of pkt) t' (length (rc_queue (replay_cache ?r)))" "rv_now X2 \<le> t' + age_at X2 now u t"
    using last run_setup_Inr(2) [OF assms(6)] by (simp_all add: run_relay_def)
  then show ?thesis using run_setup_Inr(2) [OF assms(6)] assms(10)
    by (intro kept_dropped [of "dm_relay d2" pkt t']) (auto simp: run_relay_fields)
qed


subsection \<open>A concrete restart\<close>

definition deposit_wire :: wire where
  "deposit_wire = demo_wire\<lparr>req_from_bytes := (\<lambda>_. Some (Deposit [1] [8] 1000))\<rparr>"

lemma demo_files_apart: "files_apart demo_args"
  by (auto simp: files_apart_def demo_args_def run_args_default_def with_extension_tmp_def Let_def)

lemma demo_daemon_start:
  "\<exists>ts d. run_setup demo_prims (demo_run_env 0 0) demo_daemon_fs demo_args = (ts, Inr d)
     \<and> dm_relay d = (demo_relay (replicate 32 8))\<lparr>replay_path := Some ''replay.bin''\<rparr> \<and> dm_mailbox d = Some (mailbox_new policy_default)"
proof -
  obtain ts d where d: "run_setup demo_prims (demo_run_env 0 0) demo_daemon_fs demo_args = (ts, Inr d)"
    using demo_setup by (force simp: demo_daemon_fs_def)
  have k: "dm_sk d = replicate 32 8"
    using run_setup_Inr(1) [OF d] by (simp add: read_key_file_def demo_daemon_fs_def demo_args_def run_args_default_def text_of_def trim_def
        is_space_def demo_prims_def ascii_byte_def)
  have opts: "options_of demo_args = demo_options" by (simp add: options_of_def demo_args_def run_args_default_def demo_options_def)
  have "dm_relay d = (demo_relay (replicate 32 8))\<lparr>replay_path := Some ''replay.bin''\<rparr>"
    using run_setup_Inr(2) [OF d] k by (simp add: run_relay_def opts demo_run_env_def start_relay_def demo_options_def demo_relay_def relay_new_def
        with_rate_limit_def with_replay_persistence_def read_file_def demo_daemon_fs_def persist_load_def rate_unlimited_def)
  moreover have "dm_mailbox d = Some (mailbox_new policy_default)"
    using run_setup_Inr(3) [OF d] by (simp add: demo_args_def run_args_default_def load_mailbox_def demo_daemon_fs_def)
  ultimately show ?thesis using d by blast
qed


end
