(* ===== verification/Relay_Commands.thy ===== *)
theory Relay_Commands
  imports Relay_Daemon
begin

text \<open>
  The commands of crypto-gotham-relay/src/main.rs together, and two of the tasks a daemon spawns:
  the client of a rendezvous point (crypto-gotham-relay/src/rendezvous.rs) and the gossip loop
  (crypto-gotham-relay/src/gossip.rs).
\<close>

section \<open>Tasks\<close>

text \<open>
  \<open>run_rendezvous_client\<close>, the task of a hosted relay: it dials again after every session until the
  receiver of the packets is gone. A turn is whether the channel is closed before it, the session,
  and whether the channel is closed after it; the result are the packets handed on, the seconds
  slept and whether the task has ended.
\<close>

definition RENDEZVOUS_RETRY :: nat where "RENDEZVOUS_RETRY = 3"

fun run_rendezvous_client :: "(bool \<times> (bytes list \<times> (transport_error + unit)) \<times> bool) list \<Rightarrow> bytes list \<times> nat \<times> bool" where
  "run_rendezvous_client [] = ([], 0, False)"
| "run_rendezvous_client ((gone, (pkts, res), gone_after) # ts) =
     (if gone then ([], 0, True)
      else if gone_after then (pkts, 0, True)
      else case run_rendezvous_client ts of (pkts', slept, ended) \<Rightarrow> (pkts @ pkts', RENDEZVOUS_RETRY + slept, ended))"

text \<open>While the relay takes packets the task never ends, and loses nothing of what its sessions bring, however they end.\<close>

lemma rendezvous_client_persists:
  "\<forall>t \<in> set ts. \<not> fst t \<and> \<not> snd (snd t) \<Longrightarrow>
     run_rendezvous_client ts = (concat (map (\<lambda>t. fst (fst (snd t))) ts), RENDEZVOUS_RETRY * length ts, False)"
  by (induction ts) auto

text \<open>\<open>spawn_gossip_loop\<close>: a round at every tick.\<close>

fun gossip_loop :: "prims \<Rightarrow> ad_json \<Rightarrow> roster_codec
    \<Rightarrow> (((sockaddr \<times> bytes) list \<Rightarrow> (sockaddr \<times> bytes) list)
        \<times> (sockaddr \<times> bytes \<Rightarrow> nat \<times> (transport_error + (noise \<times> noise \<times> (bytes \<Rightarrow> bytes)))) \<times> nat option \<times> nat) list
    \<Rightarrow> gossip_node \<Rightarrow> gossip_node" where
  "gossip_loop P J C [] n = n"
| "gossip_loop P J C ((shuffle, dial, clock, now) # ticks) n = gossip_loop P J C ticks (snd (gossip_once P J C shuffle dial clock now n))"

lemma gossip_loop_config:
  "gn_cfg (gossip_loop P J C ticks n) = gn_cfg n \<and> gn_authority_set (gossip_loop P J C ticks n) = gn_authority_set n"
proof (induction ticks arbitrary: n)
  case (Cons t ticks)
  obtain sh dl cl now where t: "t = (sh, dl, cl, now)" by (metis prod.collapse)
  have "gn_cfg (snd (gossip_once P J C sh dl cl now n)) = gn_cfg n \<and> gn_authority_set (snd (gossip_once P J C sh dl cl now n)) = gn_authority_set n"
    by (auto simp: gossip_once_def refresh_self_def Let_def split: prod.split sum.split option.split)
  then show ?case using Cons.IH t by simp
qed simp

section \<open>The command line\<close>

text \<open>\<open>Cmd\<close>.\<close>

datatype cmd =
    Keygen string
  | Pubkey string
  | Doctor string "string list" nat
  | Run run_args
  | SignDirectory string string string nat

definition DEFAULT_AUTHORITIES :: "string list" where
  "DEFAULT_AUTHORITIES = [''http://144.24.205.188:8443'', ''http://84.235.232.196:8443'', ''http://84.235.228.107:8443'']"

text \<open>The command \<open>doctor\<close>; \<open>ask\<close> is what the authority at a URL answers.\<close>

definition doctor :: "prims \<Rightarrow> fs \<Rightarrow> (string \<Rightarrow> json_relay list option) \<Rightarrow> string \<Rightarrow> string list \<Rightarrow> nat \<Rightarrow> file_error + doctor_end" where
  "doctor P fs ask key_file authority_url quorum =
     (case read_key_file P fs key_file of
        Inl e \<Rightarrow> Inl e
      | Inr sk \<Rightarrow>
          let pk_hex = hex_encode P (x25519 P sk x25519_base);
              authorities = (if authority_url = [] then DEFAULT_AUTHORITIES else authority_url)
          in Inr (run_doctor pk_hex (map (\<lambda>url. (url, ask url)) authorities) quorum))"

text \<open>How a command ends, and the files it leaves; a daemon is still running.\<close>

datatype cmd_end =
    Failed file_error
  | Printed string
  | Diagnosed doctor_end
  | Started "spawned list" daemon
  | Signed signed_directory

definition run_command :: "prims \<Rightarrow> json \<Rightarrow> run_env \<Rightarrow> (string \<Rightarrow> json_relay list option) \<Rightarrow> (bytes \<Rightarrow> relay_json_entry list option)
    \<Rightarrow> (signed_directory \<Rightarrow> bytes option) \<Rightarrow> (nat \<Rightarrow> byte) \<Rightarrow> fs \<Rightarrow> cmd \<Rightarrow> cmd_end \<times> fs" where
  "run_command P J X ask relays_json sd_json draw fs c =
     (case c of
        Keygen key_file \<Rightarrow> (case keygen P draw fs key_file of (Inl e, fs') \<Rightarrow> (Failed e, fs') | (Inr pk, fs') \<Rightarrow> (Printed pk, fs'))
      | Pubkey key_file \<Rightarrow> (case pubkey P fs key_file of Inl e \<Rightarrow> (Failed e, fs) | Inr pk \<Rightarrow> (Printed pk, fs))
      | Doctor key_file authority_url quorum \<Rightarrow>
          (case doctor P fs ask key_file authority_url quorum of Inl e \<Rightarrow> (Failed e, fs) | Inr verdict \<Rightarrow> (Diagnosed verdict, fs))
      | Run a \<Rightarrow> (case run_setup P X fs a of (ts, Inl e) \<Rightarrow> (Failed e, fs) | (ts, Inr d) \<Rightarrow> (Started ts d, fs))
      | SignDirectory authority_key listing output valid_secs \<Rightarrow>
          (case sign_directory P J (map_option text_of (fs authority_key))
                  (case fs listing of
                     None \<Rightarrow> Inl NotFound
                   | Some b \<Rightarrow> (case relays_json b of None \<Rightarrow> Inl (InvalidData ''relays JSON'') | Some es \<Rightarrow> Inr es))
                  valid_secs (Some (rv_now_unix X)) of
             Inl e \<Rightarrow> (Failed e, fs)
           | Inr sd \<Rightarrow>
               (case sd_json sd of
                  None \<Rightarrow> (Failed (OtherError ''to_json_pretty''), fs)
                | Some b \<Rightarrow> (Signed sd, fs(output \<mapsto> b)))))"

text \<open>
  The commands agree on the identity of a relay: the key that \<open>keygen\<close> prints is the one \<open>pubkey\<close>
  prints, the one \<open>doctor\<close> asks the authorities for, and the identity of the relay that \<open>run\<close>
  starts; and \<open>keygen\<close> never replaces a key.
\<close>

lemma commands_agree_on_identity:
  assumes "hex_ok P" "hex_text P" "run_command P J X ask rj sj draw fs (Keygen (ra_key_file a)) = (Printed pk, fs1)"
    "run_command P J X' ask rj sj draw fs1 (Run a) = (Started ts d, fs2)"
  shows "hex_encode P (identity_public_key P (dm_relay d)) = pk"
    "run_command P J X' ask rj sj draw fs1 (Pubkey (ra_key_file a)) = (Printed pk, fs1)"
    "run_command P J X' ask rj sj draw fs1 (Doctor (ra_key_file a) [u] q) = (Diagnosed (run_doctor pk [(u, ask u)] q), fs1)"
    "\<exists>e. run_command P J X' ask rj sj draw fs1 (Keygen (ra_key_file a)) = (Failed e, fs1)"
proof -
  have g: "keygen P draw fs (ra_key_file a) = (Inr pk, fs1)" using assms(3) by (auto simp: run_command_def split: prod.splits sum.splits)
  have r: "run_setup P X' fs1 a = (ts, Inr d)" using assms(4) by (auto simp: run_command_def split: prod.splits sum.splits)
  have p: "pubkey P fs1 (ra_key_file a) = Inr pk" using keygen_roundtrip [OF assms(1,2)] g by blast
  then have k: "read_key_file P fs1 (ra_key_file a) = Inr (dm_sk d)" "hex_encode P (x25519 P (dm_sk d) x25519_base) = pk"
    using run_setup_Inr(1) [OF r] by (auto simp: pubkey_def)
  show "hex_encode P (identity_public_key P (dm_relay d)) = pk"
    using k(2) by (simp add: identity_public_key_def run_setup_Inr(2) [OF r] run_relay_fields)
  show "run_command P J X' ask rj sj draw fs1 (Pubkey (ra_key_file a)) = (Printed pk, fs1)" by (simp add: run_command_def p)
  show "run_command P J X' ask rj sj draw fs1 (Doctor (ra_key_file a) [u] q) = (Diagnosed (run_doctor pk [(u, ask u)] q), fs1)"
    by (simp add: run_command_def doctor_def k Let_def)
  have "fs1 (ra_key_file a) \<noteq> None" using k(1) by (auto simp: read_key_file_def split: option.splits)
  then have "keygen P draw fs1 (ra_key_file a) = (Inl AlreadyExists, fs1)" using keygen_roundtrip [OF assms(1,2)] by blast
  then show "\<exists>e. run_command P J X' ask rj sj draw fs1 (Keygen (ra_key_file a)) = (Failed e, fs1)" by (simp add: run_command_def)
qed

end
