(* ===== verification/Roster_File.thy ===== *)
theory Roster_File
  imports Key_Files Roster_Correct
begin

text \<open>
  The file of a roster, \<open>save_to\<close> and \<open>load_from\<close> of crypto-gotham-directory/src/roster.rs. The JSON of
  rosters is a parameter.
\<close>

record roster_json =
  rj_to_vec :: "roster \<Rightarrow> bytes option"
  rj_from_slice :: "bytes \<Rightarrow> roster option"

definition roster_json_ok :: "roster_json \<Rightarrow> bool" where
  "roster_json_ok W \<longleftrightarrow> (\<forall>r. \<exists>b. rj_to_vec W r = Some b \<and> rj_from_slice W b = Some r)"

text \<open>\<open>Path::with_extension("json.tmp")\<close>.\<close>

definition with_extension_json_tmp :: "string \<Rightarrow> string" where
  "with_extension_json_tmp path =
     (let dir = rev (dropWhile (\<lambda>c. c \<noteq> CHR ''/'') (rev path));
          name = rev (takeWhile (\<lambda>c. c \<noteq> CHR ''/'') (rev path));
          stem = rev (dropWhile (\<lambda>c. c \<noteq> CHR ''.'') (rev name))
      in if length stem \<le> 1 then path @ ''.json.tmp'' else dir @ stem @ ''json.tmp'')"

text \<open>The states of the file system during \<open>save_to\<close>, or the error before anything is written.\<close>

definition save_to :: "roster_json \<Rightarrow> roster \<Rightarrow> fs \<Rightarrow> string \<Rightarrow> directory_error + fs list" where
  "save_to W r fs path =
     (let tmp = with_extension_json_tmp path
      in case rj_to_vec W r of
           None \<Rightarrow> Inl DJson
         | Some b \<Rightarrow> Inr (fs # map (\<lambda>k. fs(tmp \<mapsto> take k b)) [0 ..< Suc (length b)]
                          @ [(fs(path \<mapsto> b))(tmp := if tmp = path then Some b else None)]))"

definition load_from :: "roster_json \<Rightarrow> fs \<Rightarrow> string \<Rightarrow> directory_error + roster" where
  "load_from W fs path =
     (case fs path of
        None \<Rightarrow> Inr roster_new
      | Some b \<Rightarrow> (case rj_from_slice W b of None \<Rightarrow> Inl DJson | Some r \<Rightarrow> Inr r))"

text \<open>
  A crash during \<open>save_to\<close> leaves the roster that the file held before or the new one, and a save
  that is complete is read back as it was.
\<close>

lemma save_crash_safe:
  assumes "roster_json_ok W" "with_extension_json_tmp path \<noteq> path" "load_from W fs path = Inr r0" "save_to W r fs path = Inr states"
  shows "g \<in> set states \<Longrightarrow> load_from W g path = Inr r0 \<or> load_from W g path = Inr r" "load_from W (last states) path = Inr r"
proof -
  obtain b where b: "rj_to_vec W r = Some b" "rj_from_slice W b = Some r" using assms(1) unfolding roster_json_ok_def by blast
  show "g \<in> set states \<Longrightarrow> load_from W g path = Inr r0 \<or> load_from W g path = Inr r" "load_from W (last states) path = Inr r"
    using assms(2-4) b by (auto simp: save_to_def load_from_def Let_def)
qed

end
