(* ===== verification/Spec2Isabelle.thy ===== *)
theory Spec2Isabelle
  imports End_To_End Surb Hybrid Authority_Service Daemon_Restart Relay_Commands Roster_File
begin

text \<open>
  A verification development of the Gotham mixnet: the packet format and its cryptographic
  containers (crate crypto-gotham), the relay and the client (crypto-gotham-relay), the gossiped
  directory (crypto-gotham-directory) and the directory authority (crypto-gotham-authority).

  \<^bold>\<open>The program.\<close> A client chooses a path of relays from a signed directory, wraps a message in a
  Sphinx header with a LIONESS payload, and sends the packet to the first relay. Each relay opens one
  layer, refuses replays, waits a random time and forwards. The last relay delivers to a handler,
  which may be a mailbox from which the recipient fetches later, or which answers with a
  single-use reply block. Relays get into the directory by enrolling with authorities, which probe
  them and sign; relays that cannot be reached directly keep a tunnel to a rendezvous point. A second
  directory is gossiped between relays, admission to it being by certificates of a quorum of
  authorities.

  \<^bold>\<open>Theories and sources.\<close>
  \<^item> \<open>Gotham_Prelude\<close>: bytes, big and little endian numbers, saturating and checked arithmetic of
    64 bits, hash maps as association lists with the locale of their laws, the collections of simp
    rules. \<open>Primitives\<close>: the record of cryptographic functions that all components take as a
    parameter, what is assumed of them (\<open>hex_ok\<close>, \<open>ed_ok\<close>, \<open>dh_ok\<close>, \<open>aead_ok\<close>) and a concrete instance.
    \<open>Eviction\<close>: the locale of tables that evict the entry least recently used.
  \<^item> \<open>Sphinx_Header\<close> (header.rs), \<open>Sphinx_Correct\<close>: the header, its wrapping for a route and its
    unwrapping by a hop; that every hop of the route recovers its record and that the tag binds
    what follows. \<open>Lioness\<close> (lioness.rs), \<open>Sealed\<close> (sealed.rs), \<open>Hybrid\<close> (hybrid.rs): inverse
    operations, and agreement of the hybrid key encapsulation over its wire formats.
  \<^item> \<open>Replay_Cache\<close> (replay.rs), \<open>Rate_Limit\<close> (rate_limit.rs), \<open>Relay_Process\<close> (process.rs, delay.rs):
    the state of a relay and the processing of a packet on every branch. \<open>Network\<close>: a packet on its
    way through the relays of a path, and that no packet travels forever.
  \<^item> \<open>Directory\<close>, \<open>Directory_Correct\<close> (directory.rs): documents and their signatures, key rotation as
    reachability, path selection and diversity, the caps of a published directory.
  \<^item> \<open>Cover\<close>, \<open>Client\<close> (cover.rs, client.rs, cover_loop.rs), \<open>Surb\<close> (surb.rs), \<open>End_To_End\<close>: sending, and
    the composition of client, relays and delivery.
  \<^item> \<open>Mailbox\<close>, \<open>Mailbox_Correct\<close> (mailbox.rs), \<open>Mailbox_Service\<close> (transport.rs, mailbox_client.rs): the
    store as a refinement of one queue of messages for each recipient, the requests of a
    connection and the client that empties its mailbox.
  \<^item> \<open>Noise_Framing\<close>, \<open>Rendezvous\<close>, \<open>Pool\<close>, \<open>Relay_Node\<close> (transport.rs, rendezvous.rs, pool.rs): frames,
    blobs and handshakes over a Noise session (locale \<open>framing\<close>), tunnels and their table, the pool of
    connections, and the relay as a service over them. The table and the pool are state machines
    with an inductive set of reachable states.
  \<^item> \<open>Admission\<close>, \<open>Roster\<close>, \<open>Roster_Correct\<close>, \<open>Roster_File\<close>, \<open>Gossip_Node\<close> (crypto-gotham-directory,
    gossip.rs): certificates by quorum, rosters, their merging and their file, the gossip protocol on
    the wire.
  \<^item> \<open>Enroll\<close> (enroll.rs, enroll_client.rs), \<open>Authority\<close>, \<open>Turn_Service\<close>, \<open>Authority_Service\<close>
    (crypto-gotham-authority), \<open>Enroll_Loop\<close>: enrolment from both ends, the loop of a relay against
    several authorities, and the authority as a service: its options, its start, its routes and the
    sequence of its requests.
  \<^item> \<open>Endpoints\<close> (transport.rs): the configuration of the QUIC endpoints, the dials and the liveness
    probe, and the enrolment of a relay over the network of listening relays.
  \<^item> \<open>Nat_Mapping\<close> (nat.rs), \<open>Key_Files\<close>, \<open>Restart\<close>, \<open>Operator_Commands\<close> (main.rs of the relay): the files
    of a relay with the states a crash may leave, the restart of a relay from them, and the commands
    of an operator. \<open>Relay_Daemon\<close>, \<open>Daemon_Restart\<close>, \<open>Relay_Commands\<close> (main.rs, transport.rs): the
    command \<open>run\<close> from its options to the service, its tasks, its shutdown and the next start, and all
    commands together.

  \<^bold>\<open>How the code is modelled.\<close> A struct is a record, an enum a datatype, an operation a function from
  its arguments and the state to its result and the new state; every error return is a value.
  Bytes are words of 8 bits, strings lists of characters, clock readings and random draws
  arguments, durations numbers of nanoseconds. Numbers of 64 bits are natural numbers with their
  saturation, check or wrap-around written out. Floating-point numbers are rationals with the
  rounding as a parameter. A hash map is an association list without repeated keys, in the
  order of iteration. A stream is the list of bytes still to be read. Loops are total functions: by
  structural recursion, by a measure, or by the number of rounds the code itself allows
  (\<open>MAX_TRIES\<close>, \<open>MAX_FETCH_ROUNDS\<close>, \<open>MAX_HOPS\<close>); no fuel is added to the code's own bounds.

  \<^bold>\<open>What the theorems show.\<close> For each component an invariant that its operations keep, its
  behaviour on every branch, and the round trips of its formats. Across components: a sealed message
  arrives over any path the selector picks, and a reply comes back; a daemon that is shut down and
  started again has its identity and its mailboxes and refuses the packets it has seen; the options
  of a relay decide what it offers, and every client endpoint reaches its service; a relay that is
  started and reachable is enrolled, one that has been enrolled gets into the directory, everything
  that an authority signs is about vetted relays, and a relay that announces itself is admitted by a
  quorum; the gossip
  protocol on the wire is the abstract exchange of rosters; a relay behind a rendezvous point
  behaves as one that is dialled, and receives what is forwarded to it; the owner of a mailbox gets
  all its messages. Some theorems state where the code falls short: a selected path may be too long
  for a header, two rosters may stay different, the diagnosis is wrong for a hosted relay, the
  number of tunnels from an address is not bounded, a relay with an IPv6 address is never enrolled, and
  a mistyped key of an authority is not pinned.

  \<^bold>\<open>Not modelled.\<close> The QUIC, TLS and HTTP libraries (parameters, with what they document as the named
  hypotheses \<open>quic_ok\<close> and \<open>router_ok\<close>), the parsing of the command line, logging and the installation
  of signal handlers; the secrecy of the cryptographic primitives (they are parameters with functional
  laws only; the one refusal that is assumed is \<open>xk_rejects\<close>, that a handshake for another key is not
  answered), so that statements on forgery or anonymity are outside the development; the interleaving
  of tasks within one operation, where the code holds a lock.
\<close>

end
